(* ===== verification/Dagens_Prelude.thy ===== *)
theory Dagens_Prelude
  imports Main "HOL-Library.AList" "HOL-Library.Sublist" "HOL-Library.Multiset"
    "HOL-Library.List_Lexorder" "HOL-Library.Char_ord" "HOL-Library.Product_Lexorder"
begin

text \<open>
  Shared vocabulary of the development: Go times, dynamic values and errors, the few
  functions of Go's \<^verbatim>\<open>strings\<close> and \<^verbatim>\<open>errors\<close> packages the scheduler calls, Go maps as
  association lists, and the generic list and map lemmas the component theories rest on.

  Conventions.
  \<^item> A \<^verbatim>\<open>time.Time\<close> is an integer number of nanoseconds since Go's zero time, so
    \<^verbatim>\<open>IsZero\<close> is equality with 0; a \<^verbatim>\<open>time.Duration\<close> is an integer number of nanoseconds.
  \<^item> A Go \<^verbatim>\<open>int\<close> is \<^typ>\<open>int\<close> and a \<^verbatim>\<open>uint64\<close> sequence number is \<^typ>\<open>nat\<close>: no counter of the
    modelled code comes near \<open>2 ^ 63\<close>.
  \<^item> A Go map is an association list; the order of the list stands for the (unspecified)
    iteration order of the map.
  \<^item> Strings are lists of characters; the text functions below are Go's on ASCII text.
\<close>

named_theorems store_defs \<open>definitions of the transition-store operations\<close>
named_theorems sched_defs \<open>definitions of the scheduler's elementary operations\<close>
named_theorems frame_simps \<open>which state fields an operation leaves alone\<close>

type_synonym time = int
type_synonym duration = int
type_synonym ('k, 'v) gomap = "('k \<times> 'v) list"

section \<open>Go values and errors\<close>

datatype go_value =
    VNil
  | VBool bool
  | VInt int
  | VString string
  | VList "go_value list"
  | VMap "(string \<times> go_value) list"

text \<open>
  The package-level error variables (\<^verbatim>\<open>errors.New\<close>) the scheduler compares with
  \<^verbatim>\<open>errors.Is\<close>.
\<close>

datatype sentinel =
    ErrJobQueueFull
  | ErrNoWorkerCapacity
  | ErrSchedulerRecovering
  | ErrTransitionStoreSetAfterStart
  | ErrLeadershipProviderSetAfterStart
  | ErrDispatchClaimRejected
  | ErrStaleDispatchAuthority
  | ErrMissingDispatchAuthority
  | ErrInvalidScope
  | ContextCanceled
  | ContextDeadlineExceeded

datatype go_error =
    ErrNew string
  | ErrSentinel sentinel
  | ErrPolicyViolation string string
  | ErrReplayJob string go_error
  | ErrWrap string go_error string

type_synonym 'a result = "go_error + 'a"

fun sentinel_text :: "sentinel \<Rightarrow> string" where
  "sentinel_text ErrJobQueueFull = ''job queue is full''"
| "sentinel_text ErrNoWorkerCapacity = ''all healthy workers are at capacity''"
| "sentinel_text ErrSchedulerRecovering = ''scheduler is recovering state''"
| "sentinel_text ErrTransitionStoreSetAfterStart =
     ''transition store can only be set before scheduler start''"
| "sentinel_text ErrLeadershipProviderSetAfterStart =
     ''leadership provider can only be set before scheduler start''"
| "sentinel_text ErrDispatchClaimRejected =
     ''dispatch claim rejected by transition store fencing''"
| "sentinel_text ErrStaleDispatchAuthority = ''stale dispatch authority''"
| "sentinel_text ErrMissingDispatchAuthority = ''missing dispatch authority''"
| "sentinel_text ErrInvalidScope = ''invalid leadership scope''"
| "sentinel_text ContextCanceled = ''context canceled''"
| "sentinel_text ContextDeadlineExceeded = ''context deadline exceeded''"

text \<open>\<^verbatim>\<open>err.Error()\<close>; \<open>ErrWrap p e s\<close> is \<^verbatim>\<open>fmt.Errorf\<close> with one \<^verbatim>\<open>%w\<close> verb between the
  texts \<open>p\<close> and \<open>s\<close>.\<close>

fun error_text :: "go_error \<Rightarrow> string" where
  "error_text (ErrNew s) = s"
| "error_text (ErrSentinel x) = sentinel_text x"
| "error_text (ErrPolicyViolation reason rule) = ''policy violation: '' @ reason"
| "error_text (ErrReplayJob job e) =
     ''replay failed for job '' @ job @ '': '' @ error_text e"
| "error_text (ErrWrap p e s) = p @ error_text e @ s"

text \<open>\<^verbatim>\<open>errors.Is\<close> against a sentinel and \<^verbatim>\<open>errors.As\<close> for the two error structs: both walk
  the chain of wrapped errors.\<close>

fun errors_is :: "go_error \<Rightarrow> sentinel \<Rightarrow> bool" where
  "errors_is (ErrSentinel x) y = (x = y)"
| "errors_is (ErrReplayJob _ e) y = errors_is e y"
| "errors_is (ErrWrap _ e _) y = errors_is e y"
| "errors_is _ y = False"

fun errors_as_policy :: "go_error \<Rightarrow> string option" where
  "errors_as_policy (ErrPolicyViolation reason rule) = Some reason"
| "errors_as_policy (ErrReplayJob _ e) = errors_as_policy e"
| "errors_as_policy (ErrWrap _ e _) = errors_as_policy e"
| "errors_as_policy _ = None"

section \<open>Text\<close>

text \<open>\<^verbatim>\<open>strings.Contains\<close>.\<close>

definition str_contains :: "string \<Rightarrow> string \<Rightarrow> bool" where
  "str_contains s sub \<longleftrightarrow> sublist sub s"

definition to_lower_char :: "char \<Rightarrow> char" where
  "to_lower_char c =
     (if CHR ''A'' \<le> c \<and> c \<le> CHR ''Z'' then char_of (of_char c + (32 :: nat)) else c)"

text \<open>\<^verbatim>\<open>strings.ToLower\<close> and \<^verbatim>\<open>strings.EqualFold\<close>.\<close>

definition to_lower :: "string \<Rightarrow> string" where
  "to_lower s = map to_lower_char s"

definition equal_fold :: "string \<Rightarrow> string \<Rightarrow> bool" where
  "equal_fold s t \<longleftrightarrow> to_lower s = to_lower t"

definition is_space :: "char \<Rightarrow> bool" where
  "is_space c \<longleftrightarrow> c = CHR '' '' \<or> (CHR 0x09 \<le> c \<and> c \<le> CHR 0x0D)"

definition is_print :: "char \<Rightarrow> bool" where
  "is_print c \<longleftrightarrow> CHR 0x20 \<le> c \<and> c \<le> CHR 0x7E"

text \<open>\<^verbatim>\<open>strings.TrimSpace\<close>.\<close>

definition trim_space :: "string \<Rightarrow> string" where
  "trim_space s = rev (dropWhile is_space (rev (dropWhile is_space s)))"

text \<open>\<^verbatim>\<open>strings.Fields\<close>: the maximal runs of non-space characters. The accumulator holds the
  current run.\<close>

fun fields_acc :: "string \<Rightarrow> string \<Rightarrow> string list" where
  "fields_acc run [] = (if run = [] then [] else [run])"
| "fields_acc run (c # cs) =
     (if is_space c then (if run = [] then fields_acc [] cs else run # fields_acc [] cs)
      else fields_acc (run @ [c]) cs)"

definition str_fields :: "string \<Rightarrow> string list" where
  "str_fields s = fields_acc [] s"

text \<open>\<^verbatim>\<open>strings.Join\<close> with a blank.\<close>

fun join_blank :: "string list \<Rightarrow> string" where
  "join_blank [] = []"
| "join_blank [w] = w"
| "join_blank (w # ws) = w @ '' '' @ join_blank ws"

text \<open>Decimal text, as \<^verbatim>\<open>fmt.Sprintf("%d", n)\<close> writes it.\<close>

definition digit_char :: "nat \<Rightarrow> char" where
  "digit_char d = char_of (48 + d)"

fun decimal :: "nat \<Rightarrow> string" where
  "decimal n = (if n < 10 then [digit_char n] else decimal (n div 10) @ [digit_char (n mod 10)])"

declare decimal.simps [simp del]

definition decimal_int :: "int \<Rightarrow> string" where
  "decimal_int i = (if i < 0 then ''-'' @ decimal (nat (- i)) else decimal (nat i))"

definition of_decimal :: "string \<Rightarrow> nat" where
  "of_decimal s = foldl (\<lambda>n c. 10 * n + (of_char c - 48)) 0 s"

lemma of_decimal_decimal [simp]: "of_decimal (decimal n) = n"
proof (induction n rule: decimal.induct)
  case (1 n)
  have digit: "of_char (digit_char d) - (48 :: nat) = d" if "d < 10" for d
    using that by (simp add: digit_char_def)
  show ?case
  proof (cases "n < 10")
    case True
    then show ?thesis by (simp add: decimal.simps [of n] of_decimal_def digit)
  next
    case False
    then have "of_decimal (decimal n) = 10 * of_decimal (decimal (n div 10)) + n mod 10"
      by (simp add: decimal.simps [of n] of_decimal_def digit)
    with 1 False show ?thesis by simp
  qed
qed

lemma decimal_inject [simp]: "decimal m = decimal n \<longleftrightarrow> m = n"
  by (metis of_decimal_decimal)

lemma decimal_not_Nil [simp]: "decimal n \<noteq> []"
  by (simp add: decimal.simps [of n])

lemma is_space_digit:
  assumes "d < 10"
  shows "\<not> is_space (digit_char d)"
proof -
  have code: "of_char (digit_char d) = 48 + d" using assms by (simp add: digit_char_def)
  then have "digit_char d \<noteq> CHR '' ''" by auto
  with code show ?thesis by (simp add: is_space_def less_eq_char_def)
qed

lemma decimal_no_space: "c \<in> set (decimal n) \<Longrightarrow> \<not> is_space c"
proof (induction n rule: decimal.induct)
  case (1 n)
  then show ?case
    by (cases "n < 10") (auto simp: decimal.simps [of n] is_space_digit)
qed

lemma dropWhile_none: "(\<forall>c \<in> set s. \<not> P c) \<Longrightarrow> dropWhile P s = s"
  by (cases s) auto

lemma trim_space_id: "(\<forall>c \<in> set s. \<not> is_space c) \<Longrightarrow> trim_space s = s"
  by (simp add: trim_space_def dropWhile_none)

lemma trim_space_idem: "trim_space (trim_space s) = trim_space s"
proof -
  have hd1: "x = [] \<or> \<not> is_space (hd x)" if "x = dropWhile is_space y" for x y
    using that hd_dropWhile [of is_space y] by auto
  define a where "a = dropWhile is_space s"
  define b where "b = dropWhile is_space (rev a)"
  have "b = [] \<or> \<not> is_space (hd b)" using hd1 b_def by blast
  moreover have "rev b = [] \<or> \<not> is_space (hd (rev b))"
  proof (cases "b = []")
    case False
    obtain zs where zs: "rev a = zs @ b"
      unfolding b_def by (metis takeWhile_dropWhile_id)
    then have "a = rev b @ rev zs" by (metis rev_append rev_rev_ident)
    with False have "hd (rev b) = hd a" by (simp add: hd_append)
    moreover have "a \<noteq> []" using False b_def by auto
    ultimately show ?thesis using hd1 [OF a_def] by auto
  qed simp
  ultimately have "dropWhile is_space (rev b) = rev b" "dropWhile is_space b = b"
    by (simp_all add: dropWhile_eq_self_iff)
  then show ?thesis by (simp add: trim_space_def flip: a_def b_def)
qed

lemma fields_acc_words:
  assumes "w \<in> set (fields_acc run s)" and "\<forall>c \<in> set run. \<not> is_space c"
  shows "w \<noteq> [] \<and> (\<forall>c \<in> set w. \<not> is_space c \<and> c \<in> set run \<union> set s)"
  using assms
proof (induction s arbitrary: run)
  case Nil
  then show ?case by (auto split: if_splits)
next
  case (Cons c cs)
  show ?case
  proof (cases "is_space c")
    case True
    with Cons.prems have "w = run \<and> run \<noteq> [] \<or> w \<in> set (fields_acc [] cs)"
      by (auto split: if_splits)
    then show ?thesis
      using Cons.prems(2) Cons.IH [of "[]"] by auto
  next
    case False
    with Cons.prems have "w \<in> set (fields_acc (run @ [c]) cs)" by simp
    with Cons.IH [of "run @ [c]"] Cons.prems(2) False show ?thesis by simp
  qed
qed

lemma fields_words:
  assumes "w \<in> set (str_fields s)"
  shows "w \<noteq> [] \<and> (\<forall>c \<in> set w. \<not> is_space c \<and> c \<in> set s)"
  using fields_acc_words [of w "[]" s] assms by (simp add: str_fields_def)

lemma set_join_blank:
  "c \<in> set (join_blank ws) \<Longrightarrow> c = CHR '' '' \<or> (\<exists>w \<in> set ws. c \<in> set w)"
  by (induction ws rule: join_blank.induct) auto

section \<open>Association lists as Go maps\<close>

abbreviation mget :: "('k, 'v) gomap \<Rightarrow> 'k \<Rightarrow> 'v option" where
  "mget m k \<equiv> map_of m k"

abbreviation mput :: "'k \<Rightarrow> 'v \<Rightarrow> ('k, 'v) gomap \<Rightarrow> ('k, 'v) gomap" where
  "mput k v m \<equiv> AList.update k v m"

abbreviation mdel :: "'k \<Rightarrow> ('k, 'v) gomap \<Rightarrow> ('k, 'v) gomap" where
  "mdel k m \<equiv> AList.delete k m"

text \<open>Every key once: the well-formedness of an association list that stands for a map.\<close>

definition wf_map :: "('k, 'v) gomap \<Rightarrow> bool" where
  "wf_map m \<longleftrightarrow> distinct (map fst m)"

text \<open>Reading a missing key gives the zero value: \<^verbatim>\<open>m[k]\<close> in an expression.\<close>

definition mget_or :: "'v \<Rightarrow> ('k, 'v) gomap \<Rightarrow> 'k \<Rightarrow> 'v" where
  "mget_or z m k = (case mget m k of None \<Rightarrow> z | Some v \<Rightarrow> v)"

lemma wf_map_Nil [simp, intro!]: "wf_map []"
  by (simp add: wf_map_def)

lemma wf_map_mput [simp, intro]: "wf_map m \<Longrightarrow> wf_map (mput k v m)"
  by (simp add: wf_map_def distinct_update)

lemma wf_map_mdel [simp, intro]: "wf_map m \<Longrightarrow> wf_map (mdel k m)"
  by (simp add: wf_map_def distinct_delete)

lemma mget_mput [simp]: "mget (mput k v m) k' = (if k' = k then Some v else mget m k')"
  by (simp add: update_conv')

lemma mget_mdel [simp]: "mget (mdel k m) k' = (if k' = k then None else mget m k')"
  by (simp add: delete_conv')

lemma mget_or_mput [simp]:
  "mget_or z (mput k v m) k' = (if k' = k then v else mget_or z m k')"
  by (simp add: mget_or_def)

lemma mput_fresh: "k \<notin> fst ` set m \<Longrightarrow> mput k v m = m @ [(k, v)]"
  by (induction m) auto

lemma wf_map_mget_iff: "wf_map m \<Longrightarrow> mget m k = Some v \<longleftrightarrow> (k, v) \<in> set m"
  by (simp add: wf_map_def)

section \<open>Sorting\<close>

text \<open>\<^verbatim>\<open>sort.Slice\<close> leaves the order of equal elements open; the model sorts with the library's
  stable \<^const>\<open>sort_key\<close>. Where the keys are distinct the sorted order is unique, so the choice
  does not show.\<close>

lemma sort_key_unique:
  assumes "mset ys = mset xs" "sorted (map f ys)" "inj_on f (set xs)"
  shows "ys = sort_key f xs"
proof -
  have set_eq: "set ys = set xs" using assms(1) by (metis set_mset_mset)
  have same: "filter (\<lambda>x. f k = f x) zs = replicate (count (mset zs) k) k"
    if "k \<in> set xs" "set zs = set xs" for k zs
  proof -
    have "filter (\<lambda>x. f k = f x) zs = filter (HOL.eq k) zs"
      using assms(3) that by (intro filter_cong) (simp_all add: inj_on_eq_iff)
    then show ?thesis by (simp add: replicate_count_mset_eq_filter_eq)
  qed
  have "sort_key f xs = ys"
  proof (rule properties_for_sort_key)
    show "mset ys = mset xs" by (rule assms(1))
    show "filter (\<lambda>x. f k = f x) ys = filter (\<lambda>x. f k = f x) xs" if "k \<in> set ys" for k
    proof -
      have k: "k \<in> set xs" using that set_eq by simp
      show ?thesis
        by (simp only: same [OF k set_eq] same [OF k refl] assms(1))
    qed
    show "sorted (map f ys)" by (rule assms(2))
  qed
  then show ?thesis ..
qed

lemma sort_key_append_sort: "sort_key f (sort_key f xs @ ys) = sort_key f (xs @ ys)"
proof (rule properties_for_sort_key)
  show "filter (\<lambda>x. f k = f x) (sort_key f (xs @ ys)) =
        filter (\<lambda>x. f k = f x) (sort_key f xs @ ys)" for k
    by (simp add: sort_key_stable eq_commute [of "f k"])
qed simp_all

lemma insort_key_pair:
  "\<forall>y \<in> set ys. g y = g x \<Longrightarrow> insort_key (\<lambda>x. (g x, f x)) x ys = insort_key f x ys"
  by (induction ys) (auto simp: less_eq_prod_simp)

lemma sort_key_pair:
  "\<forall>x \<in> set xs. g x = c \<Longrightarrow> sort_key (\<lambda>x. (g x, f x)) xs = sort_key f xs"
  by (induction xs) (simp_all add: insort_key_pair)

text \<open>Grouping rows by key, one row after the other.\<close>

lemma fold_group_rows:
  "mget (fold (\<lambda>r m. mput (key r) (mget_or [] m (key r) @ [r]) m) rows m) k =
     (if mget m k = None \<and> filter (\<lambda>r. key r = k) rows = [] then None
      else Some (mget_or [] m k @ filter (\<lambda>r. key r = k) rows))"
proof (induction rows arbitrary: m)
  case Nil
  then show ?case by (auto simp: mget_or_def split: option.splits)
next
  case (Cons r rows)
  show ?case
    by (simp add: Cons.IH [of "mput (key r) (mget_or [] m (key r) @ [r]) m"])
qed

lemma fold_mput_const:
  "mget (fold (\<lambda>k m. mput k z m) ks m) k = (if k \<in> set ks then Some z else mget m k)"
  by (induction ks arbitrary: m) auto

lemma fold_group_rows_init:
  assumes "k \<in> set ks"
  shows "mget (fold (\<lambda>r m. mput (key r) (mget_or [] m (key r) @ [r]) m) rows
            (fold (\<lambda>k m. mput k [] m) ks [])) k =
         Some (filter (\<lambda>r. key r = k) rows)" (is "mget (fold _ _ ?init) _ = _")
proof -
  have init: "mget ?init k = Some []"
    using assms by (simp add: fold_mput_const)
  then have "mget_or [] ?init k = []" by (simp add: mget_or_def)
  with init show ?thesis by (simp add: fold_group_rows)
qed

lemma foldr_max_ge: "x \<in> set xs \<Longrightarrow> (x :: nat) \<le> foldr max xs z"
  by (induction xs) (auto simp: le_max_iff_disj)

end
