(* ===== verification/Lifecycle.thy ===== *)
theory Lifecycle
  imports Dagens_Prelude
begin

text \<open>
  The durable job and task lifecycle of \<^verbatim>\<open>pkg/scheduler/state_machine.go\<close>: the states as
  datatypes (their Go type is a named string, so the empty string and any other string are
  values too), the transition tables, the structural check \<^verbatim>\<open>TransitionRecord.Validate\<close>, and
  the records the transition stores keep. The lemmas show that the tables are what the
  surrounding documentation says of them: terminal states are final, a task only ever moves
  forward, and a validated record names a known state.
\<close>

section \<open>States\<close>

datatype JobLifecycleState =
    JobStateUnset
  | JobStateSubmitted
  | JobStateQueued
  | JobStateRunning
  | JobStateAwaitingHuman
  | JobStateSucceeded
  | JobStateFailed
  | JobStateCanceled
  | JobStateOther string

datatype TaskLifecycleState =
    TaskStateUnset
  | TaskStatePending
  | TaskStateDispatched
  | TaskStateRunning
  | TaskStateSucceeded
  | TaskStateFailed
  | TaskStateOther string

datatype TransitionEntityType =
    TransitionEntityJob
  | TransitionEntityTask
  | TransitionEntityOther string

datatype TransitionType =
    TransitionUnset
  | TransitionJobSubmitted
  | TransitionJobQueued
  | TransitionJobRunning
  | TransitionJobAwaitingHuman
  | TransitionJobResumed
  | TransitionJobSucceeded
  | TransitionJobFailed
  | TransitionJobCanceled
  | TransitionTaskCreated
  | TransitionTaskDispatched
  | TransitionTaskRunning
  | TransitionTaskSucceeded
  | TransitionTaskFailed
  | TransitionOther string

text \<open>\<^verbatim>\<open>string(state)\<close> and the conversion back, \<^verbatim>\<open>JobLifecycleState(s)\<close>.\<close>

fun job_state_string :: "JobLifecycleState \<Rightarrow> string" where
  "job_state_string JobStateUnset = ''''"
| "job_state_string JobStateSubmitted = ''SUBMITTED''"
| "job_state_string JobStateQueued = ''QUEUED''"
| "job_state_string JobStateRunning = ''RUNNING''"
| "job_state_string JobStateAwaitingHuman = ''AWAITING_HUMAN''"
| "job_state_string JobStateSucceeded = ''SUCCEEDED''"
| "job_state_string JobStateFailed = ''FAILED''"
| "job_state_string JobStateCanceled = ''CANCELED''"
| "job_state_string (JobStateOther s) = s"

definition job_state_of :: "string \<Rightarrow> JobLifecycleState" where
  "job_state_of s =
     (if s = '''' then JobStateUnset
      else if s = ''SUBMITTED'' then JobStateSubmitted
      else if s = ''QUEUED'' then JobStateQueued
      else if s = ''RUNNING'' then JobStateRunning
      else if s = ''AWAITING_HUMAN'' then JobStateAwaitingHuman
      else if s = ''SUCCEEDED'' then JobStateSucceeded
      else if s = ''FAILED'' then JobStateFailed
      else if s = ''CANCELED'' then JobStateCanceled
      else JobStateOther s)"

fun task_state_string :: "TaskLifecycleState \<Rightarrow> string" where
  "task_state_string TaskStateUnset = ''''"
| "task_state_string TaskStatePending = ''PENDING''"
| "task_state_string TaskStateDispatched = ''DISPATCHED''"
| "task_state_string TaskStateRunning = ''RUNNING''"
| "task_state_string TaskStateSucceeded = ''SUCCEEDED''"
| "task_state_string TaskStateFailed = ''FAILED''"
| "task_state_string (TaskStateOther s) = s"

definition task_state_of :: "string \<Rightarrow> TaskLifecycleState" where
  "task_state_of s =
     (if s = '''' then TaskStateUnset
      else if s = ''PENDING'' then TaskStatePending
      else if s = ''DISPATCHED'' then TaskStateDispatched
      else if s = ''RUNNING'' then TaskStateRunning
      else if s = ''SUCCEEDED'' then TaskStateSucceeded
      else if s = ''FAILED'' then TaskStateFailed
      else TaskStateOther s)"

section \<open>Durable records\<close>

record DurableJobRecord =
  dj_JobID :: string
  dj_Name :: string
  dj_CurrentState :: JobLifecycleState
  dj_LastSequenceID :: nat
  dj_CreatedAt :: time
  dj_UpdatedAt :: time

record DurableTaskRecord =
  dt_TaskID :: string
  dt_JobID :: string
  dt_StageID :: string
  dt_NodeID :: string
  dt_AgentID :: string
  dt_AgentName :: string
  dt_InputJSON :: string
  dt_PartitionKey :: string
  dt_CurrentState :: TaskLifecycleState
  dt_LastAttempt :: int
  dt_UpdatedAt :: time

record TransitionRecord =
  tr_SequenceID :: nat
  tr_EntityType :: TransitionEntityType
  tr_Transition :: TransitionType
  tr_JobID :: string
  tr_TaskID :: string
  tr_PreviousState :: string
  tr_NewState :: string
  tr_NodeID :: string
  tr_Attempt :: int
  tr_ErrorSummary :: string
  tr_OccurredAt :: time

record TaskDispatchClaim =
  cl_TaskID :: string
  cl_JobID :: string
  cl_StageID :: string
  cl_NodeID :: string
  cl_Attempt :: int
  cl_UpdatedAt :: time

text \<open>The zero values \<^verbatim>\<open>DurableJobRecord{}\<close> and \<^verbatim>\<open>DurableTaskRecord{}\<close>.\<close>

definition zero_job_record :: DurableJobRecord where
  "zero_job_record =
     \<lparr>dj_JobID = '''', dj_Name = '''', dj_CurrentState = JobStateUnset,
      dj_LastSequenceID = 0, dj_CreatedAt = 0, dj_UpdatedAt = 0\<rparr>"

definition zero_task_record :: DurableTaskRecord where
  "zero_task_record =
     \<lparr>dt_TaskID = '''', dt_JobID = '''', dt_StageID = '''', dt_NodeID = '''',
      dt_AgentID = '''', dt_AgentName = '''', dt_InputJSON = '''', dt_PartitionKey = '''',
      dt_CurrentState = TaskStateUnset, dt_LastAttempt = 0, dt_UpdatedAt = 0\<rparr>"

section \<open>Transition tables\<close>

definition validJobTransitions ::
    "(JobLifecycleState, JobLifecycleState list) gomap" where
  "validJobTransitions =
     [(JobStateSubmitted, [JobStateQueued]),
      (JobStateQueued, [JobStateRunning, JobStateFailed, JobStateCanceled]),
      (JobStateRunning,
        [JobStateAwaitingHuman, JobStateSucceeded, JobStateFailed, JobStateCanceled]),
      (JobStateAwaitingHuman, [JobStateRunning, JobStateFailed, JobStateCanceled]),
      (JobStateSucceeded, []),
      (JobStateFailed, []),
      (JobStateCanceled, [])]"

definition validTaskTransitions ::
    "(TaskLifecycleState, TaskLifecycleState list) gomap" where
  "validTaskTransitions =
     [(TaskStatePending, [TaskStateDispatched, TaskStateFailed]),
      (TaskStateDispatched, [TaskStateRunning, TaskStateFailed]),
      (TaskStateRunning, [TaskStateSucceeded, TaskStateFailed]),
      (TaskStateSucceeded, []),
      (TaskStateFailed, [])]"

definition CanTransitionJobState :: "JobLifecycleState \<Rightarrow> JobLifecycleState \<Rightarrow> bool" where
  "CanTransitionJobState from to =
     (if from = to then True
      else case mget validJobTransitions from of
             None \<Rightarrow> False
           | Some next \<Rightarrow> to \<in> set next)"

definition CanTransitionTaskState :: "TaskLifecycleState \<Rightarrow> TaskLifecycleState \<Rightarrow> bool" where
  "CanTransitionTaskState from to =
     (if from = to then True
      else case mget validTaskTransitions from of
             None \<Rightarrow> False
           | Some next \<Rightarrow> to \<in> set next)"

fun IsTerminalJobState :: "JobLifecycleState \<Rightarrow> bool" where
  "IsTerminalJobState JobStateSucceeded = True"
| "IsTerminalJobState JobStateFailed = True"
| "IsTerminalJobState JobStateCanceled = True"
| "IsTerminalJobState _ = False"

fun IsTerminalTaskState :: "TaskLifecycleState \<Rightarrow> bool" where
  "IsTerminalTaskState TaskStateSucceeded = True"
| "IsTerminalTaskState TaskStateFailed = True"
| "IsTerminalTaskState _ = False"

section \<open>Structural validation of transition records\<close>

definition isValidJobLifecycleState :: "string \<Rightarrow> bool" where
  "isValidJobLifecycleState state =
     (job_state_of state \<in>
       {JobStateSubmitted, JobStateQueued, JobStateRunning, JobStateAwaitingHuman,
        JobStateSucceeded, JobStateFailed, JobStateCanceled})"

definition isValidTaskLifecycleState :: "string \<Rightarrow> bool" where
  "isValidTaskLifecycleState state =
     (task_state_of state \<in>
       {TaskStatePending, TaskStateDispatched, TaskStateRunning, TaskStateSucceeded,
        TaskStateFailed})"

text \<open>\<^verbatim>\<open>%q\<close>: the text in double quotes (the states it prints here need no escapes).\<close>

definition quoted :: "string \<Rightarrow> string" where
  "quoted s = CHR 0x22 # s @ [CHR 0x22]"

fun entity_string :: "TransitionEntityType \<Rightarrow> string" where
  "entity_string TransitionEntityJob = ''JOB''"
| "entity_string TransitionEntityTask = ''TASK''"
| "entity_string (TransitionEntityOther s) = s"

text \<open>\<^verbatim>\<open>TransitionRecord.Validate\<close>: \<^const>\<open>None\<close> is the nil error.\<close>

definition validate_job_part :: "TransitionRecord \<Rightarrow> go_error option" where
  "validate_job_part r =
     (if tr_TaskID r \<noteq> '''' then Some (ErrNew ''task_id must be empty for job transitions'')
      else if \<not> isValidJobLifecycleState (tr_NewState r) then
        Some (ErrNew (''invalid job new_state '' @ quoted (tr_NewState r)))
      else if tr_PreviousState r \<noteq> '''' \<and> \<not> isValidJobLifecycleState (tr_PreviousState r) then
        Some (ErrNew (''invalid job previous_state '' @ quoted (tr_PreviousState r)))
      else if tr_PreviousState r = '''' \<and> job_state_of (tr_NewState r) \<noteq> JobStateSubmitted then
        Some (ErrNew (''previous_state required for non-initial job transition to ''
          @ quoted (tr_NewState r)))
      else None)"

definition validate_task_part :: "TransitionRecord \<Rightarrow> go_error option" where
  "validate_task_part r =
     (if tr_TaskID r = '''' then Some (ErrNew ''task_id must be set for task transitions'')
      else if \<not> isValidTaskLifecycleState (tr_NewState r) then
        Some (ErrNew (''invalid task new_state '' @ quoted (tr_NewState r)))
      else if tr_PreviousState r \<noteq> '''' \<and> \<not> isValidTaskLifecycleState (tr_PreviousState r) then
        Some (ErrNew (''invalid task previous_state '' @ quoted (tr_PreviousState r)))
      else if tr_PreviousState r = '''' \<and> task_state_of (tr_NewState r) \<noteq> TaskStatePending then
        Some (ErrNew (''previous_state required for non-initial task transition to ''
          @ quoted (tr_NewState r)))
      else None)"

definition Validate :: "TransitionRecord \<Rightarrow> go_error option" where
  "Validate r =
     (if tr_SequenceID r = 0 then Some (ErrNew ''sequence_id must be greater than zero'')
      else if tr_JobID r = '''' then Some (ErrNew ''job_id must be set'')
      else if tr_EntityType r \<noteq> TransitionEntityJob \<and> tr_EntityType r \<noteq> TransitionEntityTask then
        Some (ErrNew (''invalid entity_type '' @ quoted (entity_string (tr_EntityType r))))
      else if tr_Transition r = TransitionUnset then Some (ErrNew ''transition must be set'')
      else if tr_NewState r = '''' then Some (ErrNew ''new_state must be set'')
      else if tr_OccurredAt r = 0 then Some (ErrNew ''occurred_at must be set'')
      else case tr_EntityType r of
             TransitionEntityJob \<Rightarrow> validate_job_part r
           | TransitionEntityTask \<Rightarrow> validate_task_part r
           | TransitionEntityOther _ \<Rightarrow> None)"

section \<open>Lemmas\<close>

text \<open>The known states: the seven (five) constants the Go file declares.\<close>

definition known_job_state :: "JobLifecycleState \<Rightarrow> bool" where
  "known_job_state st \<longleftrightarrow> st \<noteq> JobStateUnset \<and> (\<forall>s. st \<noteq> JobStateOther s)"

definition known_task_state :: "TaskLifecycleState \<Rightarrow> bool" where
  "known_task_state st \<longleftrightarrow> st \<noteq> TaskStateUnset \<and> (\<forall>s. st \<noteq> TaskStateOther s)"

lemma known_job_state_simps [simp]:
  "known_job_state JobStateSubmitted" "known_job_state JobStateQueued"
  "known_job_state JobStateRunning" "known_job_state JobStateAwaitingHuman"
  "known_job_state JobStateSucceeded" "known_job_state JobStateFailed"
  "known_job_state JobStateCanceled"
  "\<not> known_job_state JobStateUnset" "\<not> known_job_state (JobStateOther s)"
  by (simp_all add: known_job_state_def)

lemma known_task_state_simps [simp]:
  "known_task_state TaskStatePending" "known_task_state TaskStateDispatched"
  "known_task_state TaskStateRunning" "known_task_state TaskStateSucceeded"
  "known_task_state TaskStateFailed"
  "\<not> known_task_state TaskStateUnset" "\<not> known_task_state (TaskStateOther s)"
  by (simp_all add: known_task_state_def)

lemma job_state_of_string [simp]:
  "known_job_state st \<Longrightarrow> job_state_of (job_state_string st) = st"
  by (cases st) (simp_all add: job_state_of_def)

lemma task_state_of_string [simp]:
  "known_task_state st \<Longrightarrow> task_state_of (task_state_string st) = st"
  by (cases st) (simp_all add: task_state_of_def)

lemma job_state_string_of [simp]: "job_state_string (job_state_of s) = s"
  by (simp add: job_state_of_def)

lemma task_state_string_of [simp]: "task_state_string (task_state_of s) = s"
  by (simp add: task_state_of_def)

lemma job_state_string_empty [simp]:
  "known_job_state st \<Longrightarrow> job_state_string st \<noteq> ''''"
  by (cases st) simp_all

lemma task_state_string_empty [simp]:
  "known_task_state st \<Longrightarrow> task_state_string st \<noteq> ''''"
  by (cases st) simp_all

lemma isValidJobLifecycleState_iff [simp]:
  "isValidJobLifecycleState s \<longleftrightarrow> known_job_state (job_state_of s)"
  by (cases "job_state_of s") (simp_all add: isValidJobLifecycleState_def)

lemma isValidTaskLifecycleState_iff [simp]:
  "isValidTaskLifecycleState s \<longleftrightarrow> known_task_state (task_state_of s)"
  by (cases "task_state_of s") (simp_all add: isValidTaskLifecycleState_def)

lemma CanTransitionJobState_iff:
  "CanTransitionJobState from to \<longleftrightarrow>
     from = to
     \<or> (from = JobStateSubmitted \<and> to = JobStateQueued)
     \<or> (from = JobStateQueued \<and> to \<in> {JobStateRunning, JobStateFailed, JobStateCanceled})
     \<or> (from = JobStateRunning
         \<and> to \<in> {JobStateAwaitingHuman, JobStateSucceeded, JobStateFailed, JobStateCanceled})
     \<or> (from = JobStateAwaitingHuman
         \<and> to \<in> {JobStateRunning, JobStateFailed, JobStateCanceled})"
  by (cases "from"; cases "to") (simp_all add: CanTransitionJobState_def validJobTransitions_def)

lemma CanTransitionTaskState_iff:
  "CanTransitionTaskState from to \<longleftrightarrow>
     from = to
     \<or> (from = TaskStatePending \<and> to \<in> {TaskStateDispatched, TaskStateFailed})
     \<or> (from = TaskStateDispatched \<and> to \<in> {TaskStateRunning, TaskStateFailed})
     \<or> (from = TaskStateRunning \<and> to \<in> {TaskStateSucceeded, TaskStateFailed})"
  by (cases "from"; cases "to") (simp_all add: CanTransitionTaskState_def validTaskTransitions_def)

lemma CanTransitionJobState_refl [simp, intro]: "CanTransitionJobState st st"
  by (simp add: CanTransitionJobState_def)

lemma CanTransitionTaskState_refl [simp, intro]: "CanTransitionTaskState st st"
  by (simp add: CanTransitionTaskState_def)

lemma terminal_job_final:
  "IsTerminalJobState from \<Longrightarrow> CanTransitionJobState from to \<longleftrightarrow> to = from"
  by (cases "from") (auto simp: CanTransitionJobState_iff)

lemma terminal_task_final:
  "IsTerminalTaskState from \<Longrightarrow> CanTransitionTaskState from to \<longleftrightarrow> to = from"
  by (cases "from") (auto simp: CanTransitionTaskState_iff)

text \<open>What validation guarantees to the code that reads a record back.\<close>

lemma Validate_NoneD:
  assumes "Validate r = None"
  shows "0 < tr_SequenceID r" "tr_JobID r \<noteq> ''''" "tr_OccurredAt r \<noteq> 0"
    and "tr_EntityType r = TransitionEntityJob
           \<and> tr_TaskID r = '''' \<and> known_job_state (job_state_of (tr_NewState r))
         \<or> tr_EntityType r = TransitionEntityTask
           \<and> tr_TaskID r \<noteq> '''' \<and> known_task_state (task_state_of (tr_NewState r))"
  using assms
  by (auto simp: Validate_def validate_job_part_def validate_task_part_def
      split: if_splits TransitionEntityType.splits)

text \<open>The records the scheduler writes pass validation.\<close>

lemma Validate_job_recordI:
  assumes "tr_EntityType r = TransitionEntityJob" "0 < tr_SequenceID r" "tr_JobID r \<noteq> ''''"
    and "tr_Transition r \<noteq> TransitionUnset" "tr_OccurredAt r \<noteq> 0" "tr_TaskID r = ''''"
    and "tr_NewState r = job_state_string new" "known_job_state new"
    and "tr_PreviousState r = job_state_string prev"
    and "known_job_state prev \<or> prev = JobStateUnset \<and> new = JobStateSubmitted"
  shows "Validate r = None"
  using assms by (auto simp: Validate_def validate_job_part_def)

lemma Validate_task_recordI:
  assumes "tr_EntityType r = TransitionEntityTask" "0 < tr_SequenceID r" "tr_JobID r \<noteq> ''''"
    and "tr_Transition r \<noteq> TransitionUnset" "tr_OccurredAt r \<noteq> 0" "tr_TaskID r \<noteq> ''''"
    and "tr_NewState r = task_state_string new" "known_task_state new"
    and "tr_PreviousState r = task_state_string prev"
    and "known_task_state prev \<or> prev = TaskStateUnset \<and> new = TaskStatePending"
  shows "Validate r = None"
  using assms by (auto simp: Validate_def validate_task_part_def)

text \<open>Progress of a task: every change of state goes up.\<close>

fun task_rank :: "TaskLifecycleState \<Rightarrow> nat" where
  "task_rank TaskStateUnset = 0"
| "task_rank TaskStatePending = 1"
| "task_rank TaskStateDispatched = 2"
| "task_rank TaskStateRunning = 3"
| "task_rank TaskStateSucceeded = 4"
| "task_rank TaskStateFailed = 4"
| "task_rank (TaskStateOther _) = 0"

lemma CanTransitionTaskState_rank:
  "CanTransitionTaskState a b \<Longrightarrow> a = b \<or> task_rank a < task_rank b"
  by (auto simp: CanTransitionTaskState_iff)

section \<open>Properties\<close>

text \<open>C28. A transition record passes validation exactly when its sequence number, job, transition,
  time and new state are set, a job record names no task and a task record does, its states are
  known ones, and only an initial record (submitted, pending) leaves the previous state open.\<close>

theorem Validate_iff:
  "Validate r = None \<longleftrightarrow>
     0 < tr_SequenceID r \<and> tr_JobID r \<noteq> '''' \<and> tr_Transition r \<noteq> TransitionUnset
     \<and> tr_OccurredAt r \<noteq> 0
     \<and> (tr_EntityType r = TransitionEntityJob \<and> tr_TaskID r = ''''
          \<and> known_job_state (job_state_of (tr_NewState r))
          \<and> (if tr_PreviousState r = '''' then job_state_of (tr_NewState r) = JobStateSubmitted
             else known_job_state (job_state_of (tr_PreviousState r)))
        \<or> tr_EntityType r = TransitionEntityTask \<and> tr_TaskID r \<noteq> ''''
          \<and> known_task_state (task_state_of (tr_NewState r))
          \<and> (if tr_PreviousState r = '''' then task_state_of (tr_NewState r) = TaskStatePending
             else known_task_state (task_state_of (tr_PreviousState r))))"
proof -
  have "tr_NewState r \<noteq> ''''" if "known_job_state (job_state_of (tr_NewState r))
      \<or> known_task_state (task_state_of (tr_NewState r))"
    using that by (auto simp: job_state_of_def task_state_of_def)
  then show ?thesis
    by (cases "tr_EntityType r")
      (auto simp: Validate_def validate_job_part_def validate_task_part_def)
qed

end
