(* ===== verification/Store_Contract.thy ===== *)
theory Store_Contract
  imports Lifecycle
begin

text \<open>
  What the scheduler relies on in a transition store, stated as two interfaces and proved of
  the stores in their own theories:
  \<^item> \<open>transition_log\<close>: the append-only log (\<^verbatim>\<open>AppendTransition\<close>, \<^verbatim>\<open>ListTransitionsByJob\<close>);
  \<^item> \<open>dispatch_fence\<close>: the compare-and-set claim that guards dispatch
    (\<^verbatim>\<open>ClaimTaskDispatch\<close>).
  The lemmas inside the locales are the clients' view: out-of-order persistence of records
  does not show in the log that replay reads, and of any number of competing claims at most one
  per task and attempt is accepted.
\<close>

definition log_ok :: "string \<Rightarrow> TransitionRecord list \<Rightarrow> bool" where
  "log_ok jobID log \<longleftrightarrow>
     sorted (map tr_SequenceID log) \<and>
     (\<forall>r \<in> set log. tr_JobID r = jobID \<and> Validate r = None)"

text \<open>Appending a sequence of records, stopping at the first error.\<close>

fun append_all ::
    "(TransitionRecord \<Rightarrow> 's \<Rightarrow> 's result) \<Rightarrow> TransitionRecord list \<Rightarrow> 's \<Rightarrow> 's result" where
  "append_all put [] s = Inr s"
| "append_all put (r # rs) s =
     (case put r s of Inl e \<Rightarrow> Inl e | Inr s' \<Rightarrow> append_all put rs s')"

text \<open>A sequence of claims (from any number of schedulers) in the order in which the store
  serializes them: the accepted ones and the final store.\<close>

fun run_claims ::
    "(TaskDispatchClaim \<Rightarrow> 's \<Rightarrow> bool \<times> 's) \<Rightarrow> TaskDispatchClaim list \<Rightarrow> 's
     \<Rightarrow> TaskDispatchClaim list \<times> 's" where
  "run_claims claim [] s = ([], s)"
| "run_claims claim (c # cs) s =
     (let (ok, s') = claim c s; (accepted, s'') = run_claims claim cs s'
      in (if ok then c # accepted else accepted, s''))"

lemma log_ok_Nil [simp, intro!]: "log_ok jobID []"
  by (simp add: log_ok_def)

lemma log_ok_sort_append:
  assumes "log_ok jobID log" "tr_JobID r = jobID" "Validate r = None"
  shows "log_ok jobID (sort_key tr_SequenceID (log @ [r]))"
  using assms by (auto simp: log_ok_def)

text \<open>A record with the highest sequence number goes to the end of the log.\<close>

lemma sort_append_last:
  assumes "sorted (map tr_SequenceID log)" "\<forall>x \<in> set log. tr_SequenceID x \<le> tr_SequenceID r"
  shows "sort_key tr_SequenceID (log @ [r]) = log @ [r]"
  using assms by (intro sort_key_id_if_sorted) (auto simp: sorted_append)

locale transition_log =
  fixes put :: "TransitionRecord \<Rightarrow> 's \<Rightarrow> 's result"
    and log_of :: "'s \<Rightarrow> string \<Rightarrow> TransitionRecord list"
    and invar :: "'s \<Rightarrow> bool"
  assumes append_invalid: "Validate r = Some e \<Longrightarrow> put r s = Inl e"
    and append_fresh:
      "invar s \<Longrightarrow> Validate r = None
       \<Longrightarrow> tr_SequenceID r \<notin> tr_SequenceID ` set (log_of s (tr_JobID r))
       \<Longrightarrow> \<exists>s'. put r s = Inr s'"
    and log_append:
      "invar s \<Longrightarrow> put r s = Inr s'
       \<Longrightarrow> log_of s' jobID =
           (if jobID = tr_JobID r then sort_key tr_SequenceID (log_of s jobID @ [r])
            else log_of s jobID)"
    and log_invar: "invar s \<Longrightarrow> log_ok jobID (log_of s jobID)"
    and append_invar: "invar s \<Longrightarrow> put r s = Inr s' \<Longrightarrow> invar s'"
begin

lemma append_Inr_valid: "put r s = Inr s' \<Longrightarrow> Validate r = None"
  using append_invalid by (cases "Validate r") auto

lemma append_all_invar: "append_all put rs s = Inr s' \<Longrightarrow> invar s \<Longrightarrow> invar s'"
proof (induction rs arbitrary: s)
  case (Cons r rs)
  then obtain s1 where "put r s = Inr s1" "append_all put rs s1 = Inr s'"
    by (auto split: sum.splits)
  with Cons show ?case by (blast intro: append_invar)
qed simp

lemma append_all_mset:
  assumes "append_all put rs s = Inr s'" "invar s"
  shows "mset (log_of s' jobID) =
         mset (log_of s jobID) + mset (filter (\<lambda>r. tr_JobID r = jobID) rs)"
  using assms
proof (induction rs arbitrary: s)
  case (Cons r rs)
  then obtain s1 where s1: "put r s = Inr s1" "append_all put rs s1 = Inr s'"
    by (auto split: sum.splits)
  with Cons.prems have "invar s1" by (blast intro: append_invar)
  with Cons.IH [OF s1(2)] log_append [OF Cons.prems(2) s1(1), of jobID] show ?case
    by simp
qed simp

text \<open>The order in which concurrent writers reach the store does not matter: with distinct
  sequence numbers, the log after any two orders of the same appends is the same.\<close>

lemma append_all_commute:
  assumes "append_all put rs s = Inr s1" "append_all put rs' s = Inr s2"
    and "mset rs' = mset rs" "invar s"
    and "inj_on tr_SequenceID (set (log_of s1 jobID))"
  shows "log_of s2 jobID = log_of s1 jobID"
proof -
  have "mset (log_of s2 jobID) = mset (log_of s1 jobID)"
    using append_all_mset [OF assms(1,4)] append_all_mset [OF assms(2,4)] assms(3)
    by (simp add: mset_filter)
  moreover have "sorted (map tr_SequenceID (log_of s1 jobID))"
    "sorted (map tr_SequenceID (log_of s2 jobID))"
    using log_invar append_all_invar assms(1,2,4) unfolding log_ok_def by blast+
  ultimately have "log_of s2 jobID = sort_key tr_SequenceID (log_of s1 jobID)"
    using assms(5) by (intro sort_key_unique)
  with \<open>sorted (map tr_SequenceID (log_of s1 jobID))\<close> show ?thesis
    by (simp add: sort_key_id_if_sorted)
qed

end

locale dispatch_fence =
  fixes claim :: "TaskDispatchClaim \<Rightarrow> 's \<Rightarrow> bool \<times> 's"
    and task_of :: "'s \<Rightarrow> string \<Rightarrow> DurableTaskRecord option"
  assumes claim_accepted:
      "claim c s = (True, s') \<Longrightarrow>
         (\<exists>t. task_of s' (cl_TaskID c) = Some t \<and> dt_LastAttempt t = cl_Attempt c
              \<and> dt_CurrentState t = TaskStateDispatched)"
    and claim_guard:
      "claim c s = (True, s') \<Longrightarrow> task_of s (cl_TaskID c) = Some t \<Longrightarrow>
         dt_LastAttempt t < cl_Attempt c
         \<and> dt_CurrentState t \<notin> {TaskStateRunning, TaskStateSucceeded}"
    and claim_rejected: "claim c s = (False, s') \<Longrightarrow> s' = s"
    and claim_frame:
      "claim c s = (ok, s') \<Longrightarrow> taskID \<noteq> cl_TaskID c \<Longrightarrow> task_of s' taskID = task_of s taskID"
begin

lemma claim_again_rejected:
  assumes "claim c s = (True, s')" "cl_TaskID c' = cl_TaskID c" "cl_Attempt c' \<le> cl_Attempt c"
  shows "claim c' s' = (False, s')"
proof -
  obtain t where t: "task_of s' (cl_TaskID c) = Some t" "dt_LastAttempt t = cl_Attempt c"
    using claim_accepted [OF assms(1)] by blast
  obtain ok s'' where c': "claim c' s' = (ok, s'')" by fastforce
  have "\<not> ok"
    using claim_guard [of c' s' s'' t] t assms(2,3) c' by (cases ok) auto
  with c' claim_rejected show ?thesis by simp
qed

lemma accepted_above:
  assumes "task_of s taskID = Some t" "run_claims claim cs s = (accepted, s')"
    and "c \<in> set accepted" "cl_TaskID c = taskID"
  shows "dt_LastAttempt t < cl_Attempt c"
  using assms
proof (induction cs arbitrary: s t accepted)
  case (Cons x cs)
  obtain ok s1 where x: "claim x s = (ok, s1)" by fastforce
  obtain acc1 where run: "run_claims claim cs s1 = (acc1, s')"
    "accepted = (if ok then x # acc1 else acc1)"
    using Cons.prems(2) x by (auto split: prod.splits)
  show ?case
  proof (cases "cl_TaskID x = taskID \<and> ok")
    case False
    have "task_of s1 taskID = Some t"
    proof (cases "cl_TaskID x = taskID")
      case True
      with False x have "s1 = s" by (auto intro: claim_rejected)
      with Cons.prems(1) show ?thesis by simp
    next
      case False
      with claim_frame [OF x, of taskID] Cons.prems(1) show ?thesis by simp
    qed
    with False Cons run show ?thesis by (auto split: if_splits)
  next
    case True
    with x claim_accepted [of x s s1] obtain t1
      where t1: "task_of s1 taskID = Some t1" "dt_LastAttempt t1 = cl_Attempt x" by auto
    have above: "dt_LastAttempt t < cl_Attempt x"
      using claim_guard [of x s s1 t] x True Cons.prems(1) by simp
    have "c = x \<or> c \<in> set acc1" using Cons.prems(3) run(2) True by simp
    then show ?thesis
    proof
      assume "c \<in> set acc1"
      from Cons.IH [OF t1(1) run(1) this Cons.prems(4)] t1(2) above show ?thesis by simp
    qed (simp add: above)
  qed
qed simp

lemma accepted_increasing:
  assumes "run_claims claim cs s = (accepted, s')"
  shows "sorted_wrt (<) (map cl_Attempt (filter (\<lambda>c. cl_TaskID c = taskID) accepted))"
  using assms
proof (induction cs arbitrary: s accepted)
  case (Cons x cs)
  obtain ok s1 where x: "claim x s = (ok, s1)" by fastforce
  obtain acc1 where run: "run_claims claim cs s1 = (acc1, s')"
    "accepted = (if ok then x # acc1 else acc1)"
    using Cons.prems x by (auto split: prod.splits)
  have IH: "sorted_wrt (<) (map cl_Attempt (filter (\<lambda>c. cl_TaskID c = taskID) acc1))"
    by (rule Cons.IH [OF run(1)])
  show ?case
  proof (cases "cl_TaskID x = taskID \<and> ok")
    case True
    with x claim_accepted [of x s s1] obtain t1
      where t1: "task_of s1 taskID = Some t1" "dt_LastAttempt t1 = cl_Attempt x" by auto
    have "\<forall>c \<in> set acc1. cl_TaskID c = taskID \<longrightarrow> cl_Attempt x < cl_Attempt c"
      using accepted_above [OF t1(1) run(1)] t1(2) by simp
    with IH run(2) True show ?thesis by auto
  next
    case False
    with IH run(2) show ?thesis by auto
  qed
qed simp

lemma accepted_distinct:
  assumes "run_claims claim cs s = (accepted, s')"
  shows "distinct (map (\<lambda>c. (cl_TaskID c, cl_Attempt c)) accepted)"
  using assms
proof (induction cs arbitrary: s accepted)
  case (Cons x cs)
  obtain ok s1 where x: "claim x s = (ok, s1)" by fastforce
  obtain acc1 where run: "run_claims claim cs s1 = (acc1, s')"
    "accepted = (if ok then x # acc1 else acc1)"
    using Cons.prems x by (auto split: prod.splits)
  have above: "cl_Attempt x < cl_Attempt c"
    if "ok" "c \<in> set acc1" "cl_TaskID c = cl_TaskID x" for c
  proof -
    from that(1) x claim_accepted [of x s s1] obtain t1
      where t1: "task_of s1 (cl_TaskID x) = Some t1" "dt_LastAttempt t1 = cl_Attempt x" by auto
    show ?thesis using accepted_above [OF t1(1) run(1) that(2,3)] t1(2) by simp
  qed
  have "(cl_TaskID x, cl_Attempt x) \<notin> (\<lambda>c. (cl_TaskID c, cl_Attempt c)) ` set acc1" if "ok"
  proof
    assume "(cl_TaskID x, cl_Attempt x) \<in> (\<lambda>c. (cl_TaskID c, cl_Attempt c)) ` set acc1"
    then obtain c where "c \<in> set acc1" "cl_TaskID c = cl_TaskID x" "cl_Attempt c = cl_Attempt x"
      by auto
    with above [OF that] show False by force
  qed
  with Cons.IH [OF run(1)] run(2) show ?case by simp
qed simp

end

end
