(* ===== verification/Memory_Store.thy ===== *)
theory Memory_Store
  imports Store_Contract
begin

text \<open>
  The in-memory transition store, \<^verbatim>\<open>pkg/scheduler/transition_store_memory.go\<close>. The record
  holds the three maps that both \<^verbatim>\<open>InMemoryTransitionStore\<close> and its transaction object
  \<^verbatim>\<open>inMemoryTransitionStoreTx\<close> have. Every method runs under the store's mutex, so each is one
  atomic state transformer; an operation that returns an error (\<^const>\<open>Inl\<close>) leaves the store as
  it was.

  The lemmas give what the interface comment in \<^verbatim>\<open>state_machine.go\<close> asks of a store: the log of
  a job stays sorted by sequence number and only ever grows, the materialized
  \<^verbatim>\<open>LastSequenceID\<close> never falls behind the log, and \<^verbatim>\<open>WithTx\<close> is all or nothing.
\<close>

record mem_store =
  ms_transitions :: "(string, TransitionRecord list) gomap"
  ms_jobs :: "(string, DurableJobRecord) gomap"
  ms_tasks :: "(string, DurableTaskRecord) gomap"

definition NewInMemoryTransitionStore :: mem_store where
  "NewInMemoryTransitionStore = \<lparr>ms_transitions = [], ms_jobs = [], ms_tasks = []\<rparr>"

section \<open>Store methods\<close>

definition mem_AppendTransition :: "TransitionRecord \<Rightarrow> mem_store \<Rightarrow> mem_store result" where
  "mem_AppendTransition r s =
     (case Validate r of
        Some e \<Rightarrow> Inl e
      | None \<Rightarrow>
          (let log = sort_key tr_SequenceID (mget_or [] (ms_transitions s) (tr_JobID r) @ [r]);
               s1 = s\<lparr>ms_transitions := mput (tr_JobID r) log (ms_transitions s)\<rparr>
           in Inr (case mget (ms_jobs s1) (tr_JobID r) of
                     None \<Rightarrow> s1
                   | Some job \<Rightarrow>
                       if dj_LastSequenceID job < tr_SequenceID r
                       then s1\<lparr>ms_jobs := mput (tr_JobID r)
                              (job\<lparr>dj_LastSequenceID := tr_SequenceID r\<rparr>) (ms_jobs s1)\<rparr>
                       else s1)))"

definition mem_UpsertJob :: "DurableJobRecord \<Rightarrow> mem_store \<Rightarrow> mem_store" where
  "mem_UpsertJob job s =
     (let job' = (case mget (ms_jobs s) (dj_JobID job) of
                    None \<Rightarrow> job
                  | Some existing \<Rightarrow>
                      if dj_LastSequenceID job < dj_LastSequenceID existing
                      then job\<lparr>dj_LastSequenceID := dj_LastSequenceID existing\<rparr> else job)
      in s\<lparr>ms_jobs := mput (dj_JobID job') job' (ms_jobs s)\<rparr>)"

definition mem_UpsertTask :: "DurableTaskRecord \<Rightarrow> mem_store \<Rightarrow> mem_store" where
  "mem_UpsertTask task s = s\<lparr>ms_tasks := mput (dt_TaskID task) task (ms_tasks s)\<rparr>"

definition mem_ListUnfinishedJobs :: "mem_store \<Rightarrow> DurableJobRecord list" where
  "mem_ListUnfinishedJobs s =
     sort_key dj_CreatedAt
       (filter (\<lambda>job. \<not> IsTerminalJobState (dj_CurrentState job)) (map snd (ms_jobs s)))"

definition mem_ListTransitionsByJob :: "mem_store \<Rightarrow> string \<Rightarrow> TransitionRecord list" where
  "mem_ListTransitionsByJob s jobID = mget_or [] (ms_transitions s) jobID"

definition mem_ListTasksByJob :: "mem_store \<Rightarrow> string \<Rightarrow> DurableTaskRecord list" where
  "mem_ListTasksByJob s jobID =
     sort_key dt_TaskID (filter (\<lambda>task. dt_JobID task = jobID) (map snd (ms_tasks s)))"

section \<open>Transactions\<close>

text \<open>The clone functions build a new map entry by entry; the copied log is a new slice with the
  same elements.\<close>

definition cloneTransitionMap ::
    "(string, TransitionRecord list) gomap \<Rightarrow> (string, TransitionRecord list) gomap" where
  "cloneTransitionMap m =
     fold (\<lambda>(jobID, records) out. mput jobID (map (\<lambda>r. r) records) out) m []"

definition cloneJobsMap ::
    "(string, DurableJobRecord) gomap \<Rightarrow> (string, DurableJobRecord) gomap" where
  "cloneJobsMap m = fold (\<lambda>(k, v) out. mput k v out) m []"

definition cloneTasksMap ::
    "(string, DurableTaskRecord) gomap \<Rightarrow> (string, DurableTaskRecord) gomap" where
  "cloneTasksMap m = fold (\<lambda>(k, v) out. mput k v out) m []"

definition mem_clone :: "mem_store \<Rightarrow> mem_store" where
  "mem_clone s =
     \<lparr>ms_transitions = cloneTransitionMap (ms_transitions s),
      ms_jobs = cloneJobsMap (ms_jobs s),
      ms_tasks = cloneTasksMap (ms_tasks s)\<rparr>"

text \<open>\<^verbatim>\<open>WithTx\<close>: \<open>ctxErr\<close> is the value of \<^verbatim>\<open>ctx.Err()\<close> on entry, \<open>fn\<close> the callback on the
  transaction object, which works on clones of the maps and returns the transaction object as it
  leaves it. The store takes the transaction's maps over only when \<open>fn\<close> succeeds.\<close>

definition mem_WithTx ::
    "go_error option \<Rightarrow> (mem_store \<Rightarrow> 'tx result) \<Rightarrow> mem_store \<Rightarrow> 'tx result" where
  "mem_WithTx ctxErr fn s =
     (case ctxErr of
        Some e \<Rightarrow> Inl e
      | None \<Rightarrow> (case fn (mem_clone s) of Inl e \<Rightarrow> Inl e | Inr tx \<Rightarrow> Inr tx))"

definition memtx_AppendTransition :: "TransitionRecord \<Rightarrow> mem_store \<Rightarrow> mem_store result" where
  "memtx_AppendTransition r tx =
     (case Validate r of
        Some e \<Rightarrow> Inl e
      | None \<Rightarrow>
          (let log = sort_key tr_SequenceID (mget_or [] (ms_transitions tx) (tr_JobID r) @ [r]);
               tx1 = tx\<lparr>ms_transitions := mput (tr_JobID r) log (ms_transitions tx)\<rparr>
           in Inr (case mget (ms_jobs tx1) (tr_JobID r) of
                     None \<Rightarrow> tx1
                   | Some job \<Rightarrow>
                       if dj_LastSequenceID job < tr_SequenceID r
                       then tx1\<lparr>ms_jobs := mput (tr_JobID r)
                              (job\<lparr>dj_LastSequenceID := tr_SequenceID r\<rparr>) (ms_jobs tx1)\<rparr>
                       else tx1)))"

definition memtx_UpsertJob :: "DurableJobRecord \<Rightarrow> mem_store \<Rightarrow> mem_store" where
  "memtx_UpsertJob job tx =
     (let job' = (case mget (ms_jobs tx) (dj_JobID job) of
                    None \<Rightarrow> job
                  | Some existing \<Rightarrow>
                      if dj_LastSequenceID job < dj_LastSequenceID existing
                      then job\<lparr>dj_LastSequenceID := dj_LastSequenceID existing\<rparr> else job)
      in tx\<lparr>ms_jobs := mput (dj_JobID job') job' (ms_jobs tx)\<rparr>)"

definition memtx_UpsertTask :: "DurableTaskRecord \<Rightarrow> mem_store \<Rightarrow> mem_store" where
  "memtx_UpsertTask task tx = tx\<lparr>ms_tasks := mput (dt_TaskID task) task (ms_tasks tx)\<rparr>"

definition memtx_ClaimTaskDispatch ::
    "TaskDispatchClaim \<Rightarrow> mem_store \<Rightarrow> bool \<times> mem_store" where
  "memtx_ClaimTaskDispatch claim tx =
     (if cl_TaskID claim = '''' then (False, tx)
      else case mget (ms_tasks tx) (cl_TaskID claim) of
             None \<Rightarrow>
               (True, tx\<lparr>ms_tasks := mput (cl_TaskID claim)
                  (zero_task_record
                     \<lparr>dt_TaskID := cl_TaskID claim, dt_JobID := cl_JobID claim,
                      dt_StageID := cl_StageID claim, dt_NodeID := cl_NodeID claim,
                      dt_CurrentState := TaskStateDispatched,
                      dt_LastAttempt := cl_Attempt claim,
                      dt_UpdatedAt := cl_UpdatedAt claim\<rparr>) (ms_tasks tx)\<rparr>)
           | Some existing \<Rightarrow>
               if dt_LastAttempt existing < cl_Attempt claim
                  \<and> dt_CurrentState existing \<noteq> TaskStateRunning
                  \<and> dt_CurrentState existing \<noteq> TaskStateSucceeded
               then (True, tx\<lparr>ms_tasks := mput (cl_TaskID claim)
                  (existing
                     \<lparr>dt_JobID := cl_JobID claim, dt_StageID := cl_StageID claim,
                      dt_NodeID := cl_NodeID claim,
                      dt_CurrentState := TaskStateDispatched,
                      dt_LastAttempt := cl_Attempt claim,
                      dt_UpdatedAt := cl_UpdatedAt claim\<rparr>) (ms_tasks tx)\<rparr>)
               else (False, tx))"

lemmas mem_defs [store_defs] =
  mem_AppendTransition_def mem_UpsertJob_def mem_UpsertTask_def
  memtx_AppendTransition_def memtx_UpsertJob_def memtx_UpsertTask_def
  memtx_ClaimTaskDispatch_def

section \<open>The store invariant\<close>

text \<open>Well-formed maps, each log sorted, filed under its job and free of invalid records, and
  every materialized record filed under its own key.\<close>

definition mem_invar :: "mem_store \<Rightarrow> bool" where
  "mem_invar s \<longleftrightarrow>
     wf_map (ms_transitions s) \<and> wf_map (ms_jobs s) \<and> wf_map (ms_tasks s) \<and>
     (\<forall>jobID log. mget (ms_transitions s) jobID = Some log \<longrightarrow> log_ok jobID log) \<and>
     (\<forall>jobID job. mget (ms_jobs s) jobID = Some job \<longrightarrow> dj_JobID job = jobID) \<and>
     (\<forall>taskID task. mget (ms_tasks s) taskID = Some task \<longrightarrow> dt_TaskID task = taskID)"

text \<open>The materialized \<^verbatim>\<open>LastSequenceID\<close> of a job covers its whole log.\<close>

definition mem_seq_covered :: "string \<Rightarrow> mem_store \<Rightarrow> bool" where
  "mem_seq_covered jobID s \<longleftrightarrow>
     (\<forall>job. mget (ms_jobs s) jobID = Some job \<longrightarrow>
        (\<forall>r \<in> set (mem_ListTransitionsByJob s jobID). tr_SequenceID r \<le> dj_LastSequenceID job))"

section \<open>Cloning and transactions\<close>

lemma fold_mput_fresh:
  assumes "distinct (map fst m)" "set (map fst m) \<inter> set (map fst out) = {}"
  shows "fold (\<lambda>(k, v) out. mput k v out) m out = out @ m"
  using assms
proof (induction m arbitrary: out)
  case (Cons kv m)
  obtain k v where kv: "kv = (k, v)" by (cases kv)
  have "k \<notin> fst ` set out" using Cons.prems(2) kv by auto
  then have "mput k v out = out @ [(k, v)]" by (rule mput_fresh)
  with Cons kv show ?case by auto
qed simp

lemma clone_map_id: "wf_map m \<Longrightarrow> fold (\<lambda>(k, v) out. mput k v out) m [] = m"
  using fold_mput_fresh [of m "[]"] by (simp add: wf_map_def)

lemma mem_clone_id:
  assumes "mem_invar s"
  shows "mem_clone s = s"
  using assms
  by (simp add: mem_clone_def mem_invar_def cloneTransitionMap_def cloneJobsMap_def
      cloneTasksMap_def clone_map_id)

text \<open>The transaction object's methods are the store's.\<close>

lemma memtx_eq_mem:
  "memtx_AppendTransition = mem_AppendTransition"
  "memtx_UpsertJob = mem_UpsertJob"
  "memtx_UpsertTask = mem_UpsertTask"
  by (intro ext; simp add: store_defs)+

lemma mem_WithTx_eq:
  "mem_invar s \<Longrightarrow>
   mem_WithTx ctxErr fn s = (case ctxErr of Some e \<Rightarrow> Inl e | None \<Rightarrow> fn s)"
  by (simp add: mem_WithTx_def mem_clone_id split: option.splits sum.splits)

section \<open>The methods keep the invariant\<close>

lemma mem_invar_New [simp, intro!]: "mem_invar NewInMemoryTransitionStore"
  by (simp add: mem_invar_def NewInMemoryTransitionStore_def)

lemma mem_log_ok: "mem_invar s \<Longrightarrow> log_ok jobID (mem_ListTransitionsByJob s jobID)"
  by (auto simp: mem_invar_def mem_ListTransitionsByJob_def mget_or_def split: option.splits)

lemma mem_AppendTransition_Inr:
  assumes "mem_AppendTransition r s = Inr s'"
  shows "Validate r = None" "ms_tasks s' = ms_tasks s"
    and "ms_transitions s' =
         mput (tr_JobID r)
           (sort_key tr_SequenceID (mem_ListTransitionsByJob s (tr_JobID r) @ [r]))
           (ms_transitions s)"
    and "ms_jobs s' =
         (case mget (ms_jobs s) (tr_JobID r) of
            None \<Rightarrow> ms_jobs s
          | Some job \<Rightarrow>
              if dj_LastSequenceID job < tr_SequenceID r
              then mput (tr_JobID r) (job\<lparr>dj_LastSequenceID := tr_SequenceID r\<rparr>) (ms_jobs s)
              else ms_jobs s)"
  using assms
  by (auto simp: mem_AppendTransition_def mem_ListTransitionsByJob_def Let_def
      split: option.splits if_splits)

lemma mem_AppendTransition_valid:
  "Validate r = None \<Longrightarrow> \<exists>s'. mem_AppendTransition r s = Inr s'"
  by (simp add: mem_AppendTransition_def Let_def)

lemma mem_AppendTransition_log:
  assumes "mem_AppendTransition r s = Inr s'"
  shows "mem_ListTransitionsByJob s' jobID =
         (if jobID = tr_JobID r
          then sort_key tr_SequenceID (mem_ListTransitionsByJob s jobID @ [r])
          else mem_ListTransitionsByJob s jobID)"
  using mem_AppendTransition_Inr(3) [OF assms]
  by (simp add: mem_ListTransitionsByJob_def)

lemma mem_AppendTransition_invar:
  assumes "mem_invar s" "mem_AppendTransition r s = Inr s'"
  shows "mem_invar s'"
proof -
  note eqs = mem_AppendTransition_Inr [OF assms(2)]
  have "log_ok (tr_JobID r)
      (sort_key tr_SequenceID (mem_ListTransitionsByJob s (tr_JobID r) @ [r]))"
    using mem_log_ok [OF assms(1)] eqs(1) by (intro log_ok_sort_append) auto
  with assms(1) show ?thesis
    unfolding mem_invar_def eqs(2-4) by (auto split: option.splits if_splits)
qed

lemma mem_UpsertJob_invar: "mem_invar s \<Longrightarrow> mem_invar (mem_UpsertJob job s)"
  by (auto simp: mem_invar_def mem_UpsertJob_def Let_def split: option.splits if_splits)

lemma mem_UpsertTask_invar: "mem_invar s \<Longrightarrow> mem_invar (mem_UpsertTask task s)"
  by (auto simp: mem_invar_def mem_UpsertTask_def split: if_splits)

lemma mem_Claim_invar:
  "mem_invar s \<Longrightarrow> memtx_ClaimTaskDispatch claim s = (ok, s') \<Longrightarrow> mem_invar s'"
  by (auto simp: mem_invar_def memtx_ClaimTaskDispatch_def zero_task_record_def
      split: option.splits if_splits)

section \<open>Sequence numbers of the materialized view\<close>

lemma mem_AppendTransition_covered:
  assumes "mem_seq_covered jobID s" "mem_AppendTransition r s = Inr s'"
  shows "mem_seq_covered jobID s'"
  using assms(1) mem_AppendTransition_log [OF assms(2)] mem_AppendTransition_Inr(4) [OF assms(2)]
  by (fastforce simp: mem_seq_covered_def split: option.splits if_splits)

lemma mem_UpsertJob_covered:
  assumes "mem_seq_covered jobID s"
    and "dj_JobID job = jobID \<Longrightarrow> mget (ms_jobs s) jobID = None \<Longrightarrow>
      \<forall>r \<in> set (mem_ListTransitionsByJob s jobID). tr_SequenceID r \<le> dj_LastSequenceID job"
  shows "mem_seq_covered jobID (mem_UpsertJob job s)"
  using assms
  by (fastforce simp: mem_seq_covered_def mem_UpsertJob_def mem_ListTransitionsByJob_def Let_def
      split: option.splits if_splits)

section \<open>The interfaces\<close>

interpretation mem_log: transition_log mem_AppendTransition mem_ListTransitionsByJob mem_invar
proof unfold_locales
  show "mem_AppendTransition r s = Inl e" if "Validate r = Some e" for r e s
    using that by (simp add: mem_AppendTransition_def)
qed (auto simp: mem_AppendTransition_log
      intro: mem_AppendTransition_valid mem_log_ok mem_AppendTransition_invar)

interpretation mem_fence: dispatch_fence memtx_ClaimTaskDispatch "\<lambda>s. mget (ms_tasks s)"
  by unfold_locales
    (auto simp: memtx_ClaimTaskDispatch_def zero_task_record_def split: option.splits if_splits)

end
