(* ===== verification/Postgres_Store.thy ===== *)
theory Postgres_Store
  imports Store_Contract
begin

text \<open>
  The PostgreSQL transition store, \<^verbatim>\<open>pkg/scheduler/transition_store_postgres.go\<close>. A table is
  an association list from its primary key to a row, and each method is what its SQL statement
  does to the tables: \<^verbatim>\<open>INSERT\<close>, \<^verbatim>\<open>INSERT ... ON CONFLICT DO UPDATE\<close>, \<^verbatim>\<open>UPDATE\<close> and
  \<^verbatim>\<open>SELECT ... ORDER BY\<close>. The database connection is outside the repository: the parameter
  \<open>F\<close> of a method holds, for every call it makes to the driver, the error the driver reports, if
  any; a failing statement writes nothing. The text of a state column is the Go string itself, so
  rows hold the typed state.

  The lemmas discharge the same two interfaces as the in-memory store, show that the durable
  sequence allocator hands out increasing numbers above everything in the log, and that the
  batched reads used by replay return what the single-job reads return.
\<close>

record pg_store =
  pg_transitions :: "(string \<times> nat, TransitionRecord) gomap"
  pg_jobs :: "(string, DurableJobRecord) gomap"
  pg_tasks :: "(string, DurableTaskRecord) gomap"
  pg_sequences :: "(string, nat) gomap"

definition pg_empty :: pg_store where
  "pg_empty = \<lparr>pg_transitions = [], pg_jobs = [], pg_tasks = [], pg_sequences = []\<rparr>"

definition pg_unique_violation :: go_error where
  "pg_unique_violation =
     ErrNew ''ERROR: duplicate key value violates unique constraint (SQLSTATE 23505)''"

text \<open>A query fails when it is sent, when a row is scanned, or when the iteration ends.\<close>

datatype query_fault = FaultQuery go_error | FaultScan go_error | FaultRows go_error

record pg_faults =
  f_begin :: "go_error option"
  f_commit :: "go_error option"
  f_insert_transition :: "go_error option"
  f_update_job_seq :: "go_error option"
  f_upsert_job :: "go_error option"
  f_upsert_task :: "go_error option"
  f_claim :: "go_error option"
  f_next_seq :: "go_error option"
  f_query :: "query_fault option"

definition no_faults :: pg_faults where
  "no_faults = \<lparr>f_begin = None, f_commit = None, f_insert_transition = None,
     f_update_job_seq = None, f_upsert_job = None, f_upsert_task = None, f_claim = None,
     f_next_seq = None, f_query = None\<rparr>"

lemma no_faults_simps [simp]:
  "f_begin no_faults = None" "f_commit no_faults = None"
  "f_insert_transition no_faults = None" "f_update_job_seq no_faults = None"
  "f_upsert_job no_faults = None" "f_upsert_task no_faults = None" "f_claim no_faults = None"
  "f_next_seq no_faults = None" "f_query no_faults = None"
  by (simp_all add: no_faults_def)

text \<open>The three error messages of a query method.\<close>

definition pg_query ::
    "query_fault option \<Rightarrow> string \<Rightarrow> string \<Rightarrow> string \<Rightarrow> 'a \<Rightarrow> 'a result" where
  "pg_query fault sent scan iter rows =
     (case fault of
        None \<Rightarrow> Inr rows
      | Some (FaultQuery e) \<Rightarrow> Inl (ErrWrap sent e '''')
      | Some (FaultScan e) \<Rightarrow> Inl (ErrWrap scan e '''')
      | Some (FaultRows e) \<Rightarrow> Inl (ErrWrap iter e ''''))"

lemma pg_query_None [simp]: "pg_query None a b c rows = Inr rows"
  by (simp add: pg_query_def)

lemma pg_query_Inr: "pg_query fault a b c rows = Inr x \<longleftrightarrow> fault = None \<and> x = rows"
  by (auto simp: pg_query_def split: option.splits query_fault.splits)

section \<open>Queries\<close>

definition pg_ListUnfinishedJobs ::
    "pg_faults \<Rightarrow> pg_store \<Rightarrow> DurableJobRecord list result" where
  "pg_ListUnfinishedJobs F s =
     pg_query (f_query F) ''list unfinished jobs: '' ''scan unfinished job: ''
       ''iterate unfinished jobs: ''
       (sort_key (\<lambda>j. (dj_CreatedAt j, dj_JobID j))
          (filter (\<lambda>j. dj_CurrentState j \<notin> {JobStateSucceeded, JobStateFailed, JobStateCanceled})
             (map snd (pg_jobs s))))"

text \<open>\<^verbatim>\<open>SELECT ... WHERE job_id = $1 ORDER BY sequence_id ASC\<close>.\<close>

definition pg_log :: "pg_store \<Rightarrow> string \<Rightarrow> TransitionRecord list" where
  "pg_log s jobID =
     sort_key tr_SequenceID (filter (\<lambda>r. tr_JobID r = jobID) (map snd (pg_transitions s)))"

definition pg_ListTransitionsByJob ::
    "pg_faults \<Rightarrow> pg_store \<Rightarrow> string \<Rightarrow> TransitionRecord list result" where
  "pg_ListTransitionsByJob F s jobID =
     pg_query (f_query F) ''list transitions by job: '' ''scan transition: ''
       ''iterate transitions by job: '' (pg_log s jobID)"

text \<open>The batched reads start from an empty slice per requested job and append the rows of one
  ordered query, row by row.\<close>

definition pg_ListTransitionsByJobs ::
    "pg_faults \<Rightarrow> pg_store \<Rightarrow> string list \<Rightarrow> (string, TransitionRecord list) gomap result" where
  "pg_ListTransitionsByJobs F s jobIDs =
     (if jobIDs = [] then Inr []
      else
        (let init = fold (\<lambda>jobID m. mput jobID [] m) jobIDs [];
             rows = sort_key (\<lambda>r. (tr_JobID r, tr_SequenceID r))
               (filter (\<lambda>r. tr_JobID r \<in> set jobIDs) (map snd (pg_transitions s)))
         in pg_query (f_query F) ''list transitions by jobs: '' ''scan transition by jobs: ''
              ''iterate transitions by jobs: ''
              (fold (\<lambda>r m. mput (tr_JobID r) (mget_or [] m (tr_JobID r) @ [r]) m) rows init)))"

definition pg_tasks_of :: "pg_store \<Rightarrow> string \<Rightarrow> DurableTaskRecord list" where
  "pg_tasks_of s jobID =
     sort_key dt_TaskID (filter (\<lambda>t. dt_JobID t = jobID) (map snd (pg_tasks s)))"

definition pg_ListTasksByJob ::
    "pg_faults \<Rightarrow> pg_store \<Rightarrow> string \<Rightarrow> DurableTaskRecord list result" where
  "pg_ListTasksByJob F s jobID =
     pg_query (f_query F) ''list tasks by job: '' ''scan task by job: ''
       ''iterate tasks by job: '' (pg_tasks_of s jobID)"

definition pg_ListTasksByJobs ::
    "pg_faults \<Rightarrow> pg_store \<Rightarrow> string list \<Rightarrow> (string, DurableTaskRecord list) gomap result" where
  "pg_ListTasksByJobs F s jobIDs =
     (if jobIDs = [] then Inr []
      else
        (let init = fold (\<lambda>jobID m. mput jobID [] m) jobIDs [];
             rows = sort_key (\<lambda>t. (dt_JobID t, dt_TaskID t))
               (filter (\<lambda>t. dt_JobID t \<in> set jobIDs) (map snd (pg_tasks s)))
         in pg_query (f_query F) ''list tasks by jobs: '' ''scan task by jobs: ''
              ''iterate tasks by jobs: ''
              (fold (\<lambda>t m. mput (dt_JobID t) (mget_or [] m (dt_JobID t) @ [t]) m) rows init)))"

section \<open>Writes\<close>

text \<open>\<^verbatim>\<open>NextSequenceID\<close>: the first call for a job starts above its materialized record and its
  log, every further call increments the counter row.\<close>

definition pg_NextSequenceID ::
    "pg_faults \<Rightarrow> string \<Rightarrow> pg_store \<Rightarrow> (nat \<times> pg_store) result" where
  "pg_NextSequenceID F jobID s =
     (if jobID = '''' then Inl (ErrNew ''job_id is required'')
      else case f_next_seq F of
             Some e \<Rightarrow> Inl (ErrWrap ''next durable sequence id: '' e '''')
           | None \<Rightarrow>
               (let seq = (case mget (pg_sequences s) jobID of
                     Some n \<Rightarrow> n + 1
                   | None \<Rightarrow>
                       max (case mget (pg_jobs s) jobID of
                              None \<Rightarrow> 0 | Some j \<Rightarrow> dj_LastSequenceID j)
                           (foldr max (map tr_SequenceID (pg_log s jobID)) 0) + 1)
                in Inr (seq, s\<lparr>pg_sequences := mput jobID seq (pg_sequences s)\<rparr>)))"

text \<open>The two statements of \<^verbatim>\<open>AppendTransition\<close>: the insert into the log, whose primary key is
  \<^verbatim>\<open>(job_id, sequence_id)\<close>, and the update of the materialized job row, if there is one.\<close>

definition pg_insert_transition ::
    "pg_faults \<Rightarrow> TransitionRecord \<Rightarrow> pg_store \<Rightarrow> pg_store result" where
  "pg_insert_transition F r s =
     (case f_insert_transition F of
        Some e \<Rightarrow> Inl (ErrWrap ''append transition: '' e '''')
      | None \<Rightarrow>
          if mget (pg_transitions s) (tr_JobID r, tr_SequenceID r) \<noteq> None
          then Inl (ErrWrap ''append transition: '' pg_unique_violation '''')
          else Inr (s\<lparr>pg_transitions :=
                 mput (tr_JobID r, tr_SequenceID r) r (pg_transitions s)\<rparr>))"

definition pg_update_job_seq ::
    "pg_faults \<Rightarrow> TransitionRecord \<Rightarrow> pg_store \<Rightarrow> pg_store result" where
  "pg_update_job_seq F r s =
     (case f_update_job_seq F of
        Some e \<Rightarrow> Inl (ErrWrap ''update job last_sequence_id: '' e '''')
      | None \<Rightarrow>
          Inr (case mget (pg_jobs s) (tr_JobID r) of
                 None \<Rightarrow> s
               | Some job \<Rightarrow>
                   s\<lparr>pg_jobs := mput (tr_JobID r)
                       (job\<lparr>dj_LastSequenceID :=
                          max (dj_LastSequenceID job) (tr_SequenceID r)\<rparr>) (pg_jobs s)\<rparr>))"

definition pgtx_AppendTransition ::
    "pg_faults \<Rightarrow> TransitionRecord \<Rightarrow> pg_store \<Rightarrow> pg_store result" where
  "pgtx_AppendTransition F r s =
     (case Validate r of
        Some e \<Rightarrow> Inl e
      | None \<Rightarrow>
          (case pg_insert_transition F r s of
             Inl e \<Rightarrow> Inl e
           | Inr s1 \<Rightarrow> pg_update_job_seq F r s1))"

text \<open>The conflict clause of \<^verbatim>\<open>UpsertJob\<close> does not assign \<^verbatim>\<open>created_at\<close>.\<close>

definition pgtx_UpsertJob :: "pg_faults \<Rightarrow> DurableJobRecord \<Rightarrow> pg_store \<Rightarrow> pg_store result" where
  "pgtx_UpsertJob F job s =
     (case f_upsert_job F of
        Some e \<Rightarrow> Inl (ErrWrap ''upsert job: '' e '''')
      | None \<Rightarrow>
          (let row = (case mget (pg_jobs s) (dj_JobID job) of
                   None \<Rightarrow> job
                 | Some old \<Rightarrow>
                     old\<lparr>dj_Name := dj_Name job, dj_CurrentState := dj_CurrentState job,
                         dj_LastSequenceID :=
                           max (dj_LastSequenceID old) (dj_LastSequenceID job),
                         dj_UpdatedAt := dj_UpdatedAt job\<rparr>)
           in Inr (s\<lparr>pg_jobs := mput (dj_JobID job) row (pg_jobs s)\<rparr>)))"

definition pgtx_UpsertTask :: "pg_faults \<Rightarrow> DurableTaskRecord \<Rightarrow> pg_store \<Rightarrow> pg_store result" where
  "pgtx_UpsertTask F task s =
     (case f_upsert_task F of
        Some e \<Rightarrow> Inl (ErrWrap ''upsert task: '' e '''')
      | None \<Rightarrow> Inr (s\<lparr>pg_tasks := mput (dt_TaskID task) task (pg_tasks s)\<rparr>))"

text \<open>\<^verbatim>\<open>ClaimTaskDispatch\<close>: the conditional upsert; the claim is granted when a row was
  affected. The columns the insert does not name take their defaults.\<close>

definition pg_claim_rows :: "TaskDispatchClaim \<Rightarrow> pg_store \<Rightarrow> bool \<times> pg_store" where
  "pg_claim_rows claim s =
     (case mget (pg_tasks s) (cl_TaskID claim) of
        None \<Rightarrow>
          (True, s\<lparr>pg_tasks := mput (cl_TaskID claim)
             (zero_task_record
                \<lparr>dt_TaskID := cl_TaskID claim, dt_JobID := cl_JobID claim,
                 dt_StageID := cl_StageID claim, dt_NodeID := cl_NodeID claim,
                 dt_CurrentState := TaskStateDispatched,
                 dt_LastAttempt := cl_Attempt claim,
                 dt_UpdatedAt := cl_UpdatedAt claim\<rparr>) (pg_tasks s)\<rparr>)
      | Some row \<Rightarrow>
          if dt_LastAttempt row < cl_Attempt claim
             \<and> dt_CurrentState row \<notin> {TaskStateRunning, TaskStateSucceeded}
          then (True, s\<lparr>pg_tasks := mput (cl_TaskID claim)
             (row\<lparr>dt_JobID := cl_JobID claim, dt_StageID := cl_StageID claim,
                  dt_NodeID := cl_NodeID claim, dt_CurrentState := TaskStateDispatched,
                  dt_LastAttempt := cl_Attempt claim,
                  dt_UpdatedAt := cl_UpdatedAt claim\<rparr>) (pg_tasks s)\<rparr>)
          else (False, s))"

definition pgtx_ClaimTaskDispatch ::
    "pg_faults \<Rightarrow> TaskDispatchClaim \<Rightarrow> pg_store \<Rightarrow> (bool \<times> pg_store) result" where
  "pgtx_ClaimTaskDispatch F claim s =
     (case f_claim F of
        Some e \<Rightarrow> Inl (ErrWrap ''claim task dispatch: '' e '''')
      | None \<Rightarrow> Inr (pg_claim_rows claim s))"

text \<open>\<^verbatim>\<open>WithTx\<close>: a failing begin, callback or commit leaves the tables as they were.\<close>

definition pg_WithTx ::
    "pg_faults \<Rightarrow> (pg_store \<Rightarrow> 'tx result) \<Rightarrow> pg_store \<Rightarrow> 'tx result" where
  "pg_WithTx F fn s =
     (case f_begin F of
        Some e \<Rightarrow> Inl (ErrWrap ''begin transition transaction: '' e '''')
      | None \<Rightarrow>
          (case fn s of
             Inl e \<Rightarrow> Inl e
           | Inr s' \<Rightarrow>
               (case f_commit F of
                  Some e \<Rightarrow> Inl (ErrWrap ''commit transition transaction: '' e '''')
                | None \<Rightarrow> Inr s')))"

text \<open>The store's own write methods run the same statements on the pool, each in a transaction of
  its own: when the second statement of \<^verbatim>\<open>AppendTransition\<close> fails, the first one stays.\<close>

definition pg_AppendTransition ::
    "pg_faults \<Rightarrow> TransitionRecord \<Rightarrow> pg_store \<Rightarrow> go_error option \<times> pg_store" where
  "pg_AppendTransition F r s =
     (case Validate r of
        Some e \<Rightarrow> (Some e, s)
      | None \<Rightarrow>
          (case pg_insert_transition F r s of
             Inl e \<Rightarrow> (Some e, s)
           | Inr s1 \<Rightarrow>
               (case pg_update_job_seq F r s1 of
                  Inl e \<Rightarrow> (Some e, s1)
                | Inr s2 \<Rightarrow> (None, s2))))"

definition pg_UpsertJob :: "pg_faults \<Rightarrow> DurableJobRecord \<Rightarrow> pg_store \<Rightarrow> pg_store result" where
  "pg_UpsertJob F job s = pgtx_UpsertJob F job s"

definition pg_UpsertTask :: "pg_faults \<Rightarrow> DurableTaskRecord \<Rightarrow> pg_store \<Rightarrow> pg_store result" where
  "pg_UpsertTask F task s = pgtx_UpsertTask F task s"

lemmas pg_defs [store_defs] =
  pgtx_AppendTransition_def pg_insert_transition_def pg_update_job_seq_def
  pgtx_UpsertJob_def pgtx_UpsertTask_def pgtx_ClaimTaskDispatch_def pg_claim_rows_def

section \<open>The store invariant\<close>

definition pg_invar :: "pg_store \<Rightarrow> bool" where
  "pg_invar s \<longleftrightarrow>
     wf_map (pg_transitions s) \<and> wf_map (pg_jobs s) \<and> wf_map (pg_tasks s) \<and>
     (\<forall>k r. mget (pg_transitions s) k = Some r \<longrightarrow>
        k = (tr_JobID r, tr_SequenceID r) \<and> Validate r = None) \<and>
     (\<forall>jobID job. mget (pg_jobs s) jobID = Some job \<longrightarrow> dj_JobID job = jobID) \<and>
     (\<forall>taskID task. mget (pg_tasks s) taskID = Some task \<longrightarrow> dt_TaskID task = taskID)"

lemma pg_invar_empty [simp, intro!]: "pg_invar pg_empty"
  by (simp add: pg_invar_def pg_empty_def)

lemma pg_row_keys:
  assumes "pg_invar s"
  shows "\<forall>kr \<in> set (pg_transitions s). fst kr = (tr_JobID (snd kr), tr_SequenceID (snd kr))
           \<and> Validate (snd kr) = None"
  using assms wf_map_mget_iff [of "pg_transitions s"]
  by (auto simp: pg_invar_def)

lemma pg_log_job: "r \<in> set (pg_log s jobID) \<Longrightarrow> tr_JobID r = jobID"
  by (simp add: pg_log_def)

lemma pg_mem_log:
  assumes "pg_invar s" "r \<in> set (pg_log s jobID)"
  shows "mget (pg_transitions s) (jobID, tr_SequenceID r) = Some r" "Validate r = None"
proof -
  from assms(2) obtain k where k: "(k, r) \<in> set (pg_transitions s)" "tr_JobID r = jobID"
    by (auto simp: pg_log_def)
  have wf: "wf_map (pg_transitions s)" using assms(1) by (simp add: pg_invar_def)
  have key: "k = (jobID, tr_SequenceID r)" "Validate r = None"
    using bspec [OF pg_row_keys [OF assms(1)] k(1)] k(2) by simp_all
  then show "Validate r = None" by simp
  show "mget (pg_transitions s) (jobID, tr_SequenceID r) = Some r"
    using k(1) key(1) by (simp only: wf_map_mget_iff [OF wf])
qed

lemma pg_log_ok:
  assumes "pg_invar s"
  shows "log_ok jobID (pg_log s jobID)"
proof -
  have "Validate r = None \<and> tr_JobID r = jobID" if "r \<in> set (pg_log s jobID)" for r
    using pg_mem_log(2) [OF assms that] pg_log_job [OF that] by simp
  moreover have "sorted (map tr_SequenceID (pg_log s jobID))" by (simp add: pg_log_def)
  ultimately show ?thesis by (simp add: log_ok_def)
qed

lemma pg_log_inj:
  assumes "pg_invar s"
  shows "inj_on tr_SequenceID (set (pg_log s jobID))"
proof (rule inj_onI)
  fix x y assume "x \<in> set (pg_log s jobID)" "y \<in> set (pg_log s jobID)"
    and "tr_SequenceID x = tr_SequenceID y"
  with pg_mem_log(1) [OF assms] show "x = y" by (metis option.inject)
qed

section \<open>Writes keep the invariant\<close>

lemma pg_AppendTransition_Inr:
  assumes "pgtx_AppendTransition F r s = Inr s'"
  shows "Validate r = None"
    and "mget (pg_transitions s) (tr_JobID r, tr_SequenceID r) = None"
    and "pg_transitions s' = mput (tr_JobID r, tr_SequenceID r) r (pg_transitions s)"
    and "pg_tasks s' = pg_tasks s" "pg_sequences s' = pg_sequences s"
    and "pg_jobs s' =
         (case mget (pg_jobs s) (tr_JobID r) of
            None \<Rightarrow> pg_jobs s
          | Some job \<Rightarrow>
              mput (tr_JobID r)
                (job\<lparr>dj_LastSequenceID := max (dj_LastSequenceID job) (tr_SequenceID r)\<rparr>)
                (pg_jobs s))"
  using assms
  by (auto simp: pgtx_AppendTransition_def pg_insert_transition_def pg_update_job_seq_def
      split: option.splits if_splits sum.splits)

lemma pg_AppendTransition_log:
  assumes "pgtx_AppendTransition F r s = Inr s'"
  shows "pg_log s' jobID =
         (if jobID = tr_JobID r then sort_key tr_SequenceID (pg_log s jobID @ [r])
          else pg_log s jobID)"
proof -
  have "pg_transitions s' = pg_transitions s @ [((tr_JobID r, tr_SequenceID r), r)]"
    using pg_AppendTransition_Inr(2,3) [OF assms] by (simp add: mput_fresh map_of_eq_None_iff)
  then show ?thesis by (simp add: pg_log_def sort_key_append_sort)
qed

lemma pg_AppendTransition_invar:
  assumes "pg_invar s" "pgtx_AppendTransition F r s = Inr s'"
  shows "pg_invar s'"
  using assms(1) pg_AppendTransition_Inr(1,3,4,6) [OF assms(2)]
  unfolding pg_invar_def by (auto split: option.splits if_splits)

lemma pg_UpsertJob_invar: "pg_invar s \<Longrightarrow> pgtx_UpsertJob F job s = Inr s' \<Longrightarrow> pg_invar s'"
  by (auto simp: pg_invar_def pgtx_UpsertJob_def Let_def split: option.splits if_splits)

lemma pg_UpsertTask_invar: "pg_invar s \<Longrightarrow> pgtx_UpsertTask F task s = Inr s' \<Longrightarrow> pg_invar s'"
  by (auto simp: pg_invar_def pgtx_UpsertTask_def split: option.splits if_splits)

lemma pg_Claim_invar: "pg_invar s \<Longrightarrow> pg_claim_rows claim s = (ok, s') \<Longrightarrow> pg_invar s'"
  by (auto simp: pg_invar_def pg_claim_rows_def zero_task_record_def
      split: option.splits if_splits)

lemma pg_NextSequenceID_invar:
  "pg_invar s \<Longrightarrow> pg_NextSequenceID F jobID s = Inr (n, s') \<Longrightarrow> pg_invar s'"
  by (auto simp: pg_invar_def pg_NextSequenceID_def Let_def split: option.splits if_splits)

section \<open>The interfaces\<close>

interpretation pg_logs: transition_log "pgtx_AppendTransition no_faults" pg_log pg_invar
proof unfold_locales
  show "pgtx_AppendTransition no_faults r s = Inl e" if "Validate r = Some e" for r e s
    using that by (simp add: pgtx_AppendTransition_def)
  show "\<exists>s'. pgtx_AppendTransition no_faults r s = Inr s'"
    if "pg_invar s" "Validate r = None"
      "tr_SequenceID r \<notin> tr_SequenceID ` set (pg_log s (tr_JobID r))" for r s
  proof -
    have "mget (pg_transitions s) (tr_JobID r, tr_SequenceID r) = None"
    proof (rule ccontr)
      assume "mget (pg_transitions s) (tr_JobID r, tr_SequenceID r) \<noteq> None"
      then obtain x where x: "((tr_JobID r, tr_SequenceID r), x) \<in> set (pg_transitions s)"
        by (auto dest: map_of_SomeD)
      then have "tr_JobID x = tr_JobID r" "tr_SequenceID x = tr_SequenceID r"
        using bspec [OF pg_row_keys [OF that(1)] x] by simp_all
      with x that(3) show False
        by (auto simp: pg_log_def image_iff) (metis snd_conv)
    qed
    with that(2) show ?thesis
      by (simp add: pgtx_AppendTransition_def pg_insert_transition_def pg_update_job_seq_def)
  qed
  show "pg_log s' jobID =
      (if jobID = tr_JobID r then sort_key tr_SequenceID (pg_log s jobID @ [r])
       else pg_log s jobID)"
    if "pgtx_AppendTransition no_faults r s = Inr s'" for r s s' jobID
    using pg_AppendTransition_log [OF that] .
  show "log_ok jobID (pg_log s jobID)" if "pg_invar s" for s jobID
    by (rule pg_log_ok [OF that])
  show "pg_invar s'" if "pg_invar s" "pgtx_AppendTransition no_faults r s = Inr s'" for r s s'
    using that by (rule pg_AppendTransition_invar)
qed

interpretation pg_fence: dispatch_fence pg_claim_rows "\<lambda>s. mget (pg_tasks s)"
  by unfold_locales
    (auto simp: pg_claim_rows_def zero_task_record_def split: option.splits if_splits)

section \<open>Sequence allocation\<close>

text \<open>The counter row of a job, once there, covers its log.\<close>

definition pg_seq_covered :: "string \<Rightarrow> pg_store \<Rightarrow> bool" where
  "pg_seq_covered jobID s \<longleftrightarrow>
     (\<forall>n. mget (pg_sequences s) jobID = Some n \<longrightarrow>
        (\<forall>r \<in> set (pg_log s jobID). tr_SequenceID r \<le> n))"

lemma pg_NextSequenceID_fresh:
  assumes "pg_NextSequenceID F jobID s = Inr (n, s')" "pg_seq_covered jobID s"
  shows "\<forall>r \<in> set (pg_log s jobID). tr_SequenceID r < n"
    and "mget (pg_sequences s') jobID = Some n" "pg_seq_covered jobID s'"
    and "pg_transitions s' = pg_transitions s" "pg_jobs s' = pg_jobs s" "pg_tasks s' = pg_tasks s"
proof -
  have seq: "n = (case mget (pg_sequences s) jobID of
       Some k \<Rightarrow> k + 1
     | None \<Rightarrow> max (case mget (pg_jobs s) jobID of None \<Rightarrow> 0 | Some j \<Rightarrow> dj_LastSequenceID j)
             (foldr max (map tr_SequenceID (pg_log s jobID)) 0) + 1)"
    and s': "s' = s\<lparr>pg_sequences := mput jobID n (pg_sequences s)\<rparr>"
    using assms(1) by (auto simp: pg_NextSequenceID_def Let_def split: if_splits option.splits)
  show fresh: "\<forall>r \<in> set (pg_log s jobID). tr_SequenceID r < n"
  proof
    fix r assume r: "r \<in> set (pg_log s jobID)"
    show "tr_SequenceID r < n"
    proof (cases "mget (pg_sequences s) jobID")
      case None
      have "tr_SequenceID r \<le> foldr max (map tr_SequenceID (pg_log s jobID)) 0"
        using r by (intro foldr_max_ge) simp
      with None seq show ?thesis by simp
    next
      case (Some k)
      with assms(2) r seq show ?thesis by (fastforce simp: pg_seq_covered_def)
    qed
  qed
  have log: "pg_log s' jobID = pg_log s jobID" by (simp add: s' pg_log_def)
  show "mget (pg_sequences s') jobID = Some n" by (simp add: s')
  with fresh log show "pg_seq_covered jobID s'" by (auto simp: pg_seq_covered_def intro: less_imp_le)
  show "pg_transitions s' = pg_transitions s" "pg_jobs s' = pg_jobs s" "pg_tasks s' = pg_tasks s"
    by (simp_all add: s')
qed

section \<open>Batched reads\<close>

lemma pg_batch_transitions:
  assumes "pg_ListTransitionsByJobs F s jobIDs = Inr m" "jobID \<in> set jobIDs"
  shows "mget m jobID = Some (pg_log s jobID)"
proof -
  define rows where "rows = sort_key (\<lambda>r. (tr_JobID r, tr_SequenceID r))
      (filter (\<lambda>r. tr_JobID r \<in> set jobIDs) (map snd (pg_transitions s)))"
  have m: "m = fold (\<lambda>r m. mput (tr_JobID r) (mget_or [] m (tr_JobID r) @ [r]) m) rows
      (fold (\<lambda>jobID m. mput jobID [] m) jobIDs [])"
    using assms by (auto simp: pg_ListTransitionsByJobs_def rows_def Let_def
        pg_query_Inr split: if_splits)
  have "filter (\<lambda>r. tr_JobID r = jobID) rows =
      sort_key (\<lambda>r. (tr_JobID r, tr_SequenceID r))
        (filter (\<lambda>r. tr_JobID r = jobID) (map snd (pg_transitions s)))"
    using assms(2) by (auto simp: rows_def filter_sort intro!: arg_cong [where f = "sort_key _"]
        filter_cong)
  also have "\<dots> = pg_log s jobID"
    by (simp add: pg_log_def sort_key_pair [where c = jobID])
  finally show ?thesis
    by (simp add: m fold_group_rows_init [OF assms(2)])
qed

lemma pg_batch_tasks:
  assumes "pg_ListTasksByJobs F s jobIDs = Inr m" "jobID \<in> set jobIDs"
  shows "mget m jobID = Some (pg_tasks_of s jobID)"
proof -
  define rows where "rows = sort_key (\<lambda>t. (dt_JobID t, dt_TaskID t))
      (filter (\<lambda>t. dt_JobID t \<in> set jobIDs) (map snd (pg_tasks s)))"
  have m: "m = fold (\<lambda>t m. mput (dt_JobID t) (mget_or [] m (dt_JobID t) @ [t]) m) rows
      (fold (\<lambda>jobID m. mput jobID [] m) jobIDs [])"
    using assms by (auto simp: pg_ListTasksByJobs_def rows_def Let_def
        pg_query_Inr split: if_splits)
  have "filter (\<lambda>t. dt_JobID t = jobID) rows =
      sort_key (\<lambda>t. (dt_JobID t, dt_TaskID t))
        (filter (\<lambda>t. dt_JobID t = jobID) (map snd (pg_tasks s)))"
    using assms(2) by (auto simp: rows_def filter_sort intro!: arg_cong [where f = "sort_key _"]
        filter_cong)
  also have "\<dots> = pg_tasks_of s jobID"
    by (simp add: pg_tasks_of_def sort_key_pair [where c = jobID])
  finally show ?thesis
    by (simp add: m fold_group_rows_init [OF assms(2)])
qed

section \<open>Properties\<close>

lemma pg_append_allocated:
  assumes "pg_invar s" "\<forall>x \<in> set (pg_log s (tr_JobID r)). tr_SequenceID x < tr_SequenceID r"
    and "Validate r = None"
  shows "\<exists>s'. pgtx_AppendTransition no_faults r s = Inr s'
           \<and> pg_log s' (tr_JobID r) = pg_log s (tr_JobID r) @ [r]"
proof -
  have "tr_SequenceID r \<notin> tr_SequenceID ` set (pg_log s (tr_JobID r))" using assms(2) by auto
  then obtain s' where s': "pgtx_AppendTransition no_faults r s = Inr s'"
    using pg_logs.append_fresh [OF assms(1,3)] by blast
  moreover have "sort_key tr_SequenceID (pg_log s (tr_JobID r) @ [r]) = pg_log s (tr_JobID r) @ [r]"
    using assms(2) by (intro sort_append_last) (auto simp: pg_log_def intro: less_imp_le)
  ultimately show ?thesis by (simp add: pg_AppendTransition_log)
qed

text \<open>C22. A sequence number allocated by the durable counter is above every number in the job's
  log, so a valid record that carries it is accepted by the primary key and lands at the end of
  the log; and the counter keeps covering the log, so the next allocation is above this one.\<close>

theorem pg_allocate_then_append:
  assumes "pg_invar s" "pg_seq_covered (tr_JobID r) s"
    and "pg_NextSequenceID F (tr_JobID r) s = Inr (tr_SequenceID r, s1)" "Validate r = None"
  shows "\<exists>s2. pgtx_AppendTransition no_faults r s1 = Inr s2
           \<and> pg_log s2 (tr_JobID r) = pg_log s (tr_JobID r) @ [r]
           \<and> pg_invar s2 \<and> pg_seq_covered (tr_JobID r) s2
           \<and> (\<forall>F' n s3. pg_NextSequenceID F' (tr_JobID r) s2 = Inr (n, s3) \<longrightarrow> tr_SequenceID r < n)"
proof -
  note alloc = pg_NextSequenceID_fresh [OF assms(3,2)]
  have log: "pg_log s1 (tr_JobID r) = pg_log s (tr_JobID r)"
    by (simp add: pg_log_def alloc(4))
  have inv: "pg_invar s1" using assms(1,3) by (rule pg_NextSequenceID_invar)
  obtain s2 where s2: "pgtx_AppendTransition no_faults r s1 = Inr s2"
    "pg_log s2 (tr_JobID r) = pg_log s (tr_JobID r) @ [r]"
    using pg_append_allocated [OF inv _ assms(4)] alloc(1) log by auto
  have seq: "mget (pg_sequences s2) (tr_JobID r) = Some (tr_SequenceID r)"
    using pg_AppendTransition_Inr(5) [OF s2(1)] alloc(2) by simp
  have cov: "pg_seq_covered (tr_JobID r) s2"
    using alloc(1) by (auto simp: pg_seq_covered_def s2(2) seq intro: less_imp_le)
  have "tr_SequenceID r < n" if "pg_NextSequenceID F' (tr_JobID r) s2 = Inr (n, s3)" for F' n s3
    using pg_NextSequenceID_fresh(1) [OF that cov] s2(2) by simp
  with s2 cov pg_AppendTransition_invar [OF inv s2(1)] show ?thesis by blast
qed

definition example_pg_record :: TransitionRecord where
  "example_pg_record =
     \<lparr>tr_SequenceID = 1, tr_EntityType = TransitionEntityJob, tr_Transition = TransitionJobSubmitted,
      tr_JobID = ''j1'', tr_TaskID = '''', tr_PreviousState = '''', tr_NewState = ''SUBMITTED'',
      tr_NodeID = '''', tr_Attempt = 0, tr_ErrorSummary = '''', tr_OccurredAt = 100\<rparr>"

theorem pg_allocate_then_append_witness:
  "\<exists>s2. pgtx_AppendTransition no_faults example_pg_record
          (pg_empty\<lparr>pg_sequences := [(''j1'', 1)]\<rparr>) = Inr s2
        \<and> pg_log s2 ''j1'' = [example_pg_record]"
proof -
  have r: "tr_JobID example_pg_record = ''j1''" "tr_SequenceID example_pg_record = 1"
    by (simp_all add: example_pg_record_def)
  have empty: "pg_log pg_empty ''j1'' = []" by (simp add: pg_log_def pg_empty_def)
  have cov: "pg_seq_covered (tr_JobID example_pg_record) pg_empty"
    by (simp add: pg_seq_covered_def pg_empty_def)
  have alloc: "pg_NextSequenceID no_faults (tr_JobID example_pg_record) pg_empty =
      Inr (tr_SequenceID example_pg_record, pg_empty\<lparr>pg_sequences := [(''j1'', 1)]\<rparr>)"
    unfolding r by (simp add: pg_NextSequenceID_def pg_empty_def pg_log_def)
  have "Validate example_pg_record = None" by code_simp
  from pg_allocate_then_append [OF pg_invar_empty cov alloc this]
  show ?thesis unfolding r empty by auto
qed

end
