(* ===== verification/Store_Interface.thy ===== *)
theory Store_Interface
  imports Memory_Store Postgres_Store
begin

text \<open>
  The interface values of \<^verbatim>\<open>pkg/scheduler/state_machine.go\<close>: a \<^verbatim>\<open>TransitionStore\<close> holds one of
  the two implementations of the repository, and a method call dispatches on it. The optional
  interfaces the scheduler asks for with a type assertion (\<^verbatim>\<open>SequenceIDStore\<close>,
  \<^verbatim>\<open>ReplayBatchLookupStore\<close>) are the operations that return \<^const>\<open>None\<close> for the in-memory
  store; \<^verbatim>\<open>AtomicTransitionStore\<close> and \<^verbatim>\<open>DurableTaskLookupStore\<close> are implemented by both. The
  transaction object handed to the callback of \<^verbatim>\<open>WithTx\<close> is a value of the same type. \<open>F\<close> holds
  the faults of the database driver, and is of no use to the in-memory store.

  The lemmas describe every write through three views of a store (the log of a job, the
  materialized job, the materialized task), so that the recorders of the scheduler are verified
  once for both implementations.
\<close>

datatype transition_store = MemoryStore mem_store | PostgresStore pg_store

definition in_memory :: "mem_store result \<Rightarrow> transition_store result" where
  "in_memory r = map_sum id MemoryStore r"

definition in_postgres :: "pg_store result \<Rightarrow> transition_store result" where
  "in_postgres r = map_sum id PostgresStore r"

section \<open>Method calls\<close>

fun store_ListUnfinishedJobs ::
    "pg_faults \<Rightarrow> transition_store \<Rightarrow> DurableJobRecord list result" where
  "store_ListUnfinishedJobs F (MemoryStore m) = Inr (mem_ListUnfinishedJobs m)"
| "store_ListUnfinishedJobs F (PostgresStore p) = pg_ListUnfinishedJobs F p"

fun store_ListTransitionsByJob ::
    "pg_faults \<Rightarrow> transition_store \<Rightarrow> string \<Rightarrow> TransitionRecord list result" where
  "store_ListTransitionsByJob F (MemoryStore m) jobID = Inr (mem_ListTransitionsByJob m jobID)"
| "store_ListTransitionsByJob F (PostgresStore p) jobID = pg_ListTransitionsByJob F p jobID"

fun store_ListTasksByJob ::
    "pg_faults \<Rightarrow> transition_store \<Rightarrow> string \<Rightarrow> DurableTaskRecord list result" where
  "store_ListTasksByJob F (MemoryStore m) jobID = Inr (mem_ListTasksByJob m jobID)"
| "store_ListTasksByJob F (PostgresStore p) jobID = pg_ListTasksByJob F p jobID"

text \<open>\<^verbatim>\<open>store.(ReplayBatchLookupStore)\<close>.\<close>

fun store_batch :: "transition_store \<Rightarrow> pg_store option" where
  "store_batch (MemoryStore m) = None"
| "store_batch (PostgresStore p) = Some p"

text \<open>\<^verbatim>\<open>store.(SequenceIDStore)\<close> and the call of \<^verbatim>\<open>NextSequenceID\<close>.\<close>

fun store_NextSequenceID ::
    "pg_faults \<Rightarrow> string \<Rightarrow> transition_store \<Rightarrow> (nat \<times> transition_store) result option" where
  "store_NextSequenceID F jobID (MemoryStore m) = None"
| "store_NextSequenceID F jobID (PostgresStore p) =
     Some (map_sum id (\<lambda>(n, p'). (n, PostgresStore p')) (pg_NextSequenceID F jobID p))"

fun store_WithTx ::
    "go_error option \<Rightarrow> pg_faults \<Rightarrow> (transition_store \<Rightarrow> transition_store result)
     \<Rightarrow> transition_store \<Rightarrow> transition_store result" where
  "store_WithTx ctxErr F fn (MemoryStore m) = mem_WithTx ctxErr (\<lambda>tx. fn (MemoryStore tx)) m"
| "store_WithTx ctxErr F fn (PostgresStore p) = pg_WithTx F (\<lambda>tx. fn (PostgresStore tx)) p"

fun tx_AppendTransition ::
    "pg_faults \<Rightarrow> TransitionRecord \<Rightarrow> transition_store \<Rightarrow> transition_store result" where
  "tx_AppendTransition F r (MemoryStore m) = in_memory (memtx_AppendTransition r m)"
| "tx_AppendTransition F r (PostgresStore p) = in_postgres (pgtx_AppendTransition F r p)"

fun tx_UpsertJob ::
    "pg_faults \<Rightarrow> DurableJobRecord \<Rightarrow> transition_store \<Rightarrow> transition_store result" where
  "tx_UpsertJob F job (MemoryStore m) = Inr (MemoryStore (memtx_UpsertJob job m))"
| "tx_UpsertJob F job (PostgresStore p) = in_postgres (pgtx_UpsertJob F job p)"

fun tx_UpsertTask ::
    "pg_faults \<Rightarrow> DurableTaskRecord \<Rightarrow> transition_store \<Rightarrow> transition_store result" where
  "tx_UpsertTask F task (MemoryStore m) = Inr (MemoryStore (memtx_UpsertTask task m))"
| "tx_UpsertTask F task (PostgresStore p) = in_postgres (pgtx_UpsertTask F task p)"

fun tx_claim_rows :: "TaskDispatchClaim \<Rightarrow> transition_store \<Rightarrow> bool \<times> transition_store" where
  "tx_claim_rows c (MemoryStore m) = map_prod id MemoryStore (memtx_ClaimTaskDispatch c m)"
| "tx_claim_rows c (PostgresStore p) = map_prod id PostgresStore (pg_claim_rows c p)"

fun tx_ClaimTaskDispatch ::
    "pg_faults \<Rightarrow> TaskDispatchClaim \<Rightarrow> transition_store \<Rightarrow> (bool \<times> transition_store) result" where
  "tx_ClaimTaskDispatch F c (MemoryStore m) =
     Inr (map_prod id MemoryStore (memtx_ClaimTaskDispatch c m))"
| "tx_ClaimTaskDispatch F c (PostgresStore p) =
     map_sum id (map_prod id PostgresStore) (pgtx_ClaimTaskDispatch F c p)"

section \<open>Three views of a store\<close>

fun store_log :: "transition_store \<Rightarrow> string \<Rightarrow> TransitionRecord list" where
  "store_log (MemoryStore m) = mem_ListTransitionsByJob m"
| "store_log (PostgresStore p) = pg_log p"

fun store_job :: "transition_store \<Rightarrow> string \<Rightarrow> DurableJobRecord option" where
  "store_job (MemoryStore m) = mget (ms_jobs m)"
| "store_job (PostgresStore p) = mget (pg_jobs p)"

fun store_task :: "transition_store \<Rightarrow> string \<Rightarrow> DurableTaskRecord option" where
  "store_task (MemoryStore m) = mget (ms_tasks m)"
| "store_task (PostgresStore p) = mget (pg_tasks p)"

fun store_invar :: "transition_store \<Rightarrow> bool" where
  "store_invar (MemoryStore m) = mem_invar m"
| "store_invar (PostgresStore p) = pg_invar p"

lemma in_memory_Inr: "in_memory r = Inr s' \<longleftrightarrow> (\<exists>m. r = Inr m \<and> s' = MemoryStore m)"
  by (cases r) (auto simp: in_memory_def)

lemma in_postgres_Inr: "in_postgres r = Inr s' \<longleftrightarrow> (\<exists>p. r = Inr p \<and> s' = PostgresStore p)"
  by (cases r) (auto simp: in_postgres_def)

lemma store_WithTx_Inr:
  assumes "store_WithTx ctxErr F fn s = Inr s'" "store_invar s"
  shows "fn s = Inr s'"
  using assms
  by (cases s) (auto simp: mem_WithTx_eq pg_WithTx_def split: option.splits sum.splits)

lemma store_WithTx_no_faults:
  "store_invar s \<Longrightarrow> store_WithTx None no_faults fn s = fn s"
  by (cases s) (auto simp: mem_WithTx_eq pg_WithTx_def split: sum.splits)

section \<open>The writes through the views\<close>

lemma tx_AppendTransition_Inr:
  assumes "tx_AppendTransition F r s = Inr s'"
  shows "Validate r = None"
    and "store_log s' jobID =
         (if jobID = tr_JobID r then sort_key tr_SequenceID (store_log s jobID @ [r])
          else store_log s jobID)"
    and "store_task s' = store_task s"
    and "store_job s' jobID =
         (if jobID = tr_JobID r
          then map_option
            (\<lambda>j. j\<lparr>dj_LastSequenceID := max (dj_LastSequenceID j) (tr_SequenceID r)\<rparr>)
            (store_job s jobID)
          else store_job s jobID)"
    and "store_invar s \<Longrightarrow> store_invar s'"
proof -
  show "Validate r = None" "store_task s' = store_task s" "store_invar s \<Longrightarrow> store_invar s'"
    using assms
    by (cases s; auto simp: in_memory_Inr in_postgres_Inr memtx_eq_mem
        dest: mem_AppendTransition_Inr pg_AppendTransition_Inr mem_AppendTransition_invar
          pg_AppendTransition_invar)+
  show "store_log s' jobID =
         (if jobID = tr_JobID r then sort_key tr_SequenceID (store_log s jobID @ [r])
          else store_log s jobID)"
    using assms
    by (cases s) (auto simp: in_memory_Inr in_postgres_Inr memtx_eq_mem
        mem_AppendTransition_log pg_AppendTransition_log)
  show "store_job s' jobID =
         (if jobID = tr_JobID r
          then map_option
            (\<lambda>j. j\<lparr>dj_LastSequenceID := max (dj_LastSequenceID j) (tr_SequenceID r)\<rparr>)
            (store_job s jobID)
          else store_job s jobID)"
    using assms
    by (cases s) (auto simp: in_memory_Inr in_postgres_Inr memtx_eq_mem max_def
        mem_AppendTransition_Inr(4) pg_AppendTransition_Inr(6)
        split: option.splits)
qed

lemma tx_UpsertJob_Inr:
  assumes "tx_UpsertJob F job s = Inr s'"
  shows "store_log s' = store_log s" "store_task s' = store_task s"
    and "jobID \<noteq> dj_JobID job \<Longrightarrow> store_job s' jobID = store_job s jobID"
    and "\<exists>j. store_job s' (dj_JobID job) = Some j \<and> dj_CurrentState j = dj_CurrentState job
           \<and> dj_Name j = dj_Name job \<and> dj_UpdatedAt j = dj_UpdatedAt job
           \<and> dj_LastSequenceID j =
               (case store_job s (dj_JobID job) of
                  None \<Rightarrow> dj_LastSequenceID job
                | Some old \<Rightarrow> max (dj_LastSequenceID old) (dj_LastSequenceID job))"
    and "store_invar s \<Longrightarrow> store_invar s'"
proof -
  show "store_log s' = store_log s"
    using assms
    by (cases s) (auto simp: in_postgres_Inr memtx_UpsertJob_def pgtx_UpsertJob_def Let_def
        mem_ListTransitionsByJob_def pg_log_def fun_eq_iff split: option.splits if_splits)
  show "store_task s' = store_task s"
    and "jobID \<noteq> dj_JobID job \<Longrightarrow> store_job s' jobID = store_job s jobID"
    and "\<exists>j. store_job s' (dj_JobID job) = Some j \<and> dj_CurrentState j = dj_CurrentState job
           \<and> dj_Name j = dj_Name job \<and> dj_UpdatedAt j = dj_UpdatedAt job
           \<and> dj_LastSequenceID j =
               (case store_job s (dj_JobID job) of
                  None \<Rightarrow> dj_LastSequenceID job
                | Some old \<Rightarrow> max (dj_LastSequenceID old) (dj_LastSequenceID job))"
    using assms
    by (cases s; auto simp: in_postgres_Inr memtx_UpsertJob_def pgtx_UpsertJob_def Let_def
        max_def split: option.splits if_splits)+
  show "store_invar s \<Longrightarrow> store_invar s'"
    using assms
    by (cases s) (auto simp: in_postgres_Inr memtx_eq_mem mem_UpsertJob_invar
        dest: pg_UpsertJob_invar)
qed

lemma tx_UpsertTask_Inr:
  assumes "tx_UpsertTask F task s = Inr s'"
  shows "store_log s' = store_log s" "store_job s' = store_job s"
    and "store_task s' = (store_task s)(dt_TaskID task \<mapsto> task)"
    and "store_invar s \<Longrightarrow> store_invar s'"
proof -
  show "store_log s' = store_log s" "store_job s' = store_job s"
    "store_task s' = (store_task s)(dt_TaskID task \<mapsto> task)"
    using assms
    by (cases s; auto simp: in_postgres_Inr memtx_UpsertTask_def pgtx_UpsertTask_def
        mem_ListTransitionsByJob_def pg_log_def fun_eq_iff split: option.splits)+
  show "store_invar s \<Longrightarrow> store_invar s'"
    using assms
    by (cases s) (auto simp: in_postgres_Inr memtx_eq_mem mem_UpsertTask_invar
        dest: pg_UpsertTask_invar)
qed

lemma tx_ClaimTaskDispatch_Inr:
  "tx_ClaimTaskDispatch F c s = Inr r \<Longrightarrow> r = tx_claim_rows c s"
  by (cases s) (auto simp: pgtx_ClaimTaskDispatch_def split: option.splits)

lemma tx_claim_rows_log [simp]:
  assumes "tx_claim_rows c s = (ok, s')"
  shows "store_log s' = store_log s" "store_job s' = store_job s"
    and "store_invar s \<Longrightarrow> store_invar s'"
proof -
  show "store_log s' = store_log s" "store_job s' = store_job s"
    using assms
    by (cases s; auto simp: memtx_ClaimTaskDispatch_def pg_claim_rows_def
        mem_ListTransitionsByJob_def pg_log_def fun_eq_iff split: option.splits if_splits)+
  show "store_invar s \<Longrightarrow> store_invar s'"
    using assms
    by (cases s) (auto simp: map_prod_def split: prod.splits dest: mem_Claim_invar pg_Claim_invar)
qed

section \<open>The interfaces on interface values\<close>

lemma store_log_ok: "store_invar s \<Longrightarrow> log_ok jobID (store_log s jobID)"
  by (cases s) (auto intro: mem_log_ok pg_log_ok)

interpretation any_log: transition_log "tx_AppendTransition no_faults" store_log store_invar
proof unfold_locales
  show "tx_AppendTransition no_faults r s = Inl e" if "Validate r = Some e" for r e s
    using that by (cases s) (simp_all add: in_memory_def in_postgres_def memtx_AppendTransition_def
        pgtx_AppendTransition_def)
  show "\<exists>s'. tx_AppendTransition no_faults r s = Inr s'"
    if "store_invar s" "Validate r = None"
      "tr_SequenceID r \<notin> tr_SequenceID ` set (store_log s (tr_JobID r))" for r s
  proof (cases s)
    case (MemoryStore m)
    then show ?thesis
      using mem_AppendTransition_valid [OF that(2), of m] by (auto simp: in_memory_Inr memtx_eq_mem)
  next
    case (PostgresStore p)
    then show ?thesis
      using pg_logs.append_fresh [of p r] that by (auto simp: in_postgres_Inr)
  qed
qed (blast intro: tx_AppendTransition_Inr store_log_ok)+

interpretation any_fence: dispatch_fence tx_claim_rows store_task
proof unfold_locales
  show "\<exists>t. store_task s' (cl_TaskID c) = Some t \<and> dt_LastAttempt t = cl_Attempt c
      \<and> dt_CurrentState t = TaskStateDispatched" if "tx_claim_rows c s = (True, s')" for c s s'
    using that mem_fence.claim_accepted pg_fence.claim_accepted
    by (cases s) (fastforce simp: map_prod_def split: prod.splits)+
  show "dt_LastAttempt t < cl_Attempt c
      \<and> dt_CurrentState t \<notin> {TaskStateRunning, TaskStateSucceeded}"
    if "tx_claim_rows c s = (True, s')" "store_task s (cl_TaskID c) = Some t" for c s s' t
    using that mem_fence.claim_guard pg_fence.claim_guard
    by (cases s) (fastforce simp: map_prod_def split: prod.splits)+
  show "s' = s" if "tx_claim_rows c s = (False, s')" for c s s'
    using that mem_fence.claim_rejected pg_fence.claim_rejected
    by (cases s) (fastforce simp: map_prod_def split: prod.splits)+
  show "store_task s' taskID = store_task s taskID"
    if "tx_claim_rows c s = (ok, s')" "taskID \<noteq> cl_TaskID c" for c s ok s' taskID
    using that mem_fence.claim_frame pg_fence.claim_frame
    by (cases s) (fastforce simp: map_prod_def split: prod.splits)+
qed

section \<open>Properties\<close>

text \<open>C7. Dispatch claims are exclusive: whatever claims any number of schedulers send, in whatever
  order the store serializes them, no (task, attempt) pair is granted twice, and the attempts
  granted for one task increase strictly. Both stores.\<close>

theorem dispatch_claims_exclusive:
  assumes "run_claims tx_claim_rows claims s = (accepted, s')"
  shows "distinct (map (\<lambda>c. (cl_TaskID c, cl_Attempt c)) accepted)
         \<and> sorted_wrt (<) (map cl_Attempt (filter (\<lambda>c. cl_TaskID c = taskID) accepted))"
  using any_fence.accepted_distinct [OF assms] any_fence.accepted_increasing [OF assms] by blast

definition example_claim :: "string \<Rightarrow> int \<Rightarrow> TaskDispatchClaim" where
  "example_claim node attempt =
     \<lparr>cl_TaskID = ''t1'', cl_JobID = ''j1'', cl_StageID = ''s1'', cl_NodeID = node,
      cl_Attempt = attempt, cl_UpdatedAt = 100\<rparr>"

theorem dispatch_claims_exclusive_witness:
  "map cl_NodeID (fst (run_claims tx_claim_rows
     [example_claim ''n1'' 1, example_claim ''n2'' 1, example_claim ''n2'' 2]
     (MemoryStore NewInMemoryTransitionStore))) = [''n1'', ''n2'']
   \<and> distinct (map (\<lambda>c. (cl_TaskID c, cl_Attempt c)) (fst (run_claims tx_claim_rows
     [example_claim ''n1'' 1, example_claim ''n2'' 1, example_claim ''n2'' 2]
     (MemoryStore NewInMemoryTransitionStore))))"
  (is "map _ (fst ?run) = _ \<and> _")
proof -
  have "map cl_NodeID (fst ?run) = [''n1'', ''n2'']" by code_simp
  moreover have "distinct (map (\<lambda>c. (cl_TaskID c, cl_Attempt c)) (fst ?run))"
    using dispatch_claims_exclusive [OF prod.collapse [symmetric]] by blast
  ultimately show ?thesis by blast
qed

text \<open>C18. The log does not depend on the order in which concurrent writers reach the store: two
  orders of the same appends that both succeed leave the same log of a job, as long as its sequence
  numbers are distinct. Both stores.\<close>

theorem appends_commute:
  assumes "append_all (tx_AppendTransition no_faults) rs s = Inr s1"
    and "append_all (tx_AppendTransition no_faults) rs' s = Inr s2"
    and "mset rs' = mset rs" "store_invar s"
    and "inj_on tr_SequenceID (set (store_log s1 jobID))"
  shows "store_log s2 jobID = store_log s1 jobID"
  using assms by (rule any_log.append_all_commute)

definition example_append :: "nat \<Rightarrow> TransitionRecord" where
  "example_append seq =
     \<lparr>tr_SequenceID = seq, tr_EntityType = TransitionEntityJob, tr_Transition = TransitionJobQueued,
      tr_JobID = ''j1'', tr_TaskID = '''', tr_PreviousState = ''SUBMITTED'', tr_NewState = ''QUEUED'',
      tr_NodeID = '''', tr_Attempt = 0, tr_ErrorSummary = '''', tr_OccurredAt = 100\<rparr>"

theorem appends_commute_witness:
  "map tr_SequenceID (store_log (projr (append_all (tx_AppendTransition no_faults)
      [example_append 2, example_append 1] (PostgresStore pg_empty))) ''j1'') = [1, 2]
   \<and> store_log (projr (append_all (tx_AppendTransition no_faults)
      [example_append 2, example_append 1] (PostgresStore pg_empty))) ''j1'' =
     store_log (projr (append_all (tx_AppendTransition no_faults)
      [example_append 1, example_append 2] (PostgresStore pg_empty))) ''j1''"
  (is "map _ (store_log (projr ?a) _) = _ \<and> _ = store_log (projr ?b) _")
proof -
  have seqs: "map tr_SequenceID (store_log (projr ?a) ''j1'') = [1, 2]" by code_simp
  have runs: "?b = Inr (projr ?b)" "?a = Inr (projr ?a)" by code_simp+
  have inj: "inj_on tr_SequenceID (set (store_log (projr ?b) ''j1''))"
    by code_simp
  have "store_log (projr ?a) ''j1'' = store_log (projr ?b) ''j1''"
    by (rule appends_commute [OF runs _ _ inj]) (simp_all add: add.commute)
  with seqs show ?thesis by simp
qed

end
