(* ===== verification/Replay.thy ===== *)
theory Replay
  imports Store_Interface
begin

text \<open>
  Rebuilding the control-plane view of unfinished jobs from the durable log,
  \<^verbatim>\<open>pkg/scheduler/replay.go\<close>. A context is a function from the number of the check to the value
  of \<^verbatim>\<open>ctx.Err()\<close> there; \<open>Q\<close> gives the database faults of the successive store calls.

  The lemmas characterise replay completely: it succeeds exactly on the logs whose records are
  valid, belong to the job and follow the transition tables, and then every rebuilt state is the
  one the last record of the entity names. The batched path returns what the job-by-job path
  returns.
\<close>

record ReplayedJobState =
  rs_Job :: DurableJobRecord
  rs_Tasks :: "(string, DurableTaskRecord) gomap"
  rs_Transitions :: "TransitionRecord list"

section \<open>One job\<close>

text \<open>The payload fields of a durable snapshot; the lifecycle fields stay zero.\<close>

definition replay_seed :: "DurableTaskRecord \<Rightarrow> DurableTaskRecord" where
  "replay_seed task =
     zero_task_record
       \<lparr>dt_TaskID := dt_TaskID task, dt_JobID := dt_JobID task, dt_StageID := dt_StageID task,
        dt_NodeID := dt_NodeID task, dt_AgentID := dt_AgentID task,
        dt_AgentName := dt_AgentName task, dt_InputJSON := dt_InputJSON task,
        dt_PartitionKey := dt_PartitionKey task\<rparr>"

definition replay_init ::
    "string \<Rightarrow> TransitionRecord list \<Rightarrow> DurableTaskRecord list \<Rightarrow> ReplayedJobState" where
  "replay_init jobID transitions durableTasks =
     \<lparr>rs_Job = zero_job_record\<lparr>dj_JobID := jobID\<rparr>,
      rs_Tasks = fold (\<lambda>task m. mput (dt_TaskID task) (replay_seed task) m) durableTasks [],
      rs_Transitions = transitions\<rparr>"

definition replay_job_record ::
    "string \<Rightarrow> TransitionRecord \<Rightarrow> ReplayedJobState \<Rightarrow> ReplayedJobState result" where
  "replay_job_record jobID r st =
     (let newState = job_state_of (tr_NewState r); job = rs_Job st in
      if dj_CurrentState job \<noteq> JobStateUnset
         \<and> \<not> CanTransitionJobState (dj_CurrentState job) newState
      then Inl (ErrNew (''illegal job transition during replay for job '' @ jobID @ '': ''
             @ job_state_string (dj_CurrentState job) @ '' -> '' @ job_state_string newState))
      else Inr (st\<lparr>rs_Job := job
             \<lparr>dj_CurrentState := newState,
              dj_CreatedAt := (if dj_CreatedAt job = 0 then tr_OccurredAt r else dj_CreatedAt job),
              dj_UpdatedAt := tr_OccurredAt r\<rparr>\<rparr>))"

definition replay_task_record ::
    "TransitionRecord \<Rightarrow> ReplayedJobState \<Rightarrow> ReplayedJobState result" where
  "replay_task_record r st =
     (let current = mget_or zero_task_record (rs_Tasks st) (tr_TaskID r);
          newState = task_state_of (tr_NewState r) in
      if dt_CurrentState current \<noteq> TaskStateUnset
         \<and> \<not> CanTransitionTaskState (dt_CurrentState current) newState
      then Inl (ErrNew (''illegal task transition during replay for task '' @ tr_TaskID r
             @ '': '' @ task_state_string (dt_CurrentState current)
             @ '' -> '' @ task_state_string newState))
      else Inr (st\<lparr>rs_Tasks := mput (tr_TaskID r)
             (current
               \<lparr>dt_TaskID := tr_TaskID r, dt_JobID := tr_JobID r, dt_NodeID := tr_NodeID r,
                dt_CurrentState := newState,
                dt_LastAttempt := (if dt_LastAttempt current < tr_Attempt r
                                   then tr_Attempt r else dt_LastAttempt current),
                dt_UpdatedAt := tr_OccurredAt r\<rparr>) (rs_Tasks st)\<rparr>))"

definition replay_record ::
    "string \<Rightarrow> TransitionRecord \<Rightarrow> ReplayedJobState \<Rightarrow> ReplayedJobState result" where
  "replay_record jobID r st =
     (case Validate r of
        Some e \<Rightarrow> Inl (ErrWrap (''invalid transition during replay for job '' @ jobID @ '': '') e '''')
      | None \<Rightarrow>
          if tr_JobID r \<noteq> jobID
          then Inl (ErrNew (''transition references wrong job during replay: expected '' @ jobID
                 @ '', got '' @ tr_JobID r))
          else case tr_EntityType r of
                 TransitionEntityJob \<Rightarrow> replay_job_record jobID r st
               | TransitionEntityTask \<Rightarrow> replay_task_record r st
               | TransitionEntityOther s \<Rightarrow>
                   Inl (ErrNew (''unknown transition entity type '' @ quoted s)))"

text \<open>The loop over the log; \<open>ctx i\<close> is the context's error at the \<open>i\<close>-th iteration.\<close>

fun replay_records ::
    "(nat \<Rightarrow> go_error option) \<Rightarrow> nat \<Rightarrow> string \<Rightarrow> TransitionRecord list
     \<Rightarrow> ReplayedJobState \<Rightarrow> ReplayedJobState result" where
  "replay_records ctx i jobID [] st = Inr st"
| "replay_records ctx i jobID (r # rs) st =
     (case ctx i of
        Some e \<Rightarrow> Inl e
      | None \<Rightarrow>
          (case replay_record jobID r st of
             Inl e \<Rightarrow> Inl e
           | Inr st' \<Rightarrow> replay_records ctx (Suc i) jobID rs st'))"

definition replayJobStateFromData ::
    "(nat \<Rightarrow> go_error option) \<Rightarrow> string \<Rightarrow> TransitionRecord list \<Rightarrow> DurableTaskRecord list
     \<Rightarrow> ReplayedJobState result" where
  "replayJobStateFromData ctx jobID transitions durableTasks =
     replay_records ctx 0 jobID transitions (replay_init jobID transitions durableTasks)"

definition ReplayJobState ::
    "(nat \<Rightarrow> go_error option) \<Rightarrow> pg_faults \<Rightarrow> pg_faults \<Rightarrow> transition_store option \<Rightarrow> string
     \<Rightarrow> ReplayedJobState result" where
  "ReplayJobState ctx F1 F2 store jobID =
     (case store of
        None \<Rightarrow> Inl (ErrNew ''transition store is required'')
      | Some s \<Rightarrow>
          if jobID = '''' then Inl (ErrNew ''job_id is required'')
          else case store_ListTransitionsByJob F1 s jobID of
                 Inl e \<Rightarrow> Inl e
               | Inr transitions \<Rightarrow>
                   (case store_ListTasksByJob F2 s jobID of
                      Inl e \<Rightarrow> Inl (ErrWrap ''list durable tasks by job: '' e '''')
                    | Inr durableTasks \<Rightarrow>
                        replayJobStateFromData ctx jobID transitions durableTasks))"

section \<open>All unfinished jobs\<close>

type_synonym replay_batch =
  "((string, TransitionRecord list) gomap \<times> (string, DurableTaskRecord list) gomap) option"

fun check_batched ::
    "(string, TransitionRecord list) gomap \<Rightarrow> (string, DurableTaskRecord list) gomap
     \<Rightarrow> string list \<Rightarrow> go_error option" where
  "check_batched transitions tasks [] = None"
| "check_batched transitions tasks (jobID # ids) =
     (if mget transitions jobID = None
      then Some (ErrNew (''batched replay transitions missing job '' @ jobID))
      else if mget tasks jobID = None
      then Some (ErrNew (''batched replay tasks missing job '' @ jobID))
      else check_batched transitions tasks ids)"

definition replay_load_batch ::
    "(nat \<Rightarrow> pg_faults) \<Rightarrow> transition_store \<Rightarrow> DurableJobRecord list \<Rightarrow> replay_batch result" where
  "replay_load_batch Q s jobs =
     (case store_batch s of
        None \<Rightarrow> Inr None
      | Some p \<Rightarrow>
          if jobs = [] then Inr None
          else
            (let jobIDs = map dj_JobID jobs in
             case pg_ListTransitionsByJobs (Q 1) p jobIDs of
               Inl e \<Rightarrow> Inl e
             | Inr transitions \<Rightarrow>
                 (case pg_ListTasksByJobs (Q 2) p jobIDs of
                    Inl e \<Rightarrow> Inl e
                  | Inr tasks \<Rightarrow>
                      (case check_batched transitions tasks jobIDs of
                         Some e \<Rightarrow> Inl e
                       | None \<Rightarrow> Inr (Some (transitions, tasks))))))"

text \<open>The fields taken over from the materialized job record.\<close>

definition replay_merge :: "DurableJobRecord \<Rightarrow> ReplayedJobState \<Rightarrow> ReplayedJobState" where
  "replay_merge job st =
     (let j = rs_Job st;
          lastSeq = (if rs_Transitions st \<noteq> []
                        \<and> dj_LastSequenceID job < tr_SequenceID (last (rs_Transitions st))
                     then tr_SequenceID (last (rs_Transitions st)) else dj_LastSequenceID job)
      in st\<lparr>rs_Job := j
            \<lparr>dj_Name := dj_Name job,
             dj_LastSequenceID := lastSeq,
             dj_CreatedAt := (if dj_CreatedAt j = 0 then dj_CreatedAt job else dj_CreatedAt j),
             dj_UpdatedAt := (if dj_UpdatedAt j = 0 then dj_UpdatedAt job else dj_UpdatedAt j)\<rparr>\<rparr>)"

text \<open>The loop over the jobs: job \<open>i\<close> has the context checks \<open>ctx i\<close>, the first before it and one
  for each of its records, and reads the store (when there is no batch) with the faults numbered
  \<open>2 * i + 3\<close> and \<open>2 * i + 4\<close>.\<close>

fun replay_jobs ::
    "(nat \<Rightarrow> nat \<Rightarrow> go_error option) \<Rightarrow> (nat \<Rightarrow> pg_faults) \<Rightarrow> nat \<Rightarrow> transition_store
     \<Rightarrow> replay_batch \<Rightarrow> DurableJobRecord list \<Rightarrow> ReplayedJobState list result" where
  "replay_jobs ctx Q i s batch [] = Inr []"
| "replay_jobs ctx Q i s batch (job # jobs) =
     (case ctx i 0 of
        Some e \<Rightarrow> Inl e
      | None \<Rightarrow>
          (case (case batch of
                   Some (transitions, tasks) \<Rightarrow>
                     replayJobStateFromData (\<lambda>k. ctx i (Suc k)) (dj_JobID job)
                       (mget_or [] transitions (dj_JobID job)) (mget_or [] tasks (dj_JobID job))
                 | None \<Rightarrow>
                     ReplayJobState (\<lambda>k. ctx i (Suc k)) (Q (2 * i + 3)) (Q (2 * i + 4))
                       (Some s) (dj_JobID job)) of
             Inl e \<Rightarrow> Inl (ErrReplayJob (dj_JobID job) e)
           | Inr st \<Rightarrow>
               (case replay_jobs ctx Q (Suc i) s batch jobs of
                  Inl e \<Rightarrow> Inl e
                | Inr sts \<Rightarrow> Inr (replay_merge job st # sts))))"

definition ReplayStateFromStore ::
    "(nat \<Rightarrow> nat \<Rightarrow> go_error option) \<Rightarrow> (nat \<Rightarrow> pg_faults) \<Rightarrow> transition_store option
     \<Rightarrow> ReplayedJobState list result" where
  "ReplayStateFromStore ctx Q store =
     (case store of
        None \<Rightarrow> Inl (ErrNew ''transition store is required'')
      | Some s \<Rightarrow>
          (case store_ListUnfinishedJobs (Q 0) s of
             Inl e \<Rightarrow> Inl e
           | Inr jobs \<Rightarrow>
               (case replay_load_batch Q s jobs of
                  Inl e \<Rightarrow> Inl e
                | Inr batch \<Rightarrow>
                    (case replay_jobs ctx Q 0 s batch jobs of
                       Inl e \<Rightarrow> Inl e
                     | Inr sts \<Rightarrow>
                         Inr (sort_key (\<lambda>st. (dj_CreatedAt (rs_Job st), dj_JobID (rs_Job st)))
                            sts)))))"

section \<open>What a log says\<close>

text \<open>The sequence of states a log gives to its job and to a task.\<close>

definition job_states :: "TransitionRecord list \<Rightarrow> JobLifecycleState list" where
  "job_states log =
     map (\<lambda>r. job_state_of (tr_NewState r))
       (filter (\<lambda>r. tr_EntityType r = TransitionEntityJob) log)"

definition task_records :: "string \<Rightarrow> TransitionRecord list \<Rightarrow> TransitionRecord list" where
  "task_records taskID log =
     filter (\<lambda>r. tr_EntityType r = TransitionEntityTask \<and> tr_TaskID r = taskID) log"

definition task_states :: "string \<Rightarrow> TransitionRecord list \<Rightarrow> TaskLifecycleState list" where
  "task_states taskID log = map (\<lambda>r. task_state_of (tr_NewState r)) (task_records taskID log)"

definition task_attempts :: "string \<Rightarrow> TransitionRecord list \<Rightarrow> int" where
  "task_attempts taskID log = fold max (map tr_Attempt (task_records taskID log)) 0"

definition last_or :: "'a \<Rightarrow> 'a list \<Rightarrow> 'a" where
  "last_or z xs = (if xs = [] then z else last xs)"

definition legal_log :: "string \<Rightarrow> TransitionRecord list \<Rightarrow> bool" where
  "legal_log jobID log \<longleftrightarrow>
     (\<forall>r \<in> set log. Validate r = None \<and> tr_JobID r = jobID) \<and>
     successively CanTransitionJobState (job_states log) \<and>
     (\<forall>taskID \<in> set (map tr_TaskID log).
        successively CanTransitionTaskState (task_states taskID log))"

lemma last_or_simps [simp]: "last_or z [] = z" "last_or z (xs @ [x]) = x"
  by (simp_all add: last_or_def)

lemma successively_snoc:
  "successively R (xs @ [x]) \<longleftrightarrow> successively R xs \<and> (xs = [] \<or> R (last xs) x)"
  by (auto simp: successively_append_iff)

lemma states_snoc:
  "job_states (log @ [r]) =
     (if tr_EntityType r = TransitionEntityJob
      then job_states log @ [job_state_of (tr_NewState r)] else job_states log)"
  "task_states taskID (log @ [r]) =
     (if tr_EntityType r = TransitionEntityTask \<and> tr_TaskID r = taskID
      then task_states taskID log @ [task_state_of (tr_NewState r)] else task_states taskID log)"
  "task_attempts taskID (log @ [r]) =
     (if tr_EntityType r = TransitionEntityTask \<and> tr_TaskID r = taskID
      then max (tr_Attempt r) (task_attempts taskID log) else task_attempts taskID log)"
  by (simp_all add: job_states_def task_states_def task_records_def task_attempts_def)

lemma states_Nil [simp]: "job_states [] = []" "task_states taskID [] = []" "task_attempts taskID [] = 0"
  by (simp_all add: job_states_def task_states_def task_records_def task_attempts_def)

lemma task_states_absent: "taskID \<notin> set (map tr_TaskID log) \<Longrightarrow> task_states taskID log = []"
  by (auto simp: task_states_def task_records_def filter_empty_conv)

lemma legal_log_all_tasks:
  "legal_log jobID log \<longleftrightarrow>
     (\<forall>r \<in> set log. Validate r = None \<and> tr_JobID r = jobID) \<and>
     successively CanTransitionJobState (job_states log) \<and>
     (\<forall>taskID. successively CanTransitionTaskState (task_states taskID log))"
  unfolding legal_log_def using task_states_absent
  by (metis successively.simps(1))

lemma Validate_known:
  "Validate r = None \<Longrightarrow> tr_EntityType r = TransitionEntityJob \<Longrightarrow>
   known_job_state (job_state_of (tr_NewState r))"
  "Validate r = None \<Longrightarrow> tr_EntityType r = TransitionEntityTask \<Longrightarrow>
   known_task_state (task_state_of (tr_NewState r))"
  using Validate_NoneD(4) [of r] by auto

lemma job_states_known:
  "\<forall>r \<in> set log. Validate r = None \<Longrightarrow> st \<in> set (job_states log) \<Longrightarrow> known_job_state st"
  by (auto simp: job_states_def Validate_known)

lemma task_states_known:
  "\<forall>r \<in> set log. Validate r = None \<Longrightarrow> st \<in> set (task_states taskID log) \<Longrightarrow> known_task_state st"
  by (auto simp: task_states_def task_records_def Validate_known)

lemma last_or_unset:
  "\<forall>x \<in> set xs. known_job_state x \<Longrightarrow> last_or JobStateUnset xs = JobStateUnset \<longleftrightarrow> xs = []"
  "\<forall>x \<in> set ys. known_task_state x \<Longrightarrow> last_or TaskStateUnset ys = TaskStateUnset \<longleftrightarrow> ys = []"
  by (metis last_or_def last_in_set known_job_state_simps(8))
    (metis last_or_def last_in_set known_task_state_simps(6))

text \<open>Extending a legal log by one record.\<close>

lemma legal_log_snoc:
  "legal_log jobID (log @ [r]) \<longleftrightarrow>
     legal_log jobID log \<and> Validate r = None \<and> tr_JobID r = jobID \<and>
     (case tr_EntityType r of
        TransitionEntityJob \<Rightarrow>
          job_states log = []
          \<or> CanTransitionJobState (last (job_states log)) (job_state_of (tr_NewState r))
      | TransitionEntityTask \<Rightarrow>
          task_states (tr_TaskID r) log = []
          \<or> CanTransitionTaskState (last (task_states (tr_TaskID r) log))
              (task_state_of (tr_NewState r))
      | TransitionEntityOther _ \<Rightarrow> True)"
  unfolding legal_log_all_tasks
  by (cases "tr_EntityType r") (auto simp: states_snoc successively_snoc)

section \<open>Replay computes it\<close>

text \<open>The view after a log has been replayed from a seeded start.\<close>

definition replayed :: "string \<Rightarrow> DurableTaskRecord list \<Rightarrow> TransitionRecord list
    \<Rightarrow> ReplayedJobState \<Rightarrow> bool" where
  "replayed jobID durableTasks log st \<longleftrightarrow>
     dj_JobID (rs_Job st) = jobID \<and>
     dj_CurrentState (rs_Job st) = last_or JobStateUnset (job_states log) \<and>
     (\<forall>taskID. dt_CurrentState (mget_or zero_task_record (rs_Tasks st) taskID) =
        last_or TaskStateUnset (task_states taskID log)) \<and>
     (\<forall>taskID. dt_LastAttempt (mget_or zero_task_record (rs_Tasks st) taskID) =
        task_attempts taskID log) \<and>
     (\<forall>taskID. mget (rs_Tasks st) taskID \<noteq> None \<longleftrightarrow>
        taskID \<in> dt_TaskID ` set durableTasks \<or> task_records taskID log \<noteq> []) \<and>
     (\<forall>taskID t. mget (rs_Tasks st) taskID = Some t \<longrightarrow> dt_TaskID t = taskID)"

lemma seeded_tasks:
  "mget (fold (\<lambda>task m. mput (dt_TaskID task) (replay_seed task) m) ts m) taskID = Some t \<Longrightarrow>
   mget m taskID = Some t \<or> (\<exists>task \<in> set ts. dt_TaskID task = taskID \<and> t = replay_seed task)"
  by (induction ts arbitrary: m) (force split: if_splits)+

lemma seeded_tasks_dom:
  "mget (fold (\<lambda>task m. mput (dt_TaskID task) (replay_seed task) m) ts m) taskID \<noteq> None \<longleftrightarrow>
   mget m taskID \<noteq> None \<or> taskID \<in> dt_TaskID ` set ts"
  by (induction ts arbitrary: m) auto

lemma replayed_init: "replayed jobID ts [] (replay_init jobID log ts)"
proof -
  define st where "st = replay_init jobID log ts"
  have seed: "dt_CurrentState t = TaskStateUnset \<and> dt_LastAttempt t = 0 \<and> dt_TaskID t = taskID"
    if "mget (rs_Tasks st) taskID = Some t" for taskID t
    using seeded_tasks [of ts "[]" taskID t] that
    by (auto simp: st_def replay_init_def replay_seed_def zero_task_record_def)
  have dom: "mget (rs_Tasks st) taskID \<noteq> None \<longleftrightarrow> taskID \<in> dt_TaskID ` set ts" for taskID
    using seeded_tasks_dom [of ts "[]" taskID] by (simp add: st_def replay_init_def)
  have or: "dt_CurrentState (mget_or zero_task_record (rs_Tasks st) taskID) = TaskStateUnset
      \<and> dt_LastAttempt (mget_or zero_task_record (rs_Tasks st) taskID) = 0" for taskID
    using seed [of taskID] by (cases "mget (rs_Tasks st) taskID")
      (simp_all add: mget_or_def zero_task_record_def)
  have "dj_JobID (rs_Job st) = jobID" "dj_CurrentState (rs_Job st) = JobStateUnset"
    by (simp_all add: st_def replay_init_def zero_job_record_def)
  with seed or dom show ?thesis
    unfolding st_def [symmetric] replayed_def by (simp add: task_records_def)
qed

text \<open>The two successful outcomes of the loop body.\<close>

lemma replay_record_Inr:
  assumes "replay_record jobID r st = Inr st'"
  obtains (job) j where "tr_EntityType r = TransitionEntityJob" "st' = st\<lparr>rs_Job := j\<rparr>"
      "dj_JobID j = dj_JobID (rs_Job st)" "dj_CurrentState j = job_state_of (tr_NewState r)"
    | (task) t where "tr_EntityType r = TransitionEntityTask"
      "st' = st\<lparr>rs_Tasks := mput (tr_TaskID r) t (rs_Tasks st)\<rparr>"
      "dt_TaskID t = tr_TaskID r" "dt_CurrentState t = task_state_of (tr_NewState r)"
      "dt_LastAttempt t = max (tr_Attempt r)
         (dt_LastAttempt (mget_or zero_task_record (rs_Tasks st) (tr_TaskID r)))"
proof (cases "tr_EntityType r")
  case TransitionEntityJob
  show ?thesis
    by (rule job [of "rs_Job st'"], insert assms TransitionEntityJob)
      (auto simp: replay_record_def replay_job_record_def Let_def split: option.splits if_splits)
next
  case TransitionEntityTask
  show ?thesis
    by (rule task [of "mget_or zero_task_record (rs_Tasks st') (tr_TaskID r)"], insert assms TransitionEntityTask)
      (auto simp: replay_record_def replay_task_record_def Let_def max_def
        split: option.splits if_splits)
next
  case (TransitionEntityOther s)
  with assms show ?thesis by (auto simp: replay_record_def split: option.splits if_splits)
qed

lemma replay_record_replayed:
  assumes "replayed jobID ts log st" "replay_record jobID r st = Inr st'"
  shows "replayed jobID ts (log @ [r]) st'"
  using assms(2)
proof (cases rule: replay_record_Inr)
  case (job j)
  then show ?thesis
    using assms(1) by (simp add: replayed_def states_snoc task_records_def)
next
  case (task t)
  have *: "task_records taskID (log @ [r]) =
      (if taskID = tr_TaskID r then task_records taskID log @ [r] else task_records taskID log)"
    for taskID using task(1) by (simp add: task_records_def)
  show ?thesis
    using assms(1) task(1,3-5) unfolding task(2) replayed_def * by (simp add: states_snoc)
qed

lemma replay_record_legal:
  assumes "replayed jobID ts log st" "legal_log jobID log"
  shows "(\<exists>st'. replay_record jobID r st = Inr st') \<longleftrightarrow> legal_log jobID (log @ [r])"
proof -
  let ?t = "tr_TaskID r"
  let ?cur = "dt_CurrentState (mget_or zero_task_record (rs_Tasks st) ?t)"
  have valid: "\<forall>r \<in> set log. Validate r = None" using assms(2) by (simp add: legal_log_def)
  have cur: "dj_CurrentState (rs_Job st) = last_or JobStateUnset (job_states log)"
    "?cur = last_or TaskStateUnset (task_states ?t log)"
    using assms(1) by (simp_all add: replayed_def)
  have unset: "dj_CurrentState (rs_Job st) = JobStateUnset \<longleftrightarrow> job_states log = []"
    "?cur = TaskStateUnset \<longleftrightarrow> task_states ?t log = []"
    unfolding cur using job_states_known [OF valid] task_states_known [OF valid]
    by (simp_all add: last_or_unset)
  have set: "job_states log \<noteq> [] \<Longrightarrow> dj_CurrentState (rs_Job st) = last (job_states log)"
    "task_states ?t log \<noteq> [] \<Longrightarrow> ?cur = last (task_states ?t log)"
    by (simp_all add: cur last_or_def)
  show ?thesis
  proof (cases "tr_EntityType r")
    case TransitionEntityJob
    with assms(2) unset(1) set(1) show ?thesis
      by (auto simp: legal_log_snoc replay_record_def replay_job_record_def Let_def
          split: option.splits)
  next
    case TransitionEntityTask
    with assms(2) unset(2) set(2) show ?thesis
      by (auto simp: legal_log_snoc replay_record_def replay_task_record_def Let_def
          split: option.splits)
  next
    case (TransitionEntityOther s)
    then have "Validate r \<noteq> None" using Validate_NoneD(4) [of r] by auto
    with TransitionEntityOther show ?thesis
      by (auto simp: legal_log_snoc replay_record_def split: option.splits)
  qed
qed

lemma replay_records_append:
  "replay_records ctx i jobID (xs @ ys) st =
     (case replay_records ctx i jobID xs st of
        Inl e \<Rightarrow> Inl e
      | Inr st' \<Rightarrow> replay_records ctx (i + length xs) jobID ys st')"
  by (induction xs arbitrary: i st) (simp_all split: option.splits sum.splits)

lemma replay_records_sound:
  assumes "replay_records ctx 0 jobID log (replay_init jobID all ts) = Inr st"
  shows "replayed jobID ts log st \<and> legal_log jobID log"
  using assms
proof (induction log arbitrary: st rule: rev_induct)
  case Nil
  then show ?case using replayed_init by (auto simp: legal_log_def)
next
  case (snoc r log)
  then obtain st1 where st1: "replay_records ctx 0 jobID log (replay_init jobID all ts) = Inr st1"
    "replay_record jobID r st1 = Inr st"
    by (auto simp: replay_records_append split: sum.splits option.splits)
  with snoc.IH replay_record_legal replay_record_replayed show ?case by blast
qed

lemma replay_records_complete:
  assumes "legal_log jobID log" "\<forall>i < length log. ctx i = None"
  shows "\<exists>st. replay_records ctx 0 jobID log (replay_init jobID all ts) = Inr st"
  using assms
proof (induction log rule: rev_induct)
  case (snoc r log)
  then obtain st where st: "replay_records ctx 0 jobID log (replay_init jobID all ts) = Inr st"
    by (auto simp: legal_log_snoc)
  with replay_records_sound replay_record_legal snoc.prems(1)
  obtain st' where "replay_record jobID r st = Inr st'" by blast
  with st snoc.prems(2) show ?case by (simp add: replay_records_append)
qed simp

lemma replay_keeps_transitions:
  "replay_records ctx i jobID log st = Inr st' \<Longrightarrow> rs_Transitions st' = rs_Transitions st"
  by (induction log arbitrary: i st)
    (auto simp: replay_record_def replay_job_record_def replay_task_record_def Let_def
      split: option.splits if_splits sum.splits TransitionEntityType.splits)

section \<open>Replay of a store\<close>

fun store_tasks_of :: "transition_store \<Rightarrow> string \<Rightarrow> DurableTaskRecord list" where
  "store_tasks_of (MemoryStore m) = mem_ListTasksByJob m"
| "store_tasks_of (PostgresStore p) = pg_tasks_of p"

text \<open>What the loop hands to \<^const>\<open>replayJobStateFromData\<close>, batched or not.\<close>

definition replay_data ::
    "(nat \<Rightarrow> go_error option) \<Rightarrow> transition_store \<Rightarrow> string \<Rightarrow> ReplayedJobState result" where
  "replay_data ctx s jobID =
     replayJobStateFromData ctx jobID (store_log s jobID) (store_tasks_of s jobID)"

lemma ReplayJobState_data:
  assumes "ReplayJobState ctx F1 F2 (Some s) jobID = Inr st"
  shows "replay_data ctx s jobID = Inr st" "jobID \<noteq> ''''"
  using assms
  by (cases s; auto simp: ReplayJobState_def replay_data_def pg_ListTransitionsByJob_def
      pg_ListTasksByJob_def pg_query_Inr split: if_splits sum.splits)+

lemma ReplayJobState_no_faults:
  "jobID \<noteq> '''' \<Longrightarrow> ReplayJobState ctx no_faults no_faults (Some s) jobID = replay_data ctx s jobID"
  by (cases s) (simp_all add: ReplayJobState_def replay_data_def pg_ListTransitionsByJob_def
      pg_ListTasksByJob_def)

lemma replay_load_batch_data:
  assumes "replay_load_batch Q s jobs = Inr (Some (tm, km))" "job \<in> set jobs"
  shows "mget_or [] tm (dj_JobID job) = store_log s (dj_JobID job)"
    and "mget_or [] km (dj_JobID job) = store_tasks_of s (dj_JobID job)"
proof -
  obtain p where p: "s = PostgresStore p"
    using assms(1) by (cases s) (auto simp: replay_load_batch_def)
  have loads: "pg_ListTransitionsByJobs (Q 1) p (map dj_JobID jobs) = Inr tm"
    "pg_ListTasksByJobs (Q 2) p (map dj_JobID jobs) = Inr km"
    using assms(1) by (auto simp: replay_load_batch_def p Let_def
        split: if_splits sum.splits option.splits)
  show "mget_or [] tm (dj_JobID job) = store_log s (dj_JobID job)"
    "mget_or [] km (dj_JobID job) = store_tasks_of s (dj_JobID job)"
    using pg_batch_transitions [OF loads(1), of "dj_JobID job"]
      pg_batch_tasks [OF loads(2), of "dj_JobID job"] assms(2)
    by (simp_all add: mget_or_def p)
qed

lemma check_batched_None:
  "\<forall>jobID \<in> set ids. mget tm jobID \<noteq> None \<and> mget km jobID \<noteq> None \<Longrightarrow>
   check_batched tm km ids = None"
  by (induction ids) auto

lemma pg_batch_no_faults:
  "\<exists>tm. pg_ListTransitionsByJobs no_faults p ids = Inr tm"
  "\<exists>km. pg_ListTasksByJobs no_faults p ids = Inr km"
  by (simp_all add: pg_ListTransitionsByJobs_def pg_ListTasksByJobs_def Let_def)

lemma replay_load_batch_no_faults:
  assumes "\<forall>i. Q i = no_faults"
  shows "\<exists>batch. replay_load_batch Q s jobs = Inr batch"
proof (cases s)
  case (PostgresStore p)
  obtain tm km where loads: "pg_ListTransitionsByJobs no_faults p (map dj_JobID jobs) = Inr tm"
    "pg_ListTasksByJobs no_faults p (map dj_JobID jobs) = Inr km"
    using pg_batch_no_faults by blast
  have "check_batched tm km (map dj_JobID jobs) = None"
    using pg_batch_transitions [OF loads(1)] pg_batch_tasks [OF loads(2)]
    by (intro check_batched_None) auto
  with loads PostgresStore assms show ?thesis by (simp add: replay_load_batch_def)
qed (simp add: replay_load_batch_def)

text \<open>The tasks of a replayed job are keyed by their ID and belong to the job.\<close>

definition tasks_wf :: "string \<Rightarrow> (string, DurableTaskRecord) gomap \<Rightarrow> bool" where
  "tasks_wf jobID m \<longleftrightarrow>
     wf_map m \<and> (\<forall>k t. mget m k = Some t \<longrightarrow> dt_TaskID t = k \<and> dt_JobID t = jobID)"

lemma tasks_wf_mput:
  "tasks_wf jobID m \<Longrightarrow> dt_TaskID t = k \<Longrightarrow> dt_JobID t = jobID \<Longrightarrow> tasks_wf jobID (mput k t m)"
  by (simp add: tasks_wf_def)

lemma replay_init_tasks_wf:
  assumes "\<forall>t \<in> set ts. dt_JobID t = jobID"
  shows "tasks_wf jobID (rs_Tasks (replay_init jobID log ts))"
proof -
  have fold: "tasks_wf jobID (fold (\<lambda>task m. mput (dt_TaskID task) (replay_seed task) m) ts m)"
    if "tasks_wf jobID m" "\<forall>t \<in> set ts. dt_JobID t = jobID" for m
    using that
  proof (induction ts arbitrary: m)
    case (Cons t ts)
    have "tasks_wf jobID (mput (dt_TaskID t) (replay_seed t) m)"
      by (rule tasks_wf_mput) (use Cons.prems in \<open>simp_all add: replay_seed_def\<close>)
    then show ?case using Cons by simp
  qed simp
  have "tasks_wf jobID []" by (simp add: tasks_wf_def)
  from fold [OF this assms] show ?thesis by (simp add: replay_init_def)
qed

lemma replay_record_tasks_wf:
  assumes "tasks_wf jobID (rs_Tasks st)" "replay_record jobID r st = Inr st'"
  shows "tasks_wf jobID (rs_Tasks st')"
  using assms
  by (auto simp: replay_record_def replay_job_record_def replay_task_record_def Let_def
      split: option.splits if_splits TransitionEntityType.splits intro!: tasks_wf_mput)

lemma replay_records_tasks_wf:
  "tasks_wf jobID (rs_Tasks st) \<Longrightarrow> replay_records ctx i jobID log st = Inr st' \<Longrightarrow>
   tasks_wf jobID (rs_Tasks st')"
  by (induction log arbitrary: i st)
    (auto split: option.splits sum.splits dest: replay_record_tasks_wf)

lemma store_tasks_of_job: "\<forall>t \<in> set (store_tasks_of s jobID). dt_JobID t = jobID"
  by (cases s) (auto simp: mem_ListTasksByJob_def pg_tasks_of_def)

lemma replay_data_tasks_wf: "replay_data ctx s jobID = Inr st \<Longrightarrow> tasks_wf jobID (rs_Tasks st)"
  unfolding replay_data_def replayJobStateFromData_def
  by (rule replay_records_tasks_wf [OF replay_init_tasks_wf [OF store_tasks_of_job]])

text \<open>One element of the result: the job's log is legal and its view is rebuilt from it.\<close>

definition rebuilt :: "transition_store \<Rightarrow> DurableJobRecord \<Rightarrow> ReplayedJobState \<Rightarrow> bool" where
  "rebuilt s job st \<longleftrightarrow>
     legal_log (dj_JobID job) (store_log s (dj_JobID job)) \<and>
     replayed (dj_JobID job) (store_tasks_of s (dj_JobID job)) (store_log s (dj_JobID job)) st \<and>
     tasks_wf (dj_JobID job) (rs_Tasks st) \<and>
     rs_Transitions st = store_log s (dj_JobID job) \<and>
     dj_Name (rs_Job st) = dj_Name job \<and>
     dj_LastSequenceID (rs_Job st) =
       max (dj_LastSequenceID job)
         (last_or 0 (map tr_SequenceID (store_log s (dj_JobID job))))"

lemma rebuilt_merge:
  assumes "replay_data ctx s (dj_JobID job) = Inr st"
  shows "rebuilt s job (replay_merge job st)"
proof -
  have st: "replay_records ctx 0 (dj_JobID job) (store_log s (dj_JobID job))
      (replay_init (dj_JobID job) (store_log s (dj_JobID job)) (store_tasks_of s (dj_JobID job)))
      = Inr st"
    using assms by (simp add: replay_data_def replayJobStateFromData_def)
  have tr: "rs_Transitions st = store_log s (dj_JobID job)"
    using replay_keeps_transitions [OF st] by (simp add: replay_init_def)
  have "replayed (dj_JobID job) (store_tasks_of s (dj_JobID job)) (store_log s (dj_JobID job))
      (replay_merge job st)"
    using replay_records_sound [OF st] by (simp add: replayed_def replay_merge_def Let_def)
  with replay_records_sound [OF st] tr replay_data_tasks_wf [OF assms] show ?thesis
    by (auto simp: rebuilt_def replay_merge_def Let_def last_or_def last_map)
qed

lemma replay_jobs_sound:
  assumes "replay_jobs ctx Q i s batch jobs = Inr sts"
    and "\<And>tm km job. batch = Some (tm, km) \<Longrightarrow> job \<in> set jobs \<Longrightarrow>
      mget_or [] tm (dj_JobID job) = store_log s (dj_JobID job)
      \<and> mget_or [] km (dj_JobID job) = store_tasks_of s (dj_JobID job)"
  shows "list_all2 (rebuilt s) jobs sts"
  using assms
proof (induction jobs arbitrary: i sts)
  case (Cons job jobs)
  let ?one = "case batch of
      Some (tm, km) \<Rightarrow> replayJobStateFromData (\<lambda>k. ctx i (Suc k)) (dj_JobID job)
        (mget_or [] tm (dj_JobID job)) (mget_or [] km (dj_JobID job))
    | None \<Rightarrow> ReplayJobState (\<lambda>k. ctx i (Suc k)) (Q (2 * i + 3)) (Q (2 * i + 4))
        (Some s) (dj_JobID job)"
  obtain st rest where st: "?one = Inr st"
    and rest: "replay_jobs ctx Q (Suc i) s batch jobs = Inr rest"
    and sts: "sts = replay_merge job st # rest"
    using Cons.prems(1) by (auto split: option.splits sum.splits)
  have "replay_data (\<lambda>k. ctx i (Suc k)) s (dj_JobID job) = Inr st"
  proof (cases batch)
    case None
    with st show ?thesis by (auto dest: ReplayJobState_data)
  next
    case (Some b)
    obtain tm km where "batch = Some (tm, km)" using Some by (cases b) auto
    with st Cons.prems(2) [of tm km job] show ?thesis by (simp add: replay_data_def)
  qed
  with rest sts Cons.IH [OF rest] Cons.prems(2) show ?case
    by (auto intro: rebuilt_merge)
qed simp

lemma replay_data_complete:
  "legal_log jobID (store_log s jobID) \<Longrightarrow> \<forall>i. ctx i = None \<Longrightarrow>
   \<exists>st. replay_data ctx s jobID = Inr st"
  unfolding replay_data_def replayJobStateFromData_def by (rule replay_records_complete) simp_all

lemma replay_jobs_complete:
  assumes "\<And>tm km job. batch = Some (tm, km) \<Longrightarrow> job \<in> set jobs \<Longrightarrow>
      mget_or [] tm (dj_JobID job) = store_log s (dj_JobID job)
      \<and> mget_or [] km (dj_JobID job) = store_tasks_of s (dj_JobID job)"
    and "\<forall>job \<in> set jobs. dj_JobID job \<noteq> ''''
      \<and> legal_log (dj_JobID job) (store_log s (dj_JobID job))"
    and "\<forall>i k. ctx i k = None" "\<forall>i. Q i = no_faults"
  shows "\<exists>sts. replay_jobs ctx Q i s batch jobs = Inr sts"
  using assms(1,2)
proof (induction jobs arbitrary: i)
  case (Cons job jobs)
  obtain st where st: "replay_data (\<lambda>k. ctx i (Suc k)) s (dj_JobID job) = Inr st"
    using replay_data_complete [of "dj_JobID job" s "\<lambda>k. ctx i (Suc k)"] Cons.prems(2) assms(3)
    by auto
  obtain rest where "replay_jobs ctx Q (Suc i) s batch jobs = Inr rest"
    using Cons.IH [of "Suc i"] Cons.prems by auto
  moreover have "(case batch of
      Some (tm, km) \<Rightarrow> replayJobStateFromData (\<lambda>k. ctx i (Suc k)) (dj_JobID job)
        (mget_or [] tm (dj_JobID job)) (mget_or [] km (dj_JobID job))
    | None \<Rightarrow> ReplayJobState (\<lambda>k. ctx i (Suc k)) (Q (2 * i + 3)) (Q (2 * i + 4))
        (Some s) (dj_JobID job)) = Inr st"
    using st Cons.prems(1) [of _ _ job] Cons.prems(2) assms(4)
    by (auto simp: ReplayJobState_no_faults replay_data_def split: option.splits)
  moreover have "ctx i 0 = None" using assms(3) by simp
  ultimately show ?case by simp
qed simp

lemma ReplayStateFromStore_view:
  assumes "ReplayStateFromStore ctx Q (Some s) = Inr sts"
  obtains jobs view where "store_ListUnfinishedJobs (Q 0) s = Inr jobs" "list_all2 (rebuilt s) jobs view"
    "sts = sort_key (\<lambda>st. (dj_CreatedAt (rs_Job st), dj_JobID (rs_Job st))) view"
proof -
  obtain jobs batch view where jobs: "store_ListUnfinishedJobs (Q 0) s = Inr jobs"
    and batch: "replay_load_batch Q s jobs = Inr batch"
    and view: "replay_jobs ctx Q 0 s batch jobs = Inr view"
      "sts = sort_key (\<lambda>st. (dj_CreatedAt (rs_Job st), dj_JobID (rs_Job st))) view"
    using assms by (auto simp: ReplayStateFromStore_def split: sum.splits)
  have "list_all2 (rebuilt s) jobs view"
    using batch by (intro replay_jobs_sound [OF view(1)]) (auto dest: replay_load_batch_data)
  from that [OF jobs this view(2)] show thesis .
qed

lemma ReplayStateFromStore_total:
  assumes "store_ListUnfinishedJobs no_faults s = Inr jobs"
    and "\<forall>job \<in> set jobs. dj_JobID job \<noteq> ''''
      \<and> legal_log (dj_JobID job) (store_log s (dj_JobID job))"
  shows "\<exists>sts. ReplayStateFromStore (\<lambda>_ _. None) (\<lambda>_. no_faults) (Some s) = Inr sts
           \<and> length sts = length jobs"
proof -
  obtain batch where batch: "replay_load_batch (\<lambda>_. no_faults) s jobs = Inr batch"
    using replay_load_batch_no_faults [of "\<lambda>_. no_faults"] by auto
  have data: "mget_or [] tm (dj_JobID job) = store_log s (dj_JobID job)
      \<and> mget_or [] km (dj_JobID job) = store_tasks_of s (dj_JobID job)"
    if "batch = Some (tm, km)" "job \<in> set jobs" for tm km job
    using replay_load_batch_data batch that by simp
  obtain view where view: "replay_jobs (\<lambda>_ _. None) (\<lambda>_. no_faults) 0 s batch jobs = Inr view"
    using replay_jobs_complete [of batch jobs s "\<lambda>_ _. None" "\<lambda>_. no_faults" 0] data assms(2)
    by auto
  have "length view = length jobs"
    using replay_jobs_sound [OF view data] by (simp add: list_all2_lengthD)
  with view batch assms(1) show ?thesis by (simp add: ReplayStateFromStore_def)
qed

section \<open>Properties\<close>

text \<open>A small history used to run the properties on: a job with one task that has been
  dispatched.\<close>

definition example_record ::
    "nat \<Rightarrow> TransitionEntityType \<Rightarrow> TransitionType \<Rightarrow> string \<Rightarrow> string \<Rightarrow> string \<Rightarrow> int
     \<Rightarrow> TransitionRecord" where
  "example_record seq ent tr taskID prev new attempt =
     \<lparr>tr_SequenceID = seq, tr_EntityType = ent, tr_Transition = tr, tr_JobID = ''j1'',
      tr_TaskID = taskID, tr_PreviousState = prev, tr_NewState = new, tr_NodeID = ''n1'',
      tr_Attempt = attempt, tr_ErrorSummary = '''', tr_OccurredAt = 100 + int seq\<rparr>"

definition example_log :: "TransitionRecord list" where
  "example_log =
     [example_record 1 TransitionEntityJob TransitionJobSubmitted '''' '''' ''SUBMITTED'' 0,
      example_record 2 TransitionEntityJob TransitionJobQueued '''' ''SUBMITTED'' ''QUEUED'' 0,
      example_record 3 TransitionEntityJob TransitionJobRunning '''' ''QUEUED'' ''RUNNING'' 0,
      example_record 4 TransitionEntityTask TransitionTaskCreated ''t1'' '''' ''PENDING'' 0,
      example_record 5 TransitionEntityTask TransitionTaskDispatched ''t1'' ''PENDING'' ''DISPATCHED'' 1]"

definition example_job :: DurableJobRecord where
  "example_job =
     \<lparr>dj_JobID = ''j1'', dj_Name = ''demo'', dj_CurrentState = JobStateRunning,
      dj_LastSequenceID = 3, dj_CreatedAt = 101, dj_UpdatedAt = 103\<rparr>"

definition example_store :: transition_store where
  "example_store = MemoryStore
     \<lparr>ms_transitions = [(''j1'', example_log)], ms_jobs = [(''j1'', example_job)], ms_tasks = []\<rparr>"

text \<open>C6. Replaying a job's history succeeds exactly when every record passes validation and
  belongs to the job, and the states it gives to the job and to every task follow the transition
  tables.\<close>

theorem replay_iff_legal:
  "(\<exists>st. replayJobStateFromData (\<lambda>_. None) jobID log durableTasks = Inr st) \<longleftrightarrow> legal_log jobID log"
  unfolding replayJobStateFromData_def
  by (blast intro: replay_records_complete dest: replay_records_sound)

text \<open>C11. A successful replay gives the job and every task the state named by the last record of
  that entity, and the task the highest attempt number its records mention; whatever the durable
  snapshots claim.\<close>

theorem replay_last_state:
  assumes "replayJobStateFromData ctx jobID log durableTasks = Inr st"
  shows "dj_CurrentState (rs_Job st) = last_or JobStateUnset (job_states log)
    \<and> dt_CurrentState (mget_or zero_task_record (rs_Tasks st) taskID) =
        last_or TaskStateUnset (task_states taskID log)
    \<and> dt_LastAttempt (mget_or zero_task_record (rs_Tasks st) taskID) = task_attempts taskID log"
  using replay_records_sound [OF assms [unfolded replayJobStateFromData_def]]
  by (simp_all add: replayed_def)

theorem replay_last_state_witness:
  "dt_CurrentState (mget_or zero_task_record
     (rs_Tasks (projr (replayJobStateFromData (\<lambda>_. None) ''j1'' example_log []))) ''t1'') =
   TaskStateDispatched"
proof -
  have ok: "replayJobStateFromData (\<lambda>_. None) ''j1'' example_log [] =
      Inr (projr (replayJobStateFromData (\<lambda>_. None) ''j1'' example_log []))"
    by code_simp
  have "last_or TaskStateUnset (task_states ''t1'' example_log) = TaskStateDispatched"
    by code_simp
  with replay_last_state [OF ok, of "''t1''"] show ?thesis by simp
qed

text \<open>C16. Rebuilding from a store lists every unfinished job once, ordered by creation time and
  identifier; each one's history is legal, its view is rebuilt from that history, and its
  sequence counter covers both the materialized record and the end of the log. This holds for the
  batched reads of the PostgreSQL store and for the job-by-job reads alike.\<close>

theorem ReplayStateFromStore_rebuilds:
  assumes "ReplayStateFromStore ctx Q (Some s) = Inr sts"
    and "store_ListUnfinishedJobs (Q 0) s = Inr jobs"
  shows "(\<exists>view. mset sts = mset view \<and> list_all2 (rebuilt s) jobs view)
    \<and> sorted (map (\<lambda>st. (dj_CreatedAt (rs_Job st), dj_JobID (rs_Job st))) sts)"
proof -
  obtain jobs' view where "store_ListUnfinishedJobs (Q 0) s = Inr jobs'"
    "list_all2 (rebuilt s) jobs' view"
    "sts = sort_key (\<lambda>st. (dj_CreatedAt (rs_Job st), dj_JobID (rs_Job st))) view"
    using ReplayStateFromStore_view [OF assms(1)] .
  then show ?thesis using assms(2) by auto
qed

theorem ReplayStateFromStore_rebuilds_witness:
  "length (projr (ReplayStateFromStore (\<lambda>_ _. None) (\<lambda>_. no_faults) (Some example_store))) = 1"
proof -
  have ok: "ReplayStateFromStore (\<lambda>_ _. None) (\<lambda>_. no_faults) (Some example_store) =
      Inr (projr (ReplayStateFromStore (\<lambda>_ _. None) (\<lambda>_. no_faults) (Some example_store)))"
    by code_simp
  have jobs: "store_ListUnfinishedJobs no_faults example_store = Inr [example_job]"
    by code_simp
  obtain view where
    "mset (projr (ReplayStateFromStore (\<lambda>_ _. None) (\<lambda>_. no_faults) (Some example_store))) =
     mset view" "list_all2 (rebuilt example_store) [example_job] view"
    using ReplayStateFromStore_rebuilds [OF ok jobs] by blast
  then show ?thesis by (auto dest!: list_all2_lengthD mset_eq_length)
qed

text \<open>C17. Without store or context errors the rebuild succeeds as soon as every unfinished job is
  named and has a legal history: replay loses no job.\<close>

theorem ReplayStateFromStore_succeeds:
  assumes "store_ListUnfinishedJobs no_faults s = Inr jobs"
    and "\<forall>job \<in> set jobs. dj_JobID job \<noteq> ''''
      \<and> legal_log (dj_JobID job) (store_log s (dj_JobID job))"
  shows "\<exists>sts. ReplayStateFromStore (\<lambda>_ _. None) (\<lambda>_. no_faults) (Some s) = Inr sts
           \<and> length sts = length jobs"
  using ReplayStateFromStore_total [OF assms] .

theorem ReplayStateFromStore_succeeds_witness:
  "\<exists>sts. ReplayStateFromStore (\<lambda>_ _. None) (\<lambda>_. no_faults) (Some example_store) = Inr sts
     \<and> length sts = 1"
proof -
  have "store_ListUnfinishedJobs no_faults example_store = Inr [example_job]"
    by code_simp
  moreover have "\<forall>job \<in> set [example_job]. dj_JobID job \<noteq> ''''
      \<and> legal_log (dj_JobID job) (store_log example_store (dj_JobID job))"
    by code_simp
  ultimately show ?thesis
    using ReplayStateFromStore_succeeds [of example_store "[example_job]"] by simp
qed

text \<open>C31. Replay takes nothing of the lifecycle from the durable task snapshots: snapshots that
  differ only in state, attempt number and update time give the same result.\<close>

theorem replay_ignores_snapshot_lifecycle:
  "replayJobStateFromData ctx jobID log
     (map (\<lambda>t. t\<lparr>dt_CurrentState := f t, dt_LastAttempt := g t, dt_UpdatedAt := h t\<rparr>) durableTasks) =
   replayJobStateFromData ctx jobID log durableTasks"
  by (simp add: replayJobStateFromData_def replay_init_def fold_map comp_def replay_seed_def)

lemma successively_task_rank:
  "successively CanTransitionTaskState xs \<Longrightarrow> sorted (map task_rank xs)"
proof -
  assume "successively CanTransitionTaskState xs"
  then have "successively (\<lambda>a b. task_rank a \<le> task_rank b) xs"
    by (rule successively_mono) (auto dest: CanTransitionTaskState_rank)
  then have "sorted_wrt (\<lambda>a b. task_rank a \<le> task_rank b) xs"
    by (subst (asm) successively_iff_sorted_wrt_strong) auto
  then show ?thesis by (simp add: sorted_map)
qed

lemma successively_terminal:
  "successively CanTransitionJobState (st # ys) \<Longrightarrow> IsTerminalJobState st \<Longrightarrow> \<forall>y \<in> set ys. y = st"
proof (induction ys)
  case (Cons y ys)
  then have "y = st" by (auto simp: terminal_job_final)
  with Cons show ?case by auto
qed simp

text \<open>C25. In a legal history a task only moves forward (pending, dispatched, running, then succeeded
  or failed), and once the job has reached a terminal state every later job record repeats it.\<close>

theorem legal_history_progress:
  assumes "legal_log jobID log"
  shows "sorted (map task_rank (task_states taskID log))
    \<and> (\<forall>xs st ys. job_states log = xs @ st # ys \<longrightarrow> IsTerminalJobState st \<longrightarrow> (\<forall>y \<in> set ys. y = st))"
proof (intro conjI allI impI)
  show "sorted (map task_rank (task_states taskID log))"
    using assms by (simp add: legal_log_all_tasks successively_task_rank)
  fix xs st ys assume log: "job_states log = xs @ st # ys" and "IsTerminalJobState st"
  have "successively CanTransitionJobState (job_states log)"
    using assms by (simp add: legal_log_def)
  then have "successively CanTransitionJobState (st # ys)"
    unfolding log by (simp add: successively_append_iff)
  from successively_terminal [OF this \<open>IsTerminalJobState st\<close>] show "\<forall>y \<in> set ys. y = st" .
qed

theorem legal_history_progress_witness:
  "legal_log ''j1'' example_log
   \<and> map task_rank (task_states ''t1'' example_log) = [1, 2]
   \<and> sorted (map task_rank (task_states ''t1'' example_log))"
proof -
  have legal: "legal_log ''j1'' example_log" by code_simp
  have "map task_rank (task_states ''t1'' example_log) = [1, 2]" by code_simp
  with legal legal_history_progress [OF legal, of "''t1''"] show ?thesis by simp
qed

end
