(* ===== verification/Sched_Config.thy ===== *)
theory Sched_Config
  imports Dagens_Prelude
begin

text \<open>
  The scheduler's configuration, \<^verbatim>\<open>pkg/scheduler/config.go\<close>: the constants (durations in
  nanoseconds), the configuration record, the defaults and the validation that replaces missing
  or extreme values. The lemmas show that validation yields a configuration inside its bounds,
  that validating twice changes nothing, and for which bounds the background intervals come out
  below the expiry they serve.
\<close>

section \<open>Constants\<close>

definition defaultAffinityTTL :: duration where
  "defaultAffinityTTL = 3600000000000"

definition defaultAffinityCleanupInterval :: duration where
  "defaultAffinityCleanupInterval = 300000000000"

definition defaultJobQueueSize :: int where
  "defaultJobQueueSize = 100"

definition defaultWorkerMaxConcurrency :: int where
  "defaultWorkerMaxConcurrency = 1"

definition defaultMaxWorkerConcurrencyCap :: int where
  "defaultMaxWorkerConcurrencyCap = 100"

definition defaultCapacityTTL :: duration where
  "defaultCapacityTTL = 5000000000"

definition defaultDispatchRejectCooldown :: duration where
  "defaultDispatchRejectCooldown = 5000000000"

definition defaultMaxDispatchAttempts :: int where
  "defaultMaxDispatchAttempts = 3"

definition defaultStageCapacityDeferralTimeout :: duration where
  "defaultStageCapacityDeferralTimeout = 2000000000"

definition defaultStageCapacityDeferralPoll :: duration where
  "defaultStageCapacityDeferralPoll = 100000000"

definition defaultRecoveryTimeout :: duration where
  "defaultRecoveryTimeout = 300000000000"

definition defaultRecoveryBatchSize :: int where
  "defaultRecoveryBatchSize = 128"

definition defaultLeadershipRetryInterval :: duration where
  "defaultLeadershipRetryInterval = 200000000"

definition defaultJobRetentionTTL :: duration where
  "defaultJobRetentionTTL = 86400000000000"

definition defaultJobRetentionCleanupInterval :: duration where
  "defaultJobRetentionCleanupInterval = 300000000000"

definition defaultLeaderRequeuePollInterval :: duration where
  "defaultLeaderRequeuePollInterval = 500000000"

definition defaultFollowerRequeuePollInterval :: duration where
  "defaultFollowerRequeuePollInterval = 5000000000"

definition defaultReconcileTimeout :: duration where
  "defaultReconcileTimeout = 5000000000"

definition defaultAlertRequestTimeout :: duration where
  "defaultAlertRequestTimeout = 3000000000"

definition defaultAlertMaxAttempts :: int where
  "defaultAlertMaxAttempts = 3"

definition defaultAlertRetryBaseInterval :: duration where
  "defaultAlertRetryBaseInterval = 200000000"

definition maxJobQueueSize :: int where
  "maxJobQueueSize = 10000"

definition maxRecoveryBatchSize :: int where
  "maxRecoveryBatchSize = 4096"

definition maxDispatchAttempts :: int where
  "maxDispatchAttempts = 50"

definition maxWorkerConcurrencyCapCfg :: int where
  "maxWorkerConcurrencyCapCfg = 10000"

definition minAffinityCleanupInterval :: duration where
  "minAffinityCleanupInterval = 100000000"

definition minDeferralPollInterval :: duration where
  "minDeferralPollInterval = 10000000"

definition minRetentionCleanup :: duration where
  "minRetentionCleanup = 1000000000"

definition minRecoveryTimeout :: duration where
  "minRecoveryTimeout = 1000000000"

definition minAlertRetryBaseInterval :: duration where
  "minAlertRetryBaseInterval = 50000000"

definition minRequeuePollInterval :: duration where
  "minRequeuePollInterval = 10000000"

definition minReconcileTimeout :: duration where
  "minReconcileTimeout = 100000000"

lemmas config_consts =
  defaultAffinityTTL_def defaultAffinityCleanupInterval_def defaultJobQueueSize_def
  defaultWorkerMaxConcurrency_def defaultMaxWorkerConcurrencyCap_def defaultCapacityTTL_def
  defaultDispatchRejectCooldown_def defaultMaxDispatchAttempts_def
  defaultStageCapacityDeferralTimeout_def defaultStageCapacityDeferralPoll_def
  defaultRecoveryTimeout_def defaultRecoveryBatchSize_def defaultLeadershipRetryInterval_def
  defaultJobRetentionTTL_def defaultJobRetentionCleanupInterval_def
  defaultLeaderRequeuePollInterval_def defaultFollowerRequeuePollInterval_def
  defaultReconcileTimeout_def defaultAlertRequestTimeout_def defaultAlertMaxAttempts_def
  defaultAlertRetryBaseInterval_def maxJobQueueSize_def maxRecoveryBatchSize_def
  maxDispatchAttempts_def maxWorkerConcurrencyCapCfg_def minAffinityCleanupInterval_def
  minDeferralPollInterval_def minRetentionCleanup_def minRecoveryTimeout_def
  minAlertRetryBaseInterval_def minRequeuePollInterval_def minReconcileTimeout_def

record SchedulerConfig =
  cf_AffinityTTL :: duration
  cf_AffinityCleanupInterval :: duration
  cf_EnableStickiness :: bool
  cf_JobQueueSize :: int
  cf_DefaultWorkerMaxConcurrency :: int
  cf_MaxWorkerConcurrencyCap :: int
  cf_CapacityTTL :: duration
  cf_DispatchRejectCooldown :: duration
  cf_MaxDispatchAttempts :: int
  cf_EnableStageCapacityDeferral :: bool
  cf_StageCapacityDeferralTimeout :: duration
  cf_StageCapacityDeferralPollInterval :: duration
  cf_RecoveryTimeout :: duration
  cf_RecoveryBatchSize :: int
  cf_EnableResumeRecoveredQueuedJobs :: bool
  cf_LeadershipRetryInterval :: duration
  cf_JobRetentionTTL :: duration
  cf_JobRetentionCleanupInterval :: duration
  cf_EnableJobRetentionCleanup :: bool
  cf_EnableLeaderDurableRequeueLoop :: bool
  cf_LeaderDurableRequeuePollInterval :: duration
  cf_EnableFollowerDurableRequeueLoop :: bool
  cf_FollowerDurableRequeuePollInterval :: duration
  cf_ReconcileTimeout :: duration
  cf_AlertWebhookURL :: string
  cf_AlertRequestTimeout :: duration
  cf_AlertMaxAttempts :: int
  cf_AlertRetryBaseInterval :: duration

definition DefaultSchedulerConfig :: SchedulerConfig where
  "DefaultSchedulerConfig =
     \<lparr>cf_AffinityTTL = defaultAffinityTTL,
      cf_AffinityCleanupInterval = defaultAffinityCleanupInterval,
      cf_EnableStickiness = True,
      cf_JobQueueSize = defaultJobQueueSize,
      cf_DefaultWorkerMaxConcurrency = defaultWorkerMaxConcurrency,
      cf_MaxWorkerConcurrencyCap = defaultMaxWorkerConcurrencyCap,
      cf_CapacityTTL = defaultCapacityTTL,
      cf_DispatchRejectCooldown = defaultDispatchRejectCooldown,
      cf_MaxDispatchAttempts = defaultMaxDispatchAttempts,
      cf_EnableStageCapacityDeferral = False,
      cf_StageCapacityDeferralTimeout = defaultStageCapacityDeferralTimeout,
      cf_StageCapacityDeferralPollInterval = defaultStageCapacityDeferralPoll,
      cf_RecoveryTimeout = defaultRecoveryTimeout,
      cf_RecoveryBatchSize = defaultRecoveryBatchSize,
      cf_EnableResumeRecoveredQueuedJobs = False,
      cf_LeadershipRetryInterval = defaultLeadershipRetryInterval,
      cf_JobRetentionTTL = defaultJobRetentionTTL,
      cf_JobRetentionCleanupInterval = defaultJobRetentionCleanupInterval,
      cf_EnableJobRetentionCleanup = True,
      cf_EnableLeaderDurableRequeueLoop = True,
      cf_LeaderDurableRequeuePollInterval = defaultLeaderRequeuePollInterval,
      cf_EnableFollowerDurableRequeueLoop = True,
      cf_FollowerDurableRequeuePollInterval = defaultFollowerRequeuePollInterval,
      cf_ReconcileTimeout = defaultReconcileTimeout,
      cf_AlertWebhookURL = '''',
      cf_AlertRequestTimeout = defaultAlertRequestTimeout,
      cf_AlertMaxAttempts = defaultAlertMaxAttempts,
      cf_AlertRetryBaseInterval = defaultAlertRetryBaseInterval\<rparr>"

section \<open>Validation\<close>

text \<open>The three forms of a check: a default for a value that is not positive, and the same with a
  largest or a smallest admissible value.\<close>

definition or_default :: "int \<Rightarrow> int \<Rightarrow> int" where
  "or_default v d = (if v \<le> 0 then d else v)"

definition or_default_upto :: "int \<Rightarrow> int \<Rightarrow> int \<Rightarrow> int" where
  "or_default_upto v d limit = (if v \<le> 0 then d else if limit < v then limit else v)"

definition or_default_from :: "int \<Rightarrow> int \<Rightarrow> int \<Rightarrow> int" where
  "or_default_from v d least = (if v \<le> 0 then d else if v < least then least else v)"

text \<open>\<^verbatim>\<open>Validate\<close>, first part: every numeric and time field on its own.\<close>

definition config_defaults :: "SchedulerConfig \<Rightarrow> SchedulerConfig" where
  "config_defaults c = c
     \<lparr>cf_AffinityTTL := or_default (cf_AffinityTTL c) defaultAffinityTTL,
      cf_AffinityCleanupInterval :=
        or_default (cf_AffinityCleanupInterval c) defaultAffinityCleanupInterval,
      cf_JobQueueSize := or_default_upto (cf_JobQueueSize c) defaultJobQueueSize maxJobQueueSize,
      cf_DefaultWorkerMaxConcurrency :=
        or_default (cf_DefaultWorkerMaxConcurrency c) defaultWorkerMaxConcurrency,
      cf_MaxWorkerConcurrencyCap :=
        or_default_upto (cf_MaxWorkerConcurrencyCap c) defaultMaxWorkerConcurrencyCap
          maxWorkerConcurrencyCapCfg,
      cf_CapacityTTL := or_default (cf_CapacityTTL c) defaultCapacityTTL,
      cf_DispatchRejectCooldown :=
        or_default (cf_DispatchRejectCooldown c) defaultDispatchRejectCooldown,
      cf_MaxDispatchAttempts :=
        or_default_upto (cf_MaxDispatchAttempts c) defaultMaxDispatchAttempts
          maxDispatchAttempts,
      cf_StageCapacityDeferralTimeout :=
        or_default (cf_StageCapacityDeferralTimeout c) defaultStageCapacityDeferralTimeout,
      cf_StageCapacityDeferralPollInterval :=
        or_default (cf_StageCapacityDeferralPollInterval c) defaultStageCapacityDeferralPoll,
      cf_RecoveryTimeout :=
        or_default_from (cf_RecoveryTimeout c) defaultRecoveryTimeout minRecoveryTimeout,
      cf_RecoveryBatchSize :=
        or_default_upto (cf_RecoveryBatchSize c) defaultRecoveryBatchSize
          maxRecoveryBatchSize,
      cf_LeadershipRetryInterval :=
        or_default (cf_LeadershipRetryInterval c) defaultLeadershipRetryInterval,
      cf_JobRetentionTTL := or_default (cf_JobRetentionTTL c) defaultJobRetentionTTL,
      cf_JobRetentionCleanupInterval :=
        or_default (cf_JobRetentionCleanupInterval c) defaultJobRetentionCleanupInterval,
      cf_LeaderDurableRequeuePollInterval :=
        or_default_from (cf_LeaderDurableRequeuePollInterval c) defaultLeaderRequeuePollInterval
          minRequeuePollInterval,
      cf_FollowerDurableRequeuePollInterval :=
        or_default_from (cf_FollowerDurableRequeuePollInterval c) defaultFollowerRequeuePollInterval
          minRequeuePollInterval,
      cf_ReconcileTimeout :=
        or_default_from (cf_ReconcileTimeout c) defaultReconcileTimeout minReconcileTimeout,
      cf_AlertRequestTimeout := or_default (cf_AlertRequestTimeout c) defaultAlertRequestTimeout,
      cf_AlertMaxAttempts := or_default (cf_AlertMaxAttempts c) defaultAlertMaxAttempts,
      cf_AlertRetryBaseInterval :=
        or_default_from (cf_AlertRetryBaseInterval c) defaultAlertRetryBaseInterval
          minAlertRetryBaseInterval\<rparr>"

text \<open>Integer division of positive durations.\<close>

definition adjustBoundedInterval :: "duration \<Rightarrow> duration \<Rightarrow> duration \<Rightarrow> duration" where
  "adjustBoundedInterval interval bound least =
     (if interval < bound then interval
      else let adjusted = bound div 4 in if adjusted < least then least else adjusted)"

text \<open>\<^verbatim>\<open>Validate\<close>, second part: the three background intervals against their expiry.\<close>

definition config_intervals :: "SchedulerConfig \<Rightarrow> SchedulerConfig" where
  "config_intervals c = c
     \<lparr>cf_AffinityCleanupInterval :=
        (if cf_AffinityTTL c \<le> cf_AffinityCleanupInterval c
         then adjustBoundedInterval (cf_AffinityCleanupInterval c) (cf_AffinityTTL c)
                minAffinityCleanupInterval
         else cf_AffinityCleanupInterval c),
      cf_StageCapacityDeferralPollInterval :=
        (if cf_StageCapacityDeferralTimeout c \<le> cf_StageCapacityDeferralPollInterval c
         then adjustBoundedInterval (cf_StageCapacityDeferralPollInterval c)
                (cf_StageCapacityDeferralTimeout c) minDeferralPollInterval
         else cf_StageCapacityDeferralPollInterval c),
      cf_JobRetentionCleanupInterval :=
        (if cf_JobRetentionTTL c \<le> cf_JobRetentionCleanupInterval c
         then adjustBoundedInterval (cf_JobRetentionCleanupInterval c) (cf_JobRetentionTTL c)
                minRetentionCleanup
         else cf_JobRetentionCleanupInterval c)\<rparr>"

definition config_Validate :: "SchedulerConfig \<Rightarrow> SchedulerConfig" where
  "config_Validate c = config_intervals (config_defaults c)"

definition Validated :: "SchedulerConfig \<Rightarrow> SchedulerConfig" where
  "Validated c = config_Validate c"

section \<open>Lemmas\<close>

lemma or_default_pos [simp]:
  "0 < d \<Longrightarrow> 0 < or_default v d"
  "0 < d \<Longrightarrow> 0 < limit \<Longrightarrow> 0 < or_default_upto v d limit"
  "0 < d \<Longrightarrow> 0 < or_default_from v d least"
  by (auto simp: or_default_def or_default_upto_def or_default_from_def)

lemma or_default_bounds:
  "d \<le> limit \<Longrightarrow> or_default_upto v d limit \<le> limit"
  "least \<le> d \<Longrightarrow> least \<le> or_default_from v d least"
  by (auto simp: or_default_upto_def or_default_from_def)

lemma or_default_idem [simp]:
  "0 < v \<Longrightarrow> or_default v d = v"
  "0 < v \<Longrightarrow> v \<le> limit \<Longrightarrow> or_default_upto v d limit = v"
  "0 < v \<Longrightarrow> least \<le> v \<Longrightarrow> or_default_from v d least = v"
  by (auto simp: or_default_def or_default_upto_def or_default_from_def)

text \<open>A configuration inside its bounds.\<close>

definition config_ok :: "SchedulerConfig \<Rightarrow> bool" where
  "config_ok c \<longleftrightarrow>
     0 < cf_AffinityTTL c \<and> 0 < cf_AffinityCleanupInterval c
     \<and> 0 < cf_JobQueueSize c \<and> cf_JobQueueSize c \<le> maxJobQueueSize
     \<and> 0 < cf_DefaultWorkerMaxConcurrency c
     \<and> 0 < cf_MaxWorkerConcurrencyCap c
     \<and> cf_MaxWorkerConcurrencyCap c \<le> maxWorkerConcurrencyCapCfg
     \<and> 0 < cf_CapacityTTL c \<and> 0 < cf_DispatchRejectCooldown c
     \<and> 0 < cf_MaxDispatchAttempts c \<and> cf_MaxDispatchAttempts c \<le> maxDispatchAttempts
     \<and> 0 < cf_StageCapacityDeferralTimeout c \<and> 0 < cf_StageCapacityDeferralPollInterval c
     \<and> minRecoveryTimeout \<le> cf_RecoveryTimeout c
     \<and> 0 < cf_RecoveryBatchSize c \<and> cf_RecoveryBatchSize c \<le> maxRecoveryBatchSize
     \<and> 0 < cf_LeadershipRetryInterval c
     \<and> 0 < cf_JobRetentionTTL c \<and> 0 < cf_JobRetentionCleanupInterval c
     \<and> minRequeuePollInterval \<le> cf_LeaderDurableRequeuePollInterval c
     \<and> minRequeuePollInterval \<le> cf_FollowerDurableRequeuePollInterval c
     \<and> minReconcileTimeout \<le> cf_ReconcileTimeout c
     \<and> 0 < cf_AlertRequestTimeout c \<and> 0 < cf_AlertMaxAttempts c
     \<and> minAlertRetryBaseInterval \<le> cf_AlertRetryBaseInterval c"

lemma config_defaults_ok: "config_ok (config_defaults c)"
  by (simp add: config_ok_def config_defaults_def config_consts or_default_bounds)

lemma config_defaults_id: "config_ok c \<Longrightarrow> config_defaults c = c"
  by (simp add: config_ok_def config_defaults_def config_consts)

lemma adjustBoundedInterval_pos:
  "0 < interval \<Longrightarrow> 0 < least \<Longrightarrow> 0 < adjustBoundedInterval interval bound least"
  by (auto simp: adjustBoundedInterval_def Let_def)

lemma adjustBoundedInterval_below:
  "0 < bound \<Longrightarrow> least < bound \<Longrightarrow> adjustBoundedInterval interval bound least < bound"
  by (auto simp: adjustBoundedInterval_def Let_def)

lemma adjustBoundedInterval_idem:
  "0 < bound \<Longrightarrow> adjustBoundedInterval (adjustBoundedInterval interval bound least) bound least =
     adjustBoundedInterval interval bound least"
  by (auto simp: adjustBoundedInterval_def Let_def)

lemma config_intervals_ok: "config_ok c \<Longrightarrow> config_ok (config_intervals c)"
  by (simp add: config_ok_def config_intervals_def config_consts adjustBoundedInterval_pos)

lemma adjust_if:
  "(if bound \<le> interval then adjustBoundedInterval interval bound least else interval) =
   adjustBoundedInterval interval bound least"
  by (simp add: adjustBoundedInterval_def)

lemma config_intervals_eq:
  "config_intervals c = c
     \<lparr>cf_AffinityCleanupInterval :=
        adjustBoundedInterval (cf_AffinityCleanupInterval c) (cf_AffinityTTL c)
          minAffinityCleanupInterval,
      cf_StageCapacityDeferralPollInterval :=
        adjustBoundedInterval (cf_StageCapacityDeferralPollInterval c)
          (cf_StageCapacityDeferralTimeout c) minDeferralPollInterval,
      cf_JobRetentionCleanupInterval :=
        adjustBoundedInterval (cf_JobRetentionCleanupInterval c) (cf_JobRetentionTTL c)
          minRetentionCleanup\<rparr>"
  by (simp add: config_intervals_def adjust_if)

lemma config_intervals_idem:
  "config_ok c \<Longrightarrow> config_intervals (config_intervals c) = config_intervals c"
  by (simp add: config_intervals_eq adjustBoundedInterval_idem config_ok_def)

lemma config_Validate_ok: "config_ok (config_Validate c)"
  by (simp add: config_Validate_def config_intervals_ok config_defaults_ok)

section \<open>Properties\<close>


text \<open>After validation a background interval is below the expiry it serves exactly when the
  expiry is above the smallest admissible interval, or the interval was already below it. (With a
  shorter expiry the cleanup and polling intervals end up above it, although the comments promise
  a cadence below it.)\<close>

lemma config_intervals_below_expiry:
  "(cf_AffinityCleanupInterval (Validated c) < cf_AffinityTTL (Validated c) \<longleftrightarrow>
      minAffinityCleanupInterval < cf_AffinityTTL (Validated c)
      \<or> cf_AffinityCleanupInterval (config_defaults c) < cf_AffinityTTL (Validated c))
   \<and> (cf_StageCapacityDeferralPollInterval (Validated c)
        < cf_StageCapacityDeferralTimeout (Validated c) \<longleftrightarrow>
      minDeferralPollInterval < cf_StageCapacityDeferralTimeout (Validated c)
      \<or> cf_StageCapacityDeferralPollInterval (config_defaults c)
         < cf_StageCapacityDeferralTimeout (Validated c))
   \<and> (cf_JobRetentionCleanupInterval (Validated c) < cf_JobRetentionTTL (Validated c) \<longleftrightarrow>
      minRetentionCleanup < cf_JobRetentionTTL (Validated c)
      \<or> cf_JobRetentionCleanupInterval (config_defaults c) < cf_JobRetentionTTL (Validated c))"
proof -
  have adjust: "adjustBoundedInterval interval bound least < bound \<longleftrightarrow>
      least < bound \<or> interval < bound" if "0 < bound" for interval bound least :: int
    using that by (auto simp: adjustBoundedInterval_def Let_def)
  have "0 < cf_AffinityTTL (config_defaults c)" "0 < cf_StageCapacityDeferralTimeout (config_defaults c)"
    "0 < cf_JobRetentionTTL (config_defaults c)"
    using config_defaults_ok [of c] by (simp_all add: config_ok_def)
  then show ?thesis
    by (simp add: Validated_def config_Validate_def config_intervals_eq adjust)
qed

end
