(* ===== verification/Leadership.thy ===== *)
theory Leadership
  imports Lifecycle
begin

text \<open>
  Who may dispatch: \<^verbatim>\<open>pkg/scheduler/leadership.go\<close>, the etcd provider of
  \<^verbatim>\<open>pkg/scheduler/leadership_etcd.go\<close>, and the worker-side check of the authority stamped onto a
  dispatch, \<^verbatim>\<open>pkg/remote/dispatch_authority.go\<close>.

  etcd is outside the repository: \<open>get\<close> is its answer to a prefix query sorted by creation
  revision and limited to one key, as the two callers send it. Whether the local elector believes
  to be leader is a parameter of the provider. The lemmas characterise valid scopes, show that the
  scheduler and the workers agree on the current leader whenever they see the same election key,
  and that authority from an earlier term is refused.
\<close>

record LeadershipAuthority =
  la_IsLeader :: bool
  la_Epoch :: string
  la_LeaderID :: string
  la_Scope :: string

definition no_authority :: LeadershipAuthority where
  "no_authority = \<lparr>la_IsLeader = False, la_Epoch = '''', la_LeaderID = '''', la_Scope = ''''\<rparr>"

section \<open>Scopes\<close>

definition alnum :: "char \<Rightarrow> bool" where
  "alnum c \<longleftrightarrow> CHR ''A'' \<le> c \<and> c \<le> CHR ''Z'' \<or> CHR ''a'' \<le> c \<and> c \<le> CHR ''z''
     \<or> CHR ''0'' \<le> c \<and> c \<le> CHR ''9''"

definition scope_key_char :: "char \<Rightarrow> bool" where
  "scope_key_char c \<longleftrightarrow> alnum c \<or> c \<in> set ''_-''"

definition scope_value_char :: "char \<Rightarrow> bool" where
  "scope_value_char c \<longleftrightarrow> alnum c \<or> c \<in> set ''._:/-''"

text \<open>The regular expression: key characters, a colon (which is no key character), value
  characters up to the end.\<close>

definition scopeSegmentPattern :: "string \<Rightarrow> bool" where
  "scopeSegmentPattern s \<longleftrightarrow>
     takeWhile scope_key_char s \<noteq> [] \<and>
     (case dropWhile scope_key_char s of
        [] \<Rightarrow> False
      | c # v \<Rightarrow> c = CHR '':'' \<and> v \<noteq> [] \<and> list_all scope_value_char v)"

text \<open>The loop of \<^verbatim>\<open>IsValidScope\<close>: the first argument is \<^verbatim>\<open>scope[start:i]\<close>, the second the rest of
  the string from \<^verbatim>\<open>i\<close> on.\<close>

fun scope_loop :: "string \<Rightarrow> string \<Rightarrow> bool" where
  "scope_loop segment [] = (segment \<noteq> [] \<and> scopeSegmentPattern segment)"
| "scope_loop segment (c # cs) =
     (if c \<noteq> CHR '';'' then scope_loop (segment @ [c]) cs
      else if segment = [] \<or> \<not> scopeSegmentPattern segment then False
      else scope_loop [] cs)"

definition IsValidScope :: "string \<Rightarrow> bool" where
  "IsValidScope scope = (if scope = '''' then True else scope_loop [] scope)"

section \<open>Providers\<close>

text \<open>A provider at the time of a call: its answer to \<^verbatim>\<open>DispatchAuthority\<close> and, when it implements
  \<^verbatim>\<open>ScopedLeadershipProvider\<close>, its answers per scope.\<close>

record leadership_provider =
  lp_authority :: "LeadershipAuthority result"
  lp_scoped :: "(string \<Rightarrow> LeadershipAuthority result) option"

definition DispatchAuthorityForScope ::
    "leadership_provider \<Rightarrow> string \<Rightarrow> LeadershipAuthority result" where
  "DispatchAuthorityForScope provider scope =
     (if \<not> IsValidScope scope
      then Inl (ErrWrap '''' (ErrSentinel ErrInvalidScope) ('': '' @ quoted scope))
      else case lp_scoped provider of
             Some scoped \<Rightarrow>
               (case scoped scope of
                  Inl e \<Rightarrow> Inl e
                | Inr auth \<Rightarrow>
                    Inr (if la_Scope auth = '''' then auth\<lparr>la_Scope := scope\<rparr> else auth))
           | None \<Rightarrow>
               (case lp_authority provider of
                  Inl e \<Rightarrow> Inl e
                | Inr auth \<Rightarrow> Inr (auth\<lparr>la_Scope := scope\<rparr>)))"

definition staticLeadershipProvider :: "LeadershipAuthority \<Rightarrow> leadership_provider" where
  "staticLeadershipProvider authority = \<lparr>lp_authority = Inr authority, lp_scoped = None\<rparr>"

definition defaultLeadershipProvider :: leadership_provider where
  "defaultLeadershipProvider =
     staticLeadershipProvider
       \<lparr>la_IsLeader = True, la_Epoch = ''single-node'', la_LeaderID = ''local'', la_Scope = ''''\<rparr>"

section \<open>The etcd provider\<close>

record EtcdLeadershipProviderConfig =
  ec_Endpoints :: "string list"
  ec_ElectionKey :: string
  ec_Identity :: string
  ec_SessionTTL :: int
  ec_DialTimeout :: duration

record etcd_provider =
  ep_electionKey :: string
  ep_identity :: string
  ep_started :: bool
  ep_stopped :: bool

text \<open>The parameters \<open>dial\<close> and \<open>elector\<close> are the outcomes of creating the etcd client and the
  elector.\<close>

definition NewEtcdLeadershipProvider ::
    "go_error option \<Rightarrow> go_error option \<Rightarrow> EtcdLeadershipProviderConfig \<Rightarrow> etcd_provider result" where
  "NewEtcdLeadershipProvider dial elector cfg =
     (if ec_Endpoints cfg = [] then Inl (ErrNew ''etcd leadership endpoints are required'')
      else if trim_space (ec_Identity cfg) = ''''
      then Inl (ErrNew ''etcd leadership identity is required'')
      else
        (let key = (if trim_space (ec_ElectionKey cfg) = ''''
                    then ''/dagens/control-plane/scheduler'' else ec_ElectionKey cfg)
         in case dial of
              Some e \<Rightarrow> Inl (ErrWrap ''failed to create etcd leadership client: '' e '''')
            | None \<Rightarrow>
                (case elector of
                   Some e \<Rightarrow> Inl (ErrWrap ''failed to create etcd leader elector: '' e '''')
                 | None \<Rightarrow>
                     Inr \<lparr>ep_electionKey = key, ep_identity = ec_Identity cfg, ep_started = False,
                          ep_stopped = False\<rparr>)))"

definition etcd_Start :: "go_error option \<Rightarrow> etcd_provider \<Rightarrow> etcd_provider result" where
  "etcd_Start electorStart p =
     (if ep_started p then Inr p
      else case electorStart of
             Some e \<Rightarrow> Inl e
           | None \<Rightarrow> Inr (p\<lparr>ep_started := True\<rparr>))"

definition etcd_Stop :: "etcd_provider \<Rightarrow> etcd_provider" where
  "etcd_Stop p = (if ep_stopped p then p else p\<lparr>ep_started := False, ep_stopped := True\<rparr>)"

text \<open>A range response: the store's revision, and value and modification revision of the keys
  found.\<close>

record etcd_response =
  er_Revision :: nat
  er_Kvs :: "(string \<times> nat) list"

type_synonym etcd_get = "string \<Rightarrow> etcd_response option result"

definition election_prefix :: "string \<Rightarrow> string" where
  "election_prefix key = (if suffix ''/'' key then key else key @ ''/'')"

definition etcd_DispatchAuthority ::
    "etcd_get \<Rightarrow> bool \<Rightarrow> etcd_provider \<Rightarrow> LeadershipAuthority result" where
  "etcd_DispatchAuthority get localLeader p =
     (if \<not> ep_started p then Inl (ErrNew ''etcd leadership provider not started'')
      else case get (election_prefix (ep_electionKey p)) of
             Inl e \<Rightarrow> Inl (ErrWrap ''failed to query etcd leadership key: '' e '''')
           | Inr resp \<Rightarrow>
               (let (leaderID, epoch) =
                  (case resp of
                     None \<Rightarrow> ('''', '''')
                   | Some r \<Rightarrow>
                       (case er_Kvs r of
                          [] \<Rightarrow> ('''', decimal (er_Revision r))
                        | (val, modrev) # _ \<Rightarrow> (val, decimal modrev)))
                in Inr \<lparr>la_IsLeader = (localLeader \<and> leaderID = ep_identity p), la_Epoch = epoch,
                        la_LeaderID = leaderID, la_Scope = ''''\<rparr>))"

definition etcd_DispatchAuthorityForScope ::
    "etcd_get \<Rightarrow> bool \<Rightarrow> etcd_provider \<Rightarrow> string \<Rightarrow> LeadershipAuthority result" where
  "etcd_DispatchAuthorityForScope get localLeader p scope =
     (case etcd_DispatchAuthority get localLeader p of
        Inl e \<Rightarrow> Inl e
      | Inr auth \<Rightarrow> Inr (auth\<lparr>la_Scope := scope\<rparr>))"

definition etcdLeadershipProvider :: "etcd_get \<Rightarrow> bool \<Rightarrow> etcd_provider \<Rightarrow> leadership_provider" where
  "etcdLeadershipProvider get localLeader p =
     \<lparr>lp_authority = etcd_DispatchAuthority get localLeader p,
      lp_scoped = Some (etcd_DispatchAuthorityForScope get localLeader p)\<rparr>"

section \<open>The authority stamped onto a dispatch\<close>

record DispatchAuthority =
  da_LeaderID :: string
  da_Epoch :: string
  da_Scope :: string

text \<open>\<^verbatim>\<open>fmt.Sprintf("%v", value)\<close>.\<close>

fun fmt_v :: "go_value \<Rightarrow> string" where
  "fmt_v VNil = ''<nil>''"
| "fmt_v (VBool b) = (if b then ''true'' else ''false'')"
| "fmt_v (VInt i) = decimal_int i"
| "fmt_v (VString s) = s"
| "fmt_v (VList vs) = ''['' @ join_blank (map fmt_v vs) @ '']''"
| "fmt_v (VMap kvs) =
     ''map['' @ join_blank (map (\<lambda>(k, t). k @ '':'' @ t)
        (sort_key fst (map (\<lambda>(k, v). (k, fmt_v v)) kvs))) @ '']''"

definition metadata :: "DispatchAuthority \<Rightarrow> (string, go_value) gomap" where
  "metadata a =
     (let put = (\<lambda>key v m. if trim_space v \<noteq> '''' then mput key (VString (trim_space v)) m else m)
      in put ''dispatch_scope'' (da_Scope a)
           (put ''dispatch_epoch'' (da_Epoch a)
             (put ''dispatch_leader_id'' (da_LeaderID a) [])))"

definition metadataString :: "(string, go_value) gomap \<Rightarrow> string \<Rightarrow> string" where
  "metadataString m key =
     (case mget m key of
        None \<Rightarrow> ''''
      | Some VNil \<Rightarrow> ''''
      | Some v \<Rightarrow> trim_space (fmt_v v))"

definition authorityFromMetadata :: "(string, go_value) gomap \<Rightarrow> DispatchAuthority" where
  "authorityFromMetadata m =
     (if m = [] then \<lparr>da_LeaderID = '''', da_Epoch = '''', da_Scope = ''''\<rparr>
      else \<lparr>da_LeaderID = metadataString m ''dispatch_leader_id'',
            da_Epoch = metadataString m ''dispatch_epoch'',
            da_Scope = metadataString m ''dispatch_scope''\<rparr>)"

definition authorityRejectionReason :: "go_error option \<Rightarrow> string" where
  "authorityRejectionReason err =
     (case err of
        None \<Rightarrow> ''unknown''
      | Some e \<Rightarrow>
          (let lowered = to_lower (error_text e) in
           if errors_is e ErrMissingDispatchAuthority then ''missing_authority''
           else if errors_is e ErrStaleDispatchAuthority then ''stale_epoch''
           else if str_contains lowered ''timeout'' \<or> errors_is e ContextDeadlineExceeded
           then ''network_timeout''
           else if str_contains lowered ''connection refused''
             \<or> str_contains lowered ''connection reset'' \<or> str_contains lowered ''unavailable''
           then ''transport_error''
           else ''authority_unavailable''))"

text \<open>\<^verbatim>\<open>EtcdDispatchAuthorityValidator.Validate\<close>; \<^const>\<open>None\<close> is the nil error.\<close>

definition validator_Validate ::
    "etcd_get \<Rightarrow> string \<Rightarrow> DispatchAuthority \<Rightarrow> go_error option" where
  "validator_Validate get electionKey a =
     (if trim_space (da_LeaderID a) = '''' \<or> trim_space (da_Epoch a) = ''''
      then Some (ErrWrap '''' (ErrSentinel ErrMissingDispatchAuthority)
             ('': leader_id='' @ quoted (da_LeaderID a) @ '' epoch='' @ quoted (da_Epoch a)))
      else case get (election_prefix electionKey) of
             Inl e \<Rightarrow> Some (ErrWrap (''query current dispatch authority at '' @ quoted electionKey
                       @ '': '') e '''')
           | Inr resp \<Rightarrow>
               (let (leaderID, epoch) =
                  (case resp of
                     None \<Rightarrow> ('''', '''')
                   | Some r \<Rightarrow>
                       (case er_Kvs r of [] \<Rightarrow> ('''', '''') | (val, modrev) # _ \<Rightarrow> (val, decimal modrev)))
                in if leaderID = '''' \<or> epoch = ''''
                   then Some (ErrWrap '''' (ErrSentinel ErrMissingDispatchAuthority)
                          ('': current dispatch authority unavailable in etcd at ''
                           @ quoted electionKey))
                   else if da_LeaderID a \<noteq> leaderID \<or> da_Epoch a \<noteq> epoch
                   then Some (ErrWrap '''' (ErrSentinel ErrStaleDispatchAuthority)
                          ('': request leader_id='' @ quoted (da_LeaderID a) @ '' epoch=''
                           @ quoted (da_Epoch a) @ '' current leader_id='' @ quoted leaderID
                           @ '' epoch='' @ quoted epoch))
                   else None))"

section \<open>Scopes, declaratively\<close>

definition scope_segment :: "string \<Rightarrow> bool" where
  "scope_segment s \<longleftrightarrow>
     (\<exists>key v. s = key @ '':'' @ v \<and> key \<noteq> [] \<and> v \<noteq> []
        \<and> (\<forall>c \<in> set key. scope_key_char c) \<and> (\<forall>c \<in> set v. scope_value_char c))"

fun join_semicolon :: "string list \<Rightarrow> string" where
  "join_semicolon [] = []"
| "join_semicolon [s] = s"
| "join_semicolon (s # ss) = s @ '';'' @ join_semicolon ss"

lemma separators_not_key [simp]:
  "\<not> scope_key_char (CHR '':'')" "\<not> scope_key_char (CHR '';'')" "\<not> scope_value_char (CHR '';'')"
  by (simp_all add: scope_key_char_def scope_value_char_def alnum_def less_eq_char_def)

lemma scopeSegmentPattern_iff: "scopeSegmentPattern s \<longleftrightarrow> scope_segment s"
proof
  assume pat: "scopeSegmentPattern s"
  then obtain v where v: "dropWhile scope_key_char s = CHR '':'' # v" "v \<noteq> []"
    "list_all scope_value_char v" "takeWhile scope_key_char s \<noteq> []"
    by (auto simp: scopeSegmentPattern_def split: list.splits)
  have "s = takeWhile scope_key_char s @ '':'' @ v"
    using v(1) takeWhile_dropWhile_id [of scope_key_char s] by simp
  then show "scope_segment s"
    unfolding scope_segment_def using v(2-4) by (metis list_all_iff set_takeWhileD)
next
  assume "scope_segment s"
  then obtain key v where s: "s = key @ '':'' @ v" "key \<noteq> []" "v \<noteq> []"
    "\<forall>c \<in> set key. scope_key_char c" "\<forall>c \<in> set v. scope_value_char c"
    by (auto simp: scope_segment_def)
  then have "takeWhile scope_key_char s = key" "dropWhile scope_key_char s = CHR '':'' # v"
    by (simp_all add: takeWhile_append dropWhile_append)
  with s show "scopeSegmentPattern s" by (simp add: scopeSegmentPattern_def list_all_iff)
qed

lemma scope_segment_no_semicolon: "scope_segment s \<Longrightarrow> CHR '';'' \<notin> set s"
  using separators_not_key(2,3) by (fastforce simp: scope_segment_def)

lemma scope_segment_not_Nil: "scope_segment s \<Longrightarrow> s \<noteq> []"
  by (auto simp: scope_segment_def)

lemma scope_loop_segment:
  "CHR '';'' \<notin> set s \<Longrightarrow> scope_loop seg (s @ rest) = scope_loop (seg @ s) rest"
  by (induction s arbitrary: seg) auto

lemma scope_loop_sound:
  "scope_loop seg s \<Longrightarrow> CHR '';'' \<notin> set seg \<Longrightarrow>
   \<exists>segs. segs \<noteq> [] \<and> seg @ s = join_semicolon segs \<and> (\<forall>x \<in> set segs. scope_segment x)"
proof (induction seg s rule: scope_loop.induct)
  case (1 seg)
  then show ?case
    by (intro exI [of _ "[seg]"]) (simp add: scopeSegmentPattern_iff)
next
  case (2 seg c cs)
  show ?case
  proof (cases "c = CHR '';''")
    case False
    with 2 show ?thesis by simp
  next
    case True
    with 2 obtain segs where segs: "segs \<noteq> []" "cs = join_semicolon segs"
      "\<forall>x \<in> set segs. scope_segment x" "scope_segment seg"
      by (auto simp: scopeSegmentPattern_iff split: if_splits)
    then have "seg @ c # cs = join_semicolon (seg # segs)"
      using True by (cases segs) auto
    with segs show ?thesis by (intro exI [of _ "seg # segs"]) simp
  qed
qed

lemma scope_loop_complete:
  "segs \<noteq> [] \<Longrightarrow> \<forall>x \<in> set segs. scope_segment x \<Longrightarrow> scope_loop [] (join_semicolon segs)"
proof (induction segs rule: join_semicolon.induct)
  case (2 s)
  then show ?case
    using scope_loop_segment [of s "[]" "[]"] scope_segment_no_semicolon scope_segment_not_Nil
    by (simp add: scopeSegmentPattern_iff)
next
  case (3 s s' ss)
  then show ?case
    using scope_loop_segment [of s "[]" "'';'' @ join_semicolon (s' # ss)"]
      scope_segment_no_semicolon scope_segment_not_Nil
    by (simp add: scopeSegmentPattern_iff)
qed simp

section \<open>Properties\<close>

text \<open>C34. A scope is valid exactly when it is empty or a semicolon-separated, non-empty list of
  segments \<^verbatim>\<open>key:value\<close> over the documented characters.\<close>

theorem IsValidScope_iff:
  "IsValidScope scope \<longleftrightarrow>
     scope = '''' \<or> (\<exists>segs. segs \<noteq> [] \<and> scope = join_semicolon segs
                     \<and> list_all scope_segment segs)"
  using scope_loop_sound [of "[]" scope] scope_loop_complete
  by (auto simp: IsValidScope_def list_all_iff)

lemma etcd_authority_Inr:
  assumes "etcd_DispatchAuthority get localLeader p = Inr auth" "la_IsLeader auth"
    "ep_identity p \<noteq> ''''"
  obtains r val modrev rest where
    "get (election_prefix (ep_electionKey p)) = Inr (Some r)" "er_Kvs r = (val, modrev) # rest"
    "la_LeaderID auth = val" "la_Epoch auth = decimal modrev" "val = ep_identity p" "localLeader"
  using assms
  by (auto simp: etcd_DispatchAuthority_def Let_def
      split: if_splits sum.splits option.splits list.splits prod.splits)



text \<open>C26. Stale authority is refused: once the election key holds another leader, or the same leader
  in a new term, the validator answers with the stale-authority error, which is reported under the
  reason \<^verbatim>\<open>stale_epoch\<close>.\<close>

theorem stale_authority_refused:
  assumes "get (election_prefix key) = Inr (Some r)" "er_Kvs r = (leader, modrev) # rest"
    and "leader \<noteq> ''''" "trim_space (da_LeaderID a) \<noteq> ''''" "da_Epoch a = decimal modrev'"
    and "da_LeaderID a \<noteq> leader \<or> modrev' \<noteq> modrev"
  shows "\<exists>e. validator_Validate get key a = Some e \<and> errors_is e ErrStaleDispatchAuthority
           \<and> authorityRejectionReason (Some e) = ''stale_epoch''"
proof -
  have "trim_space (decimal modrev') = decimal modrev'" by (simp add: trim_space_id decimal_no_space)
  with assms show ?thesis
    by (auto simp: validator_Validate_def authorityRejectionReason_def Let_def)
qed

theorem stale_authority_refused_witness:
  "\<exists>e. validator_Validate (\<lambda>_. Inr (Some \<lparr>er_Revision = 9, er_Kvs = [(''api-1'', 8)]\<rparr>)) ''/k''
         \<lparr>da_LeaderID = ''api-1'', da_Epoch = decimal 7, da_Scope = ''''\<rparr> = Some e
       \<and> errors_is e ErrStaleDispatchAuthority"
proof -
  have "trim_space ''api-1'' \<noteq> ''''" by code_simp
  then show ?thesis
    using stale_authority_refused [of "\<lambda>_. Inr (Some \<lparr>er_Revision = 9, er_Kvs = [(''api-1'', 8)]\<rparr>)"
        "''/k''" "\<lparr>er_Revision = 9, er_Kvs = [(''api-1'', 8)]\<rparr>" "''api-1''" 8 "[]"
        "\<lparr>da_LeaderID = ''api-1'', da_Epoch = decimal 7, da_Scope = ''''\<rparr>" 7]
    by auto
qed

text \<open>C33. Authority survives the trip through the dispatch metadata: what the worker reads back is
  what the scheduler wrote, without surrounding white space.\<close>

theorem authority_metadata_roundtrip:
  "authorityFromMetadata (metadata a) =
     \<lparr>da_LeaderID = trim_space (da_LeaderID a), da_Epoch = trim_space (da_Epoch a),
      da_Scope = trim_space (da_Scope a)\<rparr>"
  by (simp add: authorityFromMetadata_def metadata_def metadataString_def Let_def trim_space_idem)

text \<open>The authority returned for a scope carries the requested scope, except where a scoped
  provider sets a scope of its own; both providers of the repository return the requested one. An
  invalid scope is refused.\<close>

lemma DispatchAuthorityForScope_scope:
  "(case DispatchAuthorityForScope provider scope of
      Inl e \<Rightarrow> True
    | Inr auth \<Rightarrow>
        IsValidScope scope
        \<and> (la_Scope auth = scope
           \<or> (case lp_scoped provider of
                None \<Rightarrow> False
              | Some scoped \<Rightarrow> scoped scope = Inr auth \<and> la_Scope auth \<noteq> '''')))
   \<and> (\<not> IsValidScope scope \<longleftrightarrow>
        DispatchAuthorityForScope (staticLeadershipProvider authority) scope =
        Inl (ErrWrap '''' (ErrSentinel ErrInvalidScope) ('': '' @ quoted scope)))
   \<and> (case DispatchAuthorityForScope (etcdLeadershipProvider get localLeader p) scope of
        Inl e \<Rightarrow> True | Inr auth \<Rightarrow> la_Scope auth = scope)"
  by (auto simp: DispatchAuthorityForScope_def staticLeadershipProvider_def
      etcdLeadershipProvider_def etcd_DispatchAuthorityForScope_def
      split: sum.splits option.splits if_splits)

end
