(* ===== verification/Affinity.thy ===== *)
theory Affinity
  imports Dagens_Prelude
begin

text \<open>
  The partition-to-node affinity map, \<^verbatim>\<open>pkg/scheduler/affinity.go\<close>. Every method holds the map's
  mutex, so each is one step on the record; a time argument is what \<^verbatim>\<open>time.Now()\<close> returns in it.
  The lemmas give the effect of every method on every key, and show that cleanup removes exactly
  the entries that have been idle longer than the TTL.
\<close>

record AffinityEntry =
  ae_NodeID :: string
  ae_CreatedAt :: time
  ae_LastUsedAt :: time
  ae_HitCount :: int

record AffinityMap =
  am_entries :: "(string, AffinityEntry) gomap"
  am_ttl :: duration
  am_stopped :: bool

record AffinityResult =
  ar_NodeID :: string
  ar_IsHit :: bool
  ar_IsStale :: bool
  ar_PartitionKey :: string

section \<open>Methods\<close>

definition NewAffinityMap :: "duration \<Rightarrow> AffinityMap" where
  "NewAffinityMap ttl = \<lparr>am_entries = [], am_ttl = ttl, am_stopped = False\<rparr>"

definition affinity_Get :: "string \<Rightarrow> AffinityMap \<Rightarrow> AffinityEntry option" where
  "affinity_Get key am = mget (am_entries am) key"

definition affinity_Set :: "time \<Rightarrow> string \<Rightarrow> string \<Rightarrow> AffinityMap \<Rightarrow> AffinityEntry \<times> AffinityMap" where
  "affinity_Set now key nodeID am =
     (let entry = \<lparr>ae_NodeID = nodeID, ae_CreatedAt = now, ae_LastUsedAt = now, ae_HitCount = 1\<rparr>
      in (entry, am\<lparr>am_entries := mput key entry (am_entries am)\<rparr>))"

definition affinity_Touch :: "time \<Rightarrow> string \<Rightarrow> AffinityMap \<Rightarrow> bool \<times> AffinityMap" where
  "affinity_Touch now key am =
     (case mget (am_entries am) key of
        None \<Rightarrow> (False, am)
      | Some entry \<Rightarrow>
          (True, am\<lparr>am_entries := mput key
             (entry\<lparr>ae_LastUsedAt := now, ae_HitCount := ae_HitCount entry + 1\<rparr>) (am_entries am)\<rparr>))"

definition affinity_Delete :: "string \<Rightarrow> AffinityMap \<Rightarrow> AffinityMap" where
  "affinity_Delete key am = am\<lparr>am_entries := mdel key (am_entries am)\<rparr>"

definition affinity_Size :: "AffinityMap \<Rightarrow> int" where
  "affinity_Size am = int (length (am_entries am))"

definition affinity_GetAll :: "AffinityMap \<Rightarrow> (string, AffinityEntry) gomap" where
  "affinity_GetAll am = fold (\<lambda>(k, v) out. mput k v out) (am_entries am) []"

definition affinity_expiredKeys :: "time \<Rightarrow> AffinityMap \<Rightarrow> string list" where
  "affinity_expiredKeys now am =
     map fst (filter (\<lambda>(_, entry). am_ttl am < now - ae_LastUsedAt entry) (am_entries am))"

definition cleanupExpired :: "time \<Rightarrow> AffinityMap \<Rightarrow> AffinityMap" where
  "cleanupExpired now am =
     am\<lparr>am_entries := fold mdel (affinity_expiredKeys now am) (am_entries am)\<rparr>"

text \<open>The background loop: the events it receives, a tick with the time at which it runs or the
  closing of the stop channel.\<close>

datatype cleanup_event = CleanupTick time | CleanupStop

fun cleanupLoop :: "cleanup_event list \<Rightarrow> AffinityMap \<Rightarrow> AffinityMap" where
  "cleanupLoop [] am = am"
| "cleanupLoop (CleanupStop # es) am = am"
| "cleanupLoop (CleanupTick now # es) am = cleanupLoop es (cleanupExpired now am)"

text \<open>Closing the stop channel a second time panics.\<close>

definition affinity_Stop :: "AffinityMap \<Rightarrow> AffinityMap option" where
  "affinity_Stop am = (if am_stopped am then None else Some (am\<lparr>am_stopped := True\<rparr>))"

lemmas affinity_defs [sched_defs] =
  affinity_Get_def affinity_Set_def affinity_Touch_def affinity_Delete_def

section \<open>Lemmas\<close>

lemma mget_fold_mdel: "mget (fold mdel ks m) k = (if k \<in> set ks then None else mget m k)"
  by (induction ks arbitrary: m) auto

lemma wf_map_fold_mdel: "wf_map m \<Longrightarrow> wf_map (fold mdel ks m)"
  by (induction ks arbitrary: m) auto

lemma affinity_wf:
  assumes "wf_map (am_entries am)"
  shows "wf_map (am_entries (snd (affinity_Set now key nodeID am)))"
    and "wf_map (am_entries (snd (affinity_Touch now key am)))"
    and "wf_map (am_entries (affinity_Delete key am))"
    and "wf_map (am_entries (cleanupExpired now am))"
  using assms
  by (auto simp: affinity_Set_def affinity_Touch_def affinity_Delete_def cleanupExpired_def
      wf_map_fold_mdel Let_def split: option.splits)

lemma affinity_Get_Set:
  "affinity_Get k (snd (affinity_Set now key nodeID am)) =
     (if k = key then Some (fst (affinity_Set now key nodeID am)) else affinity_Get k am)"
  by (simp add: affinity_Get_def affinity_Set_def Let_def)

lemma affinity_Get_Touch:
  "affinity_Get k (snd (affinity_Touch now key am)) =
     (if k = key then map_option (\<lambda>e. e\<lparr>ae_LastUsedAt := now, ae_HitCount := ae_HitCount e + 1\<rparr>)
        (affinity_Get k am) else affinity_Get k am)"
  by (auto simp: affinity_Get_def affinity_Touch_def split: option.splits)

lemma affinity_Get_cleanup:
  assumes "wf_map (am_entries am)"
  shows "affinity_Get key (cleanupExpired now am) =
     (case affinity_Get key am of
        None \<Rightarrow> None
      | Some e \<Rightarrow> if am_ttl am < now - ae_LastUsedAt e then None else Some e)"
proof -
  have "key \<in> set (affinity_expiredKeys now am) \<longleftrightarrow>
      (\<exists>e. mget (am_entries am) key = Some e \<and> am_ttl am < now - ae_LastUsedAt e)"
    unfolding wf_map_mget_iff [OF assms] by (force simp: affinity_expiredKeys_def)
  then show ?thesis
    by (auto simp: affinity_Get_def cleanupExpired_def mget_fold_mdel split: option.splits)
qed

section \<open>Properties\<close>

text \<open>C35. A cleanup pass keeps an affinity exactly when it was used within the TTL, and keeps it
  unchanged; so an affinity touched at a time stays through every cleanup within the TTL after
  it.\<close>

theorem affinity_cleanup_exact:
  assumes "wf_map (am_entries am)"
  shows "affinity_Get key (cleanupExpired now am) =
           (case affinity_Get key am of
              None \<Rightarrow> None
            | Some e \<Rightarrow> if am_ttl am < now - ae_LastUsedAt e then None else Some e)
         \<and> (fst (affinity_Touch t key am) \<longrightarrow> now - t \<le> am_ttl am \<longrightarrow>
              affinity_Get key (cleanupExpired now (snd (affinity_Touch t key am))) =
              affinity_Get key (snd (affinity_Touch t key am)))"
proof (intro conjI impI)
  show "affinity_Get key (cleanupExpired now am) =
           (case affinity_Get key am of
              None \<Rightarrow> None
            | Some e \<Rightarrow> if am_ttl am < now - ae_LastUsedAt e then None else Some e)"
    by (rule affinity_Get_cleanup [OF assms])
  assume "fst (affinity_Touch t key am)" "now - t \<le> am_ttl am"
  then show "affinity_Get key (cleanupExpired now (snd (affinity_Touch t key am))) =
      affinity_Get key (snd (affinity_Touch t key am))"
    unfolding affinity_Get_cleanup [OF affinity_wf(2) [OF assms]]
    by (auto simp: affinity_Get_def affinity_Touch_def split: option.splits)
qed

definition example_affinity :: AffinityMap where
  "example_affinity =
     snd (affinity_Set 40 ''p2'' ''n2'' (snd (affinity_Set 10 ''p1'' ''n1'' (NewAffinityMap 50))))"

theorem affinity_cleanup_exact_witness:
  "affinity_Get ''p1'' (cleanupExpired 70 example_affinity) = None
   \<and> affinity_Get ''p2'' (cleanupExpired 70 example_affinity) \<noteq> None
   \<and> affinity_Get ''p1'' (cleanupExpired 70 (snd (affinity_Touch 20 ''p1'' example_affinity))) \<noteq> None"
proof -
  have wf: "wf_map (am_entries example_affinity)" by code_simp
  have "affinity_Get ''p1'' example_affinity \<noteq> None"
    "(case affinity_Get ''p1'' example_affinity of None \<Rightarrow> None
      | Some e \<Rightarrow> if am_ttl example_affinity < 70 - ae_LastUsedAt e then None else Some e) = None"
    "(case affinity_Get ''p2'' example_affinity of None \<Rightarrow> None
      | Some e \<Rightarrow> if am_ttl example_affinity < 70 - ae_LastUsedAt e then None else Some e) \<noteq> None"
    "fst (affinity_Touch 20 ''p1'' example_affinity)" "70 - 20 \<le> am_ttl example_affinity"
    "affinity_Get ''p1'' (snd (affinity_Touch 20 ''p1'' example_affinity)) \<noteq> None"
    by code_simp+
  with affinity_cleanup_exact [OF wf, of "''p1''" 70 20] affinity_cleanup_exact [OF wf, of "''p2''" 70 20]
  show ?thesis by presburger
qed

end
