(* ===== verification/Sched_State.thy ===== *)
theory Sched_State
  imports Store_Interface Replay Sched_Config Leadership Affinity
begin

text \<open>
  The data of the scheduler: jobs, stages and tasks of \<^verbatim>\<open>pkg/scheduler/types.go\<close>, the parts of
  \<^verbatim>\<open>pkg/agent\<close> and \<^verbatim>\<open>pkg/registry\<close> it handles, the \<^verbatim>\<open>Scheduler\<close> struct of
  \<^verbatim>\<open>pkg/scheduler/scheduler.go\<close>, and the environment it runs in.

  Jobs are pointers in Go and shared between the job map, the queue and the running loop, so the
  state has a heap of jobs and the maps hold references. Stages and tasks belong to one job and are
  values inside it; a task is addressed by its job, stage and position. Nil stages and tasks do not
  occur. Metrics, logs, tracing spans and locks have no counterpart: every method is modelled in
  the order in which it runs its critical sections.

  Whatever the scheduler asks of the outside world it reads from the environment at the current
  tick, and every such read moves the tick: the clock, the leadership provider, the registry's
  healthy nodes, the executor, the database driver, and the state of the context.
\<close>

section \<open>Jobs\<close>

datatype JobStatus =
    JobPending | JobRunning | JobCompleted | JobFailed | JobBlocked | JobAwaitingHuman
  | JobSuspended | JobStatusOther string

record AgentInput =
  ai_TaskID :: string
  ai_Instruction :: string
  ai_Context :: "(string, go_value) gomap"
  ai_Tools :: "go_value list"
  ai_Model :: string
  ai_MaxRetries :: int
  ai_Timeout :: duration

record AgentOutput =
  ao_TaskID :: string
  ao_Result :: go_value
  ao_Metadata :: "(string, go_value) gomap"
  ao_Error :: "go_error option"
  ao_ExecutionLog :: "go_value list"
  ao_Metrics :: "go_value option"

record Task =
  tk_ID :: string
  tk_StageID :: string
  tk_JobID :: string
  tk_AgentID :: string
  tk_AgentName :: string
  tk_Input :: "AgentInput option"
  tk_Output :: "AgentOutput option"
  tk_PartitionKey :: string
  tk_Status :: JobStatus
  tk_LifecycleState :: TaskLifecycleState
  tk_Attempts :: int

record Stage =
  sg_ID :: string
  sg_JobID :: string
  sg_Tasks :: "Task list"
  sg_Dependencies :: "string list"
  sg_Status :: JobStatus

record Job =
  jb_ID :: string
  jb_Name :: string
  jb_Stages :: "Stage list"
  jb_Edges :: "(string \<times> string) list"
  jb_Status :: JobStatus
  jb_LifecycleState :: JobLifecycleState
  jb_CreatedAt :: time
  jb_UpdatedAt :: time
  jb_Metadata :: "(string, go_value) gomap"

definition NewJob :: "time \<Rightarrow> time \<Rightarrow> string \<Rightarrow> string \<Rightarrow> Job" where
  "NewJob now1 now2 jobID name =
     \<lparr>jb_ID = jobID, jb_Name = name, jb_Stages = [], jb_Edges = [], jb_Status = JobPending,
      jb_LifecycleState = JobStateSubmitted, jb_CreatedAt = now1, jb_UpdatedAt = now2,
      jb_Metadata = []\<rparr>"

definition AddStage :: "Stage \<Rightarrow> Job \<Rightarrow> Job" where
  "AddStage stage job = job\<lparr>jb_Stages := jb_Stages job @ [stage]\<rparr>"

definition job_tasks :: "Job \<Rightarrow> Task list" where
  "job_tasks job = concat (map sg_Tasks (jb_Stages job))"

section \<open>Copies\<close>

definition cloneMap :: "(string, go_value) gomap \<Rightarrow> (string, go_value) gomap" where
  "cloneMap src = (if src = [] then [] else fold (\<lambda>(k, v) dst. mput k v dst) src [])"

definition cloneAgentInput :: "AgentInput option \<Rightarrow> AgentInput option" where
  "cloneAgentInput input =
     map_option (\<lambda>i. \<lparr>ai_TaskID = ai_TaskID i, ai_Instruction = ai_Instruction i,
        ai_Context = cloneMap (ai_Context i), ai_Tools = ai_Tools i, ai_Model = ai_Model i,
        ai_MaxRetries = ai_MaxRetries i, ai_Timeout = ai_Timeout i\<rparr>) input"

definition cloneAgentOutput :: "AgentOutput option \<Rightarrow> AgentOutput option" where
  "cloneAgentOutput output =
     map_option (\<lambda>r. \<lparr>ao_TaskID = ao_TaskID r, ao_Result = ao_Result r,
        ao_Metadata = cloneMap (ao_Metadata r), ao_Error = ao_Error r,
        ao_ExecutionLog = ao_ExecutionLog r, ao_Metrics = ao_Metrics r\<rparr>) output"

definition clone_task :: "Task \<Rightarrow> Task" where
  "clone_task t =
     \<lparr>tk_ID = tk_ID t, tk_StageID = tk_StageID t, tk_JobID = tk_JobID t, tk_AgentID = tk_AgentID t,
      tk_AgentName = tk_AgentName t, tk_Input = cloneAgentInput (tk_Input t),
      tk_Output = cloneAgentOutput (tk_Output t), tk_PartitionKey = tk_PartitionKey t,
      tk_Status = tk_Status t, tk_LifecycleState = tk_LifecycleState t,
      tk_Attempts = tk_Attempts t\<rparr>"

definition clone_stage :: "Stage \<Rightarrow> Stage" where
  "clone_stage g =
     \<lparr>sg_ID = sg_ID g, sg_JobID = sg_JobID g, sg_Tasks = map clone_task (sg_Tasks g),
      sg_Dependencies = sg_Dependencies g, sg_Status = sg_Status g\<rparr>"

definition cloneJob :: "Job \<Rightarrow> Job" where
  "cloneJob job =
     \<lparr>jb_ID = jb_ID job, jb_Name = jb_Name job, jb_Stages = map clone_stage (jb_Stages job),
      jb_Edges = jb_Edges job, jb_Status = jb_Status job,
      jb_LifecycleState = jb_LifecycleState job, jb_CreatedAt = jb_CreatedAt job,
      jb_UpdatedAt = jb_UpdatedAt job, jb_Metadata = cloneMap (jb_Metadata job)\<rparr>"

section \<open>Nodes and environment\<close>

record NodeInfo =
  ni_ID :: string
  ni_Name :: string
  ni_Address :: string
  ni_Port :: int
  ni_Capabilities :: "string list"
  ni_Metadata :: "(string, string) gomap"
  ni_LastSeen :: time
  ni_Healthy :: bool

record nodeCapacity =
  nc_ReservedInFlight :: int
  nc_ReportedInFlight :: int
  nc_MaxConcurrency :: int
  nc_LastUpdated :: time

text \<open>The events a capacity deferral waits for: the context's end, the timeout, or a poll.\<close>

datatype deferral_event = DeferDone go_error | DeferTimeout | DeferPoll

text \<open>The environment, read at a tick. \<open>ev_exec\<close> is the executor: the authority in its context, node,
  agent name and input to output or error; \<open>ev_ctx\<close> the error of the context in use; \<open>ev_choice\<close> the
  branch a \<^verbatim>\<open>select\<close> takes when several are ready; \<open>ev_deferral\<close> the events of one capacity
  deferral; \<open>ev_scan_ctx\<close> and \<open>ev_scan_faults\<close> the context checks and driver faults of one replay.
  \<open>ev_rank\<close> orders the keys of a map for one \<^verbatim>\<open>range\<close> over it: Go leaves the order open, and every
  order is the one of some ranking. \<open>ev_marshal\<close> and \<open>ev_unmarshal\<close> are the JSON codec of
  \<^verbatim>\<open>agent.AgentInput\<close>.\<close>

record env =
  ev_now :: "nat \<Rightarrow> time"
  ev_authority :: "nat \<Rightarrow> LeadershipAuthority result"
  ev_nodes :: "nat \<Rightarrow> NodeInfo list"
  ev_exec :: "nat \<Rightarrow> DispatchAuthority \<Rightarrow> string \<Rightarrow> string \<Rightarrow> AgentInput option
    \<Rightarrow> AgentOutput option result"
  ev_faults :: "nat \<Rightarrow> pg_faults"
  ev_ctx :: "nat \<Rightarrow> go_error option"
  ev_choice :: "nat \<Rightarrow> bool"
  ev_deferral :: "nat \<Rightarrow> deferral_event list"
  ev_scan_ctx :: "nat \<Rightarrow> nat \<Rightarrow> nat \<Rightarrow> go_error option"
  ev_scan_faults :: "nat \<Rightarrow> nat \<Rightarrow> pg_faults"
  ev_rank :: "nat \<Rightarrow> string \<Rightarrow> nat"
  ev_marshal :: "AgentInput \<Rightarrow> string option"
  ev_unmarshal :: "string \<Rightarrow> AgentInput option"

type_synonym job_ref = nat
type_synonym task_ref = "nat \<times> nat \<times> nat"

section \<open>The scheduler\<close>

record Scheduler =
  sc_heap :: "(job_ref, Job) gomap"
  sc_next :: job_ref
  sc_jobs :: "(string, job_ref) gomap"
  sc_jobQueue :: "job_ref list"
  sc_queuedJobs :: "(string, unit) gomap"
  sc_config :: SchedulerConfig
  sc_affinityMap :: "AffinityMap option"
  sc_nodeIndex :: nat
  sc_nodeCapacity :: "(string, nodeCapacity) gomap"
  sc_dispatchCooldowns :: "(string, time) gomap"
  sc_transitionStore :: "transition_store option"
  sc_jobSequences :: "(string, nat) gomap"
  sc_started :: bool
  sc_recovering :: bool
  sc_stopRequested :: bool
  sc_replayQuarantine :: "(string, time) gomap"
  sc_pendingEnqueue :: int
  sc_lastReconcileTime :: time
  sc_tick :: nat

text \<open>The zero job stands for an address that has not been allocated.\<close>

definition zero_job :: Job where
  "zero_job =
     \<lparr>jb_ID = '''', jb_Name = '''', jb_Stages = [], jb_Edges = [],
      jb_Status = JobStatusOther '''', jb_LifecycleState = JobStateUnset, jb_CreatedAt = 0,
      jb_UpdatedAt = 0, jb_Metadata = []\<rparr>"

definition newSchedulerWithValidatedConfig :: "SchedulerConfig \<Rightarrow> Scheduler" where
  "newSchedulerWithValidatedConfig config =
     \<lparr>sc_heap = [], sc_next = 0, sc_jobs = [], sc_jobQueue = [], sc_queuedJobs = [],
      sc_config = config,
      sc_affinityMap =
        (if cf_EnableStickiness config then Some (NewAffinityMap (cf_AffinityTTL config)) else None),
      sc_nodeIndex = 0, sc_nodeCapacity = [], sc_dispatchCooldowns = [],
      sc_transitionStore = Some (MemoryStore NewInMemoryTransitionStore),
      sc_jobSequences = [], sc_started = False, sc_recovering = False, sc_stopRequested = False,
      sc_replayQuarantine = [], sc_pendingEnqueue = 0, sc_lastReconcileTime = 0, sc_tick = 0\<rparr>"

definition NewSchedulerWithConfig :: "SchedulerConfig \<Rightarrow> Scheduler" where
  "NewSchedulerWithConfig config = newSchedulerWithValidatedConfig (config_Validate config)"

definition NewScheduler :: Scheduler where
  "NewScheduler = NewSchedulerWithConfig DefaultSchedulerConfig"

definition NewSchedulerWithBenchmarkQueueCapacity :: "SchedulerConfig \<Rightarrow> int \<Rightarrow> Scheduler" where
  "NewSchedulerWithBenchmarkQueueCapacity config queueCapacity =
     (let config = config_Validate config
      in newSchedulerWithValidatedConfig
           (if 0 < queueCapacity then config\<lparr>cf_JobQueueSize := queueCapacity\<rparr> else config))"

section \<open>Reading the environment\<close>

definition step_tick :: "Scheduler \<Rightarrow> Scheduler" where
  "step_tick s = s\<lparr>sc_tick := Suc (sc_tick s)\<rparr>"

definition time_Now :: "env \<Rightarrow> Scheduler \<Rightarrow> time \<times> Scheduler" where
  "time_Now ev s = (ev_now ev (sc_tick s), step_tick s)"

text \<open>\<^verbatim>\<open>dispatchAuthority\<close>; a nil provider is replaced by the default one, which
  \<open>ev_authority\<close> may describe.\<close>

definition dispatchAuthority :: "env \<Rightarrow> Scheduler \<Rightarrow> LeadershipAuthority result \<times> Scheduler" where
  "dispatchAuthority ev s = (ev_authority ev (sc_tick s), step_tick s)"

definition GetHealthyNodes :: "env \<Rightarrow> Scheduler \<Rightarrow> NodeInfo list \<times> Scheduler" where
  "GetHealthyNodes ev s = (ev_nodes ev (sc_tick s), step_tick s)"

definition read_ctx :: "env \<Rightarrow> Scheduler \<Rightarrow> go_error option \<times> Scheduler" where
  "read_ctx ev s = (ev_ctx ev (sc_tick s), step_tick s)"

section \<open>The heap\<close>

definition deref :: "Scheduler \<Rightarrow> job_ref \<Rightarrow> Job" where
  "deref s r = mget_or zero_job (sc_heap s) r"

definition upd_job :: "job_ref \<Rightarrow> (Job \<Rightarrow> Job) \<Rightarrow> Scheduler \<Rightarrow> Scheduler" where
  "upd_job r f s = s\<lparr>sc_heap := mput r (f (deref s r)) (sc_heap s)\<rparr>"

definition alloc_job :: "Job \<Rightarrow> Scheduler \<Rightarrow> job_ref \<times> Scheduler" where
  "alloc_job job s =
     (sc_next s, s\<lparr>sc_heap := mput (sc_next s) job (sc_heap s), sc_next := Suc (sc_next s)\<rparr>)"

definition upd_nth :: "nat \<Rightarrow> ('a \<Rightarrow> 'a) \<Rightarrow> 'a list \<Rightarrow> 'a list" where
  "upd_nth i f xs = (if i < length xs then xs[i := f (xs ! i)] else xs)"

definition upd_stage :: "job_ref \<Rightarrow> nat \<Rightarrow> (Stage \<Rightarrow> Stage) \<Rightarrow> Scheduler \<Rightarrow> Scheduler" where
  "upd_stage r i f = upd_job r (\<lambda>j. j\<lparr>jb_Stages := upd_nth i f (jb_Stages j)\<rparr>)"

fun get_task :: "Scheduler \<Rightarrow> task_ref \<Rightarrow> Task" where
  "get_task s (r, i, k) = sg_Tasks (jb_Stages (deref s r) ! i) ! k"

fun upd_task :: "task_ref \<Rightarrow> (Task \<Rightarrow> Task) \<Rightarrow> Scheduler \<Rightarrow> Scheduler" where
  "upd_task (r, i, k) f = upd_stage r i (\<lambda>g. g\<lparr>sg_Tasks := upd_nth k f (sg_Tasks g)\<rparr>)"

fun task_ok :: "Scheduler \<Rightarrow> task_ref \<Rightarrow> bool" where
  "task_ok s (r, i, k) \<longleftrightarrow>
     i < length (jb_Stages (deref s r)) \<and> k < length (sg_Tasks (jb_Stages (deref s r) ! i))"

section \<open>Lemmas\<close>

lemma cloneMap_id: "wf_map m \<Longrightarrow> cloneMap m = m"
  by (simp add: cloneMap_def clone_map_id)

lemma step_tick_simps [simp]:
  "sc_heap (step_tick s) = sc_heap s" "sc_next (step_tick s) = sc_next s"
  "sc_jobs (step_tick s) = sc_jobs s" "sc_jobQueue (step_tick s) = sc_jobQueue s"
  "sc_queuedJobs (step_tick s) = sc_queuedJobs s" "sc_config (step_tick s) = sc_config s"
  "sc_affinityMap (step_tick s) = sc_affinityMap s" "sc_nodeIndex (step_tick s) = sc_nodeIndex s"
  "sc_nodeCapacity (step_tick s) = sc_nodeCapacity s"
  "sc_dispatchCooldowns (step_tick s) = sc_dispatchCooldowns s"
  "sc_transitionStore (step_tick s) = sc_transitionStore s"
  "sc_jobSequences (step_tick s) = sc_jobSequences s"
  "sc_started (step_tick s) = sc_started s" "sc_recovering (step_tick s) = sc_recovering s"
  "sc_stopRequested (step_tick s) = sc_stopRequested s"
  "sc_replayQuarantine (step_tick s) = sc_replayQuarantine s"
  "sc_pendingEnqueue (step_tick s) = sc_pendingEnqueue s"
  "sc_lastReconcileTime (step_tick s) = sc_lastReconcileTime s"
  "deref (step_tick s) = deref s"
  by (simp_all add: step_tick_def deref_def fun_eq_iff)

lemma upd_job_simps [simp]:
  "sc_next (upd_job r f s) = sc_next s" "sc_jobs (upd_job r f s) = sc_jobs s"
  "sc_jobQueue (upd_job r f s) = sc_jobQueue s" "sc_queuedJobs (upd_job r f s) = sc_queuedJobs s"
  "sc_config (upd_job r f s) = sc_config s" "sc_affinityMap (upd_job r f s) = sc_affinityMap s"
  "sc_nodeIndex (upd_job r f s) = sc_nodeIndex s"
  "sc_nodeCapacity (upd_job r f s) = sc_nodeCapacity s"
  "sc_dispatchCooldowns (upd_job r f s) = sc_dispatchCooldowns s"
  "sc_transitionStore (upd_job r f s) = sc_transitionStore s"
  "sc_jobSequences (upd_job r f s) = sc_jobSequences s"
  "sc_started (upd_job r f s) = sc_started s" "sc_recovering (upd_job r f s) = sc_recovering s"
  "sc_stopRequested (upd_job r f s) = sc_stopRequested s"
  "sc_replayQuarantine (upd_job r f s) = sc_replayQuarantine s"
  "sc_pendingEnqueue (upd_job r f s) = sc_pendingEnqueue s"
  "sc_lastReconcileTime (upd_job r f s) = sc_lastReconcileTime s"
  "sc_tick (upd_job r f s) = sc_tick s"
  "deref (upd_job r f s) r' = (if r' = r then f (deref s r) else deref s r')"
  by (simp_all add: upd_job_def deref_def)

lemma length_upd_nth [simp]: "length (upd_nth i f xs) = length xs"
  by (simp add: upd_nth_def)

lemma nth_upd_nth: "j < length xs \<Longrightarrow> upd_nth i f xs ! j = (if j = i then f (xs ! i) else xs ! j)"
  by (auto simp: upd_nth_def)

end
