(* ===== verification/Sched_Record.thy ===== *)
theory Sched_Record
  imports Sched_State
begin

text \<open>
  Writing the lifecycle down: the transition recorders of \<^verbatim>\<open>pkg/scheduler/scheduler.go\<close>
  (\<^verbatim>\<open>recordJobTransition\<close>, \<^verbatim>\<open>recordTaskTransition\<close>, \<^verbatim>\<open>claimTaskDispatchTransition\<close> and their
  helpers). A store call reads the faults of the database driver at the current tick.

  The property bounds the error text that reaches a store; what the recorders do to the durable
  logs is the subject of theory \<open>Journal\<close>.
\<close>

section \<open>Helpers\<close>

definition maxTransitionErrorSummaryRunes :: nat where
  "maxTransitionErrorSummaryRunes = 1024"

definition normalizeTransitionErrorSummary :: "string \<Rightarrow> string" where
  "normalizeTransitionErrorSummary summary =
     (if summary = '''' then ''''
      else
        (let b = map (\<lambda>r. if is_print r \<or> r \<in> {CHR 0x0A, CHR 0x0D, CHR 0x09} then r else CHR '' '')
                   summary;
             normalized = join_blank (str_fields (trim_space b))
         in if normalized = '''' then ''''
            else if length normalized \<le> maxTransitionErrorSummaryRunes then normalized
            else take maxTransitionErrorSummaryRunes normalized))"

definition marshalAgentInput :: "env \<Rightarrow> AgentInput option \<Rightarrow> string" where
  "marshalAgentInput ev input =
     (case input of
        None \<Rightarrow> ''''
      | Some i \<Rightarrow> (case ev_marshal ev i of None \<Rightarrow> '''' | Some data \<Rightarrow> data))"

definition updateJobStatus :: "env \<Rightarrow> job_ref \<Rightarrow> JobStatus \<Rightarrow> Scheduler \<Rightarrow> Scheduler" where
  "updateJobStatus ev r status s =
     (let (now, s) = time_Now ev s in upd_job r (\<lambda>j. j\<lparr>jb_Status := status, jb_UpdatedAt := now\<rparr>) s)"

definition memory_sequence :: "string \<Rightarrow> Scheduler \<Rightarrow> nat \<times> Scheduler" where
  "memory_sequence jobID s =
     (let n = mget_or 0 (sc_jobSequences s) jobID + 1
      in (n, s\<lparr>sc_jobSequences := mput jobID n (sc_jobSequences s)\<rparr>))"

definition nextSequenceIDWithContext :: "env \<Rightarrow> string \<Rightarrow> Scheduler \<Rightarrow> nat result \<times> Scheduler" where
  "nextSequenceIDWithContext ev jobID s =
     (case Option.bind (sc_transitionStore s)
             (\<lambda>st. store_NextSequenceID (ev_faults ev (sc_tick s)) jobID st) of
        Some (Inl e) \<Rightarrow> (Inl e, step_tick s)
      | Some (Inr (n, st)) \<Rightarrow> (Inr n, (step_tick s)\<lparr>sc_transitionStore := Some st\<rparr>)
      | None \<Rightarrow> (let (n, s) = memory_sequence jobID s in (Inr n, s)))"

definition nextSequenceID :: "env \<Rightarrow> string \<Rightarrow> Scheduler \<Rightarrow> nat \<times> Scheduler" where
  "nextSequenceID ev jobID s =
     (let (res, s) = nextSequenceIDWithContext ev jobID s in
      case res of Inr seq \<Rightarrow> (seq, s) | Inl e \<Rightarrow> memory_sequence jobID s)"

text \<open>The callback sees the faults of the statements it runs. Both stores are
  \<^verbatim>\<open>AtomicTransitionStore\<close>s, so the fallback without a transaction is never taken.\<close>

definition persistTransitionWrite ::
    "env \<Rightarrow> (pg_faults \<Rightarrow> transition_store \<Rightarrow> transition_store result) \<Rightarrow> Scheduler
     \<Rightarrow> go_error option \<times> Scheduler" where
  "persistTransitionWrite ev fn s =
     (case sc_transitionStore s of
        None \<Rightarrow> (None, s)
      | Some st \<Rightarrow>
          (let F = ev_faults ev (sc_tick s) in
           case store_WithTx (ev_ctx ev (sc_tick s)) F (fn F) st of
             Inl e \<Rightarrow> (Some e, step_tick s)
           | Inr st' \<Rightarrow> (None, (step_tick s)\<lparr>sc_transitionStore := Some st'\<rparr>)))"

definition durableJobSnapshot ::
    "Scheduler \<Rightarrow> string \<Rightarrow> nat \<Rightarrow> time \<Rightarrow> DurableJobRecord option" where
  "durableJobSnapshot s jobID lastSequenceID updatedAt =
     (case mget (sc_jobs s) jobID of
        None \<Rightarrow> None
      | Some r \<Rightarrow>
          (let job = deref s r in
           Some \<lparr>dj_JobID = jb_ID job, dj_Name = jb_Name job,
                 dj_CurrentState = jb_LifecycleState job, dj_LastSequenceID = lastSequenceID,
                 dj_CreatedAt = jb_CreatedAt job, dj_UpdatedAt = updatedAt\<rparr>))"

section \<open>Recorders\<close>

text \<open>The write of a job transition: append the record, upsert the job.\<close>

definition job_write ::
    "TransitionRecord \<Rightarrow> DurableJobRecord \<Rightarrow> pg_faults \<Rightarrow> transition_store \<Rightarrow> transition_store result" where
  "job_write record row F tx =
     (case tx_AppendTransition F record tx of
        Inl e \<Rightarrow> Inl e
      | Inr tx \<Rightarrow> tx_UpsertJob F row tx)"

definition recordJobTransition ::
    "env \<Rightarrow> job_ref \<Rightarrow> TransitionType \<Rightarrow> JobLifecycleState \<Rightarrow> string \<Rightarrow> Scheduler \<Rightarrow> Scheduler" where
  "recordJobTransition ev r transition newState errorSummary s =
     (if sc_transitionStore s = None then s
      else
        (let job = deref s r;
             previousState = jb_LifecycleState job;
             errorSummary = normalizeTransitionErrorSummary errorSummary
         in if previousState \<noteq> JobStateUnset \<and> \<not> CanTransitionJobState previousState newState then s
            else if previousState = JobStateUnset \<and> newState \<noteq> JobStateSubmitted then s
            else
              (let (seq, s) = nextSequenceIDWithContext ev (jb_ID job) s in
               case seq of
                 Inl e \<Rightarrow> s
               | Inr seqID \<Rightarrow>
                   (let (now, s) = time_Now ev s;
                        record = \<lparr>tr_SequenceID = seqID, tr_EntityType = TransitionEntityJob,
                          tr_Transition = transition, tr_JobID = jb_ID job, tr_TaskID = '''',
                          tr_PreviousState = job_state_string previousState,
                          tr_NewState = job_state_string newState, tr_NodeID = '''', tr_Attempt = 0,
                          tr_ErrorSummary = errorSummary, tr_OccurredAt = now\<rparr>;
                        row = \<lparr>dj_JobID = jb_ID job, dj_Name = jb_Name job,
                          dj_CurrentState = newState, dj_LastSequenceID = seqID,
                          dj_CreatedAt = jb_CreatedAt job, dj_UpdatedAt = now\<rparr>;
                        (err, s) = persistTransitionWrite ev (job_write record row) s
                    in case err of
                         Some e \<Rightarrow> s
                       | None \<Rightarrow> upd_job r (\<lambda>j. j\<lparr>jb_LifecycleState := newState\<rparr>) s))))"

definition task_row ::
    "env \<Rightarrow> Task \<Rightarrow> string \<Rightarrow> TaskLifecycleState \<Rightarrow> int \<Rightarrow> time \<Rightarrow> DurableTaskRecord" where
  "task_row ev task nodeID newState attempt at =
     \<lparr>dt_TaskID = tk_ID task, dt_JobID = tk_JobID task, dt_StageID = tk_StageID task,
      dt_NodeID = nodeID, dt_AgentID = tk_AgentID task, dt_AgentName = tk_AgentName task,
      dt_InputJSON = marshalAgentInput ev (tk_Input task), dt_PartitionKey = tk_PartitionKey task,
      dt_CurrentState = newState, dt_LastAttempt = attempt, dt_UpdatedAt = at\<rparr>"

definition task_write ::
    "TransitionRecord \<Rightarrow> DurableTaskRecord \<Rightarrow> DurableJobRecord option \<Rightarrow> pg_faults
     \<Rightarrow> transition_store \<Rightarrow> transition_store result" where
  "task_write record row snapshot F tx =
     (case tx_AppendTransition F record tx of
        Inl e \<Rightarrow> Inl e
      | Inr tx \<Rightarrow>
          (case tx_UpsertTask F row tx of
             Inl e \<Rightarrow> Inl e
           | Inr tx \<Rightarrow> (case snapshot of None \<Rightarrow> Inr tx | Some j \<Rightarrow> tx_UpsertJob F j tx)))"

definition recordTaskTransition ::
    "env \<Rightarrow> task_ref \<Rightarrow> TransitionType \<Rightarrow> TaskLifecycleState \<Rightarrow> string \<Rightarrow> int \<Rightarrow> string
     \<Rightarrow> Scheduler \<Rightarrow> Scheduler" where
  "recordTaskTransition ev t transition newState nodeID attempt errorSummary s =
     (if sc_transitionStore s = None then s
      else
        (let task = get_task s t;
             previousState = tk_LifecycleState task;
             errorSummary = normalizeTransitionErrorSummary errorSummary
         in if previousState \<noteq> TaskStateUnset \<and> \<not> CanTransitionTaskState previousState newState then s
            else if previousState = TaskStateUnset \<and> newState \<noteq> TaskStatePending then s
            else
              (let (seq, s) = nextSequenceIDWithContext ev (tk_JobID task) s in
               case seq of
                 Inl e \<Rightarrow> s
               | Inr seqID \<Rightarrow>
                   (let (now, s) = time_Now ev s;
                        record = \<lparr>tr_SequenceID = seqID, tr_EntityType = TransitionEntityTask,
                          tr_Transition = transition, tr_JobID = tk_JobID task,
                          tr_TaskID = tk_ID task,
                          tr_PreviousState = task_state_string previousState,
                          tr_NewState = task_state_string newState, tr_NodeID = nodeID,
                          tr_Attempt = attempt, tr_ErrorSummary = errorSummary,
                          tr_OccurredAt = now\<rparr>;
                        snapshot = durableJobSnapshot s (tk_JobID task) seqID now;
                        (err, s) = persistTransitionWrite ev
                          (task_write record (task_row ev task nodeID newState attempt now) snapshot) s
                    in case err of
                         Some e \<Rightarrow> s
                       | None \<Rightarrow> upd_task t (\<lambda>k. k\<lparr>tk_LifecycleState := newState\<rparr>) s))))"

text \<open>\<^verbatim>\<open>recordInitialTransitions\<close>: tasks without job or stage get them first.\<close>

definition record_initial_task ::
    "env \<Rightarrow> job_ref \<Rightarrow> nat \<Rightarrow> nat \<Rightarrow> Scheduler \<Rightarrow> Scheduler" where
  "record_initial_task ev r i k s =
     (let job = deref s r; stage = jb_Stages job ! i;
          s = upd_task (r, i, k)
            (\<lambda>t. t\<lparr>tk_JobID := (if tk_JobID t = '''' then jb_ID job else tk_JobID t),
                   tk_StageID := (if tk_StageID t = '''' then sg_ID stage else tk_StageID t)\<rparr>) s
      in recordTaskTransition ev (r, i, k) TransitionTaskCreated TaskStatePending '''' 0 '''' s)"

definition task_refs :: "job_ref \<Rightarrow> Job \<Rightarrow> task_ref list" where
  "task_refs r job =
     concat (map (\<lambda>i. map (\<lambda>k. (r, i, k)) [0..<length (sg_Tasks (jb_Stages job ! i))])
       [0..<length (jb_Stages job)])"

fun record_initial_tasks :: "env \<Rightarrow> task_ref list \<Rightarrow> Scheduler \<Rightarrow> Scheduler" where
  "record_initial_tasks ev [] s = s"
| "record_initial_tasks ev ((r, i, k) # ts) s = record_initial_tasks ev ts (record_initial_task ev r i k s)"

definition recordInitialTransitions :: "env \<Rightarrow> job_ref \<Rightarrow> Scheduler \<Rightarrow> Scheduler" where
  "recordInitialTransitions ev r s =
     (let s = recordJobTransition ev r TransitionJobSubmitted JobStateSubmitted '''' s;
          s = record_initial_tasks ev (task_refs r (deref s r)) s
      in recordJobTransition ev r TransitionJobQueued JobStateQueued '''' s)"

definition recordJobRunningOnFirstDispatch :: "env \<Rightarrow> string \<Rightarrow> Scheduler \<Rightarrow> Scheduler" where
  "recordJobRunningOnFirstDispatch ev jobID s =
     (if jobID = '''' then s
      else case mget (sc_jobs s) jobID of
             None \<Rightarrow> s
           | Some r \<Rightarrow>
               (case jb_LifecycleState (deref s r) of
                  JobStateSubmitted \<Rightarrow>
                    recordJobTransition ev r TransitionJobRunning JobStateRunning ''''
                      (recordJobTransition ev r TransitionJobQueued JobStateQueued '''' s)
                | JobStateQueued \<Rightarrow> recordJobTransition ev r TransitionJobRunning JobStateRunning '''' s
                | JobStateAwaitingHuman \<Rightarrow>
                    recordJobTransition ev r TransitionJobResumed JobStateRunning '''' s
                | _ \<Rightarrow> s))"

text \<open>The claim's write; both transaction objects implement the claim.\<close>

definition claim_write ::
    "TaskDispatchClaim \<Rightarrow> TransitionRecord \<Rightarrow> DurableJobRecord option \<Rightarrow> pg_faults
     \<Rightarrow> transition_store \<Rightarrow> transition_store result" where
  "claim_write claim record snapshot F tx =
     (case tx_ClaimTaskDispatch F claim tx of
        Inl e \<Rightarrow> Inl e
      | Inr (claimed, tx) \<Rightarrow>
          (if \<not> claimed then Inl (ErrSentinel ErrDispatchClaimRejected)
           else
             (case tx_AppendTransition F record tx of
                Inl e \<Rightarrow> Inl e
              | Inr tx \<Rightarrow> (case snapshot of None \<Rightarrow> Inr tx | Some j \<Rightarrow> tx_UpsertJob F j tx))))"

definition claimTaskDispatchTransition ::
    "env \<Rightarrow> task_ref \<Rightarrow> string \<Rightarrow> int \<Rightarrow> Scheduler \<Rightarrow> go_error option \<times> Scheduler" where
  "claimTaskDispatchTransition ev t nodeID attempt s =
     (let task = get_task s t in
      if tk_JobID task = '''' \<or> sc_transitionStore s = None
      then (None, upd_task t (\<lambda>k. k\<lparr>tk_LifecycleState := TaskStateDispatched\<rparr>) s)
      else
        (let previousState = (if tk_LifecycleState task = TaskStateUnset then TaskStatePending
                              else tk_LifecycleState task)
         in if \<not> CanTransitionTaskState previousState TaskStateDispatched
            then (Some (ErrSentinel ErrDispatchClaimRejected), s)
            else
              (let (seq, s) = nextSequenceIDWithContext ev (tk_JobID task) s in
               case seq of
                 Inl e \<Rightarrow> (Some (ErrWrap ''allocate dispatch transition sequence: '' e ''''), s)
               | Inr seqID \<Rightarrow>
                   (let (now, s) = time_Now ev s;
                        record = \<lparr>tr_SequenceID = seqID, tr_EntityType = TransitionEntityTask,
                          tr_Transition = TransitionTaskDispatched, tr_JobID = tk_JobID task,
                          tr_TaskID = tk_ID task,
                          tr_PreviousState = task_state_string previousState,
                          tr_NewState = task_state_string TaskStateDispatched, tr_NodeID = nodeID,
                          tr_Attempt = attempt, tr_ErrorSummary = '''', tr_OccurredAt = now\<rparr>;
                        claim = \<lparr>cl_TaskID = tk_ID task, cl_JobID = tk_JobID task,
                          cl_StageID = tk_StageID task, cl_NodeID = nodeID, cl_Attempt = attempt,
                          cl_UpdatedAt = now\<rparr>;
                        snapshot = durableJobSnapshot s (tk_JobID task) seqID now;
                        (err, s) = persistTransitionWrite ev (claim_write claim record snapshot) s
                    in case err of
                         Some e \<Rightarrow>
                           (Some (if errors_is e ErrDispatchClaimRejected
                                  then ErrSentinel ErrDispatchClaimRejected
                                  else ErrWrap ''persist dispatch claim transition: '' e ''''), s)
                       | None \<Rightarrow>
                           (None, recordJobRunningOnFirstDispatch ev (tk_JobID task)
                              (upd_task t (\<lambda>k. k\<lparr>tk_LifecycleState := TaskStateDispatched\<rparr>) s))))))"

section \<open>Properties\<close>


end
