(* ===== verification/Journal.thy ===== *)
theory Journal
  imports Sched_Record
begin

text \<open>
  The journal invariant of the scheduler. \<open>sync\<close> says: every durable log is a legal history; for a
  job the scheduler holds, the sequence counter covers the log, and the last state the log gives to
  the job and to each of its tasks is the state in memory. Every recorder of theory \<open>Sched_Record\<close>
  keeps it, whatever the clock, the database and the context do. So what the recorders wrote can
  always be replayed, and replay rebuilds the states in memory.

  \<open>only_records\<close> and \<open>only_journal\<close> are the frames: what a recorder leaves alone.
\<close>

section \<open>What the writes do to the logs\<close>

fun pg_seqs :: "transition_store \<Rightarrow> (string, nat) gomap option" where
  "pg_seqs (MemoryStore m) = None"
| "pg_seqs (PostgresStore p) = Some (pg_sequences p)"

lemma tx_AppendTransition_seqs: "tx_AppendTransition F r s = Inr s' \<Longrightarrow> pg_seqs s' = pg_seqs s"
  by (cases s) (auto simp: in_memory_Inr in_postgres_Inr dest: pg_AppendTransition_Inr(5))

lemma tx_UpsertJob_seqs: "tx_UpsertJob F j s = Inr s' \<Longrightarrow> pg_seqs s' = pg_seqs s"
  by (cases s) (auto simp: in_postgres_Inr pgtx_UpsertJob_def Let_def split: option.splits)

lemma tx_UpsertTask_seqs: "tx_UpsertTask F t s = Inr s' \<Longrightarrow> pg_seqs s' = pg_seqs s"
  by (cases s) (auto simp: in_postgres_Inr pgtx_UpsertTask_def split: option.splits)

lemma tx_claim_rows_seqs: "tx_claim_rows c s = (ok, s') \<Longrightarrow> pg_seqs s' = pg_seqs s"
  by (cases s) (auto simp: pg_claim_rows_def map_prod_def split: option.splits if_splits prod.splits)

text \<open>A write callback that appends one record and changes no other log.\<close>

definition appends ::
    "TransitionRecord \<Rightarrow> (pg_faults \<Rightarrow> transition_store \<Rightarrow> transition_store result) \<Rightarrow> bool" where
  "appends record fn \<longleftrightarrow>
     (\<forall>F st st'. fn F st = Inr st' \<longrightarrow>
        Validate record = None \<and> pg_seqs st' = pg_seqs st \<and> (store_invar st \<longrightarrow> store_invar st')
        \<and> (\<forall>jobID. store_log st' jobID =
              (if jobID = tr_JobID record
               then sort_key tr_SequenceID (store_log st jobID @ [record]) else store_log st jobID)))"

lemma appendsD:
  assumes "appends record fn" "fn F st = Inr st'"
  shows "Validate record = None" "pg_seqs st' = pg_seqs st" "store_invar st \<Longrightarrow> store_invar st'"
    "store_log st' jobID =
       (if jobID = tr_JobID record
        then sort_key tr_SequenceID (store_log st jobID @ [record]) else store_log st jobID)"
  using assms unfolding appends_def by blast+

lemma tx_AppendTransition_appends: "appends r (\<lambda>F. tx_AppendTransition F r)"
  unfolding appends_def
  by (auto intro: tx_AppendTransition_Inr(1) tx_AppendTransition_Inr(5) tx_AppendTransition_seqs
      simp: tx_AppendTransition_Inr(2))

lemma job_write_appends: "appends record (job_write record row)"
  unfolding appends_def
proof (intro allI impI)
  fix F st st' assume "job_write record row F st = Inr st'"
  then obtain st1 where st1: "tx_AppendTransition F record st = Inr st1"
    and st': "tx_UpsertJob F row st1 = Inr st'"
    by (auto simp: job_write_def split: sum.splits)
  note a = appendsD [OF tx_AppendTransition_appends st1]
  show "Validate record = None \<and> pg_seqs st' = pg_seqs st \<and> (store_invar st \<longrightarrow> store_invar st')
        \<and> (\<forall>jobID. store_log st' jobID =
              (if jobID = tr_JobID record
               then sort_key tr_SequenceID (store_log st jobID @ [record]) else store_log st jobID))"
    using a tx_UpsertJob_Inr(1,5) [OF st'] tx_UpsertJob_seqs [OF st'] by simp
qed

lemma snapshot_write:
  assumes "(case snapshot of None \<Rightarrow> Inr st1 | Some j \<Rightarrow> tx_UpsertJob F j st1) = Inr st'"
  shows "pg_seqs st' = pg_seqs st1" "store_invar st1 \<Longrightarrow> store_invar st'"
    "store_log st' = store_log st1" "store_task st' = store_task st1"
  using assms
  by (auto split: option.splits dest: tx_UpsertJob_seqs tx_UpsertJob_Inr(1,2) tx_UpsertJob_Inr(5))

lemma task_write_appends: "appends record (task_write record row snapshot)"
  unfolding appends_def
proof (intro allI impI)
  fix F st st' assume "task_write record row snapshot F st = Inr st'"
  then obtain st1 st2 where st1: "tx_AppendTransition F record st = Inr st1"
    and st2: "tx_UpsertTask F row st1 = Inr st2"
    and st': "(case snapshot of None \<Rightarrow> Inr st2 | Some j \<Rightarrow> tx_UpsertJob F j st2) = Inr st'"
    by (auto simp: task_write_def split: sum.splits)
  note a = appendsD [OF tx_AppendTransition_appends st1]
  show "Validate record = None \<and> pg_seqs st' = pg_seqs st \<and> (store_invar st \<longrightarrow> store_invar st')
        \<and> (\<forall>jobID. store_log st' jobID =
              (if jobID = tr_JobID record
               then sort_key tr_SequenceID (store_log st jobID @ [record]) else store_log st jobID))"
    using a tx_UpsertTask_Inr(1,4) [OF st2] tx_UpsertTask_seqs [OF st2] snapshot_write [OF st']
    by simp
qed

lemma claim_write_Inr:
  assumes "claim_write claim record snapshot F st = Inr st'"
  obtains st1 st2 where "tx_claim_rows claim st = (True, st1)"
    "tx_AppendTransition F record st1 = Inr st2"
    "(case snapshot of None \<Rightarrow> Inr st2 | Some j \<Rightarrow> tx_UpsertJob F j st2) = Inr st'"
proof -
  obtain ok st1 where c: "tx_ClaimTaskDispatch F claim st = Inr (ok, st1)"
    using assms by (auto simp: claim_write_def split: sum.splits)
  with assms have "ok" by (auto simp: claim_write_def split: if_splits)
  with assms c obtain st2 where "tx_AppendTransition F record st1 = Inr st2"
    "(case snapshot of None \<Rightarrow> Inr st2 | Some j \<Rightarrow> tx_UpsertJob F j st2) = Inr st'"
    by (auto simp: claim_write_def split: sum.splits)
  moreover have "tx_claim_rows claim st = (True, st1)"
    using tx_ClaimTaskDispatch_Inr [OF c] \<open>ok\<close> by simp
  ultimately show thesis by (rule that [rotated])
qed

lemma claim_write_appends: "appends record (claim_write claim record snapshot)"
  unfolding appends_def
proof (intro allI impI)
  fix F st st' assume "claim_write claim record snapshot F st = Inr st'"
  then obtain st1 st2 where st1: "tx_claim_rows claim st = (True, st1)"
    and st2: "tx_AppendTransition F record st1 = Inr st2"
    and st': "(case snapshot of None \<Rightarrow> Inr st2 | Some j \<Rightarrow> tx_UpsertJob F j st2) = Inr st'"
    by (rule claim_write_Inr)
  note a = appendsD [OF tx_AppendTransition_appends st2]
  show "Validate record = None \<and> pg_seqs st' = pg_seqs st \<and> (store_invar st \<longrightarrow> store_invar st')
        \<and> (\<forall>jobID. store_log st' jobID =
              (if jobID = tr_JobID record
               then sort_key tr_SequenceID (store_log st jobID @ [record]) else store_log st jobID))"
    using a tx_claim_rows_log [OF st1] tx_claim_rows_seqs [OF st1] snapshot_write [OF st'] by simp
qed

section \<open>The durable half of the invariant\<close>

definition log_of :: "Scheduler \<Rightarrow> string \<Rightarrow> TransitionRecord list" where
  "log_of s jobID = (case sc_transitionStore s of None \<Rightarrow> [] | Some st \<Rightarrow> store_log st jobID)"

lemma log_of_sequences [simp]: "log_of (s\<lparr>sc_jobSequences := m\<rparr>) = log_of s"
  by (simp add: log_of_def fun_eq_iff)

text \<open>The last sequence number handed out for a job, if a counter exists.\<close>

definition counter :: "Scheduler \<Rightarrow> string \<Rightarrow> nat option" where
  "counter s jobID =
     (case sc_transitionStore s of
        None \<Rightarrow> None
      | Some st \<Rightarrow>
          (case pg_seqs st of
             None \<Rightarrow> Some (mget_or 0 (sc_jobSequences s) jobID)
           | Some m \<Rightarrow> mget m jobID))"

definition seq_covered :: "Scheduler \<Rightarrow> string \<Rightarrow> bool" where
  "seq_covered s jobID \<longleftrightarrow>
     (\<forall>n. counter s jobID = Some n \<longrightarrow> (\<forall>r \<in> set (log_of s jobID). tr_SequenceID r \<le> n))"

text \<open>A durable allocator never hands out a number the log already has.\<close>

definition store_covered :: "transition_store \<Rightarrow> bool" where
  "store_covered st \<longleftrightarrow>
     (\<forall>m jobID n. pg_seqs st = Some m \<longrightarrow> mget m jobID = Some n \<longrightarrow>
        (\<forall>r \<in> set (store_log st jobID). tr_SequenceID r \<le> n))"

definition durable_ok :: "Scheduler \<Rightarrow> bool" where
  "durable_ok s \<longleftrightarrow>
     (\<exists>st. sc_transitionStore s = Some st \<and> store_invar st \<and> store_covered st)
     \<and> (\<forall>jobID. legal_log jobID (log_of s jobID))"

text \<open>The recorders write the store, the sequence counters and the tick; their in-memory effect is
  on the heap.\<close>

definition only_records :: "Scheduler \<Rightarrow> Scheduler \<Rightarrow> bool" where
  "only_records s s' \<longleftrightarrow>
     s\<lparr>sc_transitionStore := sc_transitionStore s', sc_jobSequences := sc_jobSequences s',
       sc_tick := sc_tick s'\<rparr> = s'"

lemma only_records_refl [simp, intro!]: "only_records s s"
  by (simp add: only_records_def)

lemma only_records_trans: "only_records s s' \<Longrightarrow> only_records s' s'' \<Longrightarrow> only_records s s''"
  by (cases s; cases s'; cases s'') (simp add: only_records_def)

lemma only_records_frame:
  assumes "only_records s s'"
  shows "sc_jobs s' = sc_jobs s" "deref s' = deref s" "get_task s' = get_task s" "task_ok s' = task_ok s"
    "sc_next s' = sc_next s"
proof -
  show "sc_jobs s' = sc_jobs s" "sc_next s' = sc_next s" and d: "deref s' = deref s"
    using assms by (cases s; cases s'; simp add: only_records_def deref_def fun_eq_iff)+
  show "get_task s' = get_task s" "task_ok s' = task_ok s" by (auto simp: fun_eq_iff d)
qed

lemma pg_seqs_next:
  assumes "store_NextSequenceID F jobID st = Some (Inr (n, st'))"
  shows "store_log st' = store_log st" "store_invar st \<Longrightarrow> store_invar st'"
    "\<exists>m. pg_seqs st = Some m \<and> pg_seqs st' = Some (mput jobID n m)
       \<and> ((\<forall>k. mget m jobID = Some k \<longrightarrow> (\<forall>r \<in> set (store_log st jobID). tr_SequenceID r \<le> k)) \<longrightarrow>
          (\<forall>r \<in> set (store_log st jobID). tr_SequenceID r < n))"
proof -
  obtain p where p: "st = PostgresStore p" "st' = PostgresStore (p\<lparr>pg_sequences := mput jobID n (pg_sequences p)\<rparr>)"
    and n: "pg_NextSequenceID F jobID p = Inr (n, p\<lparr>pg_sequences := mput jobID n (pg_sequences p)\<rparr>)"
    using assms
    by (cases st) (auto simp: map_sum_def pg_NextSequenceID_def Let_def split: sum.splits if_splits option.splits)
  show "store_log st' = store_log st" by (simp add: p pg_log_def fun_eq_iff)
  show "store_invar st \<Longrightarrow> store_invar st'" using pg_NextSequenceID_invar [OF _ n] by (simp add: p)
  show "\<exists>m. pg_seqs st = Some m \<and> pg_seqs st' = Some (mput jobID n m)
       \<and> ((\<forall>k. mget m jobID = Some k \<longrightarrow> (\<forall>r \<in> set (store_log st jobID). tr_SequenceID r \<le> k)) \<longrightarrow>
          (\<forall>r \<in> set (store_log st jobID). tr_SequenceID r < n))"
    using pg_NextSequenceID_fresh(1) [OF n] by (simp add: p pg_seq_covered_def)
qed

lemma nextSequence_Inr:
  assumes "durable_ok s" "nextSequenceIDWithContext ev jobID s = (Inr n, s')"
  shows "durable_ok s'" "counter s' j = (if j = jobID then Some n else counter s j)"
    "log_of s' = log_of s" "only_records s s'"
    "seq_covered s jobID \<Longrightarrow> \<forall>r \<in> set (log_of s jobID). tr_SequenceID r < n"
proof -
  obtain st where st: "sc_transitionStore s = Some st" "store_invar st" "store_covered st"
    using assms(1) by (auto simp: durable_ok_def)
  have legal: "legal_log j (log_of s j)" for j
    using assms(1) by (simp add: durable_ok_def)
  have "durable_ok s' \<and> (\<forall>j. counter s' j = (if j = jobID then Some n else counter s j))
      \<and> log_of s' = log_of s \<and> only_records s s'
      \<and> (seq_covered s jobID \<longrightarrow> (\<forall>r \<in> set (log_of s jobID). tr_SequenceID r < n))"
  proof (cases "store_NextSequenceID (ev_faults ev (sc_tick s)) jobID st")
    case None
    then have mem: "pg_seqs st = None" by (cases st) auto
    have s': "s' = s\<lparr>sc_jobSequences := mput jobID n (sc_jobSequences s)\<rparr>"
      and n: "n = mget_or 0 (sc_jobSequences s) jobID + 1"
      using assms(2) None st(1) by (auto simp: nextSequenceIDWithContext_def memory_sequence_def Let_def)
    have "counter s jobID = Some (mget_or 0 (sc_jobSequences s) jobID)"
      by (simp add: counter_def st(1) mem)
    then have "seq_covered s jobID \<longrightarrow> (\<forall>r \<in> set (log_of s jobID). tr_SequenceID r < n)"
      by (auto simp: seq_covered_def n le_imp_less_Suc)
    then show ?thesis
      using st legal by (simp add: durable_ok_def s' counter_def only_records_def mem)
  next
    case (Some res)
    then obtain st' where res: "store_NextSequenceID (ev_faults ev (sc_tick s)) jobID st = Some (Inr (n, st'))"
      and s': "s' = (step_tick s)\<lparr>sc_transitionStore := Some st'\<rparr>"
      using assms(2) st(1) by (auto simp: nextSequenceIDWithContext_def split: sum.splits prod.splits)
    note nx = pg_seqs_next [OF res]
    obtain m where m: "pg_seqs st = Some m" "pg_seqs st' = Some (mput jobID n m)"
      "(\<forall>k. mget m jobID = Some k \<longrightarrow> (\<forall>r \<in> set (store_log st jobID). tr_SequenceID r \<le> k)) \<longrightarrow>
       (\<forall>r \<in> set (store_log st jobID). tr_SequenceID r < n)" using nx(3) by blast
    have log: "log_of s' = log_of s" by (simp add: s' log_of_def st(1) nx(1) fun_eq_iff)
    have "seq_covered s jobID \<longrightarrow> (\<forall>r \<in> set (log_of s jobID). tr_SequenceID r < n)"
      using m(3) by (simp add: seq_covered_def counter_def st(1) m(1) log_of_def)
    moreover have "store_covered st'"
      using st(3) m nx(1) unfolding store_covered_def by (auto intro: less_imp_le)
    then have "durable_ok s'"
      unfolding durable_ok_def log using nx(2) [OF st(2)] legal by (simp add: s')
    ultimately show ?thesis
      using log by (simp add: s' only_records_def step_tick_def counter_def st(1) m(1,2))
  qed
  then show "durable_ok s'" "counter s' j = (if j = jobID then Some n else counter s j)"
    "log_of s' = log_of s" "only_records s s'"
    "seq_covered s jobID \<Longrightarrow> \<forall>r \<in> set (log_of s jobID). tr_SequenceID r < n" by blast+
qed

lemma nextSequence_covered:
  assumes "durable_ok s" "nextSequenceIDWithContext ev jobID s = (Inr n, s')"
    and "seq_covered s j"
  shows "seq_covered s' j"
proof (cases "j = jobID")
  case True
  then show ?thesis
    using nextSequence_Inr [OF assms(1,2)] assms(3) by (auto simp: seq_covered_def intro: less_imp_le)
next
  case False
  then show ?thesis using nextSequence_Inr [OF assms(1,2)] assms(3) by (simp add: seq_covered_def)
qed

lemma durable_cong:
  assumes "sc_transitionStore s' = sc_transitionStore s" "sc_jobSequences s' = sc_jobSequences s"
  shows "log_of s' = log_of s" "counter s' = counter s" "durable_ok s' = durable_ok s"
    "seq_covered s' = seq_covered s"
proof -
  show log: "log_of s' = log_of s" using assms by (simp add: log_of_def fun_eq_iff)
  show "counter s' = counter s" unfolding counter_def assms ..
  then show "seq_covered s' = seq_covered s" by (simp add: seq_covered_def fun_eq_iff log)
  show "durable_ok s' = durable_ok s" using assms by (simp add: durable_ok_def log)
qed

lemma durable_ok_tick [simp]:
  "log_of (step_tick s) = log_of s" "counter (step_tick s) = counter s"
  "durable_ok (step_tick s) = durable_ok s" "seq_covered (step_tick s) = seq_covered s"
  by (rule durable_cong; simp)+

lemma only_records_tick [simp, intro!]: "only_records s (step_tick s)"
  by (simp add: only_records_def step_tick_def)

lemma nextSequence_Inl:
  assumes "nextSequenceIDWithContext ev jobID s = (Inl e, s')"
  shows "s' = step_tick s"
  using assms
  by (auto simp: nextSequenceIDWithContext_def Let_def split: option.splits sum.splits prod.splits)

lemma persist_error:
  assumes "persistTransitionWrite ev fn s = (Some e, s')"
  shows "s' = step_tick s"
  using assms by (auto simp: persistTransitionWrite_def Let_def split: option.splits sum.splits)

lemma persist_None:
  assumes "durable_ok s" "persistTransitionWrite ev fn s = (None, s')"
  obtains st st' where "sc_transitionStore s = Some st" "store_invar st" "store_covered st"
    "s' = (step_tick s)\<lparr>sc_transitionStore := Some st'\<rparr>" "fn (ev_faults ev (sc_tick s)) st = Inr st'"
proof -
  obtain st where st: "sc_transitionStore s = Some st" "store_invar st" "store_covered st"
    using assms(1) by (auto simp: durable_ok_def)
  obtain st' where "s' = (step_tick s)\<lparr>sc_transitionStore := Some st'\<rparr>"
    "fn (ev_faults ev (sc_tick s)) st = Inr st'"
    using assms(2) st by (auto simp: persistTransitionWrite_def Let_def split: sum.splits
        dest: store_WithTx_Inr)
  with st show thesis by (rule that)
qed

lemma persist_appends:
  assumes "durable_ok s" "appends record fn" "persistTransitionWrite ev fn s = (None, s')"
    and "counter s (tr_JobID record) = Some (tr_SequenceID record)"
    and "\<forall>r \<in> set (log_of s (tr_JobID record)). tr_SequenceID r < tr_SequenceID record"
    and "Validate record = None \<Longrightarrow>
      legal_log (tr_JobID record) (log_of s (tr_JobID record) @ [record])"
  shows "durable_ok s'" "only_records s s'" "Validate record = None"
    "log_of s' jobID =
       (if jobID = tr_JobID record then log_of s jobID @ [record] else log_of s jobID)"
    "seq_covered s jobID \<Longrightarrow> seq_covered s' jobID"
proof -
  obtain st st' where st: "sc_transitionStore s = Some st" "store_invar st" "store_covered st"
    and s': "s' = (step_tick s)\<lparr>sc_transitionStore := Some st'\<rparr>"
    and fn: "fn (ev_faults ev (sc_tick s)) st = Inr st'"
    using persist_None [OF assms(1,3)] .
  note ap = appendsD [OF assms(2) fn]
  have sort: "sort_key tr_SequenceID (log_of s (tr_JobID record) @ [record]) =
      log_of s (tr_JobID record) @ [record]"
    using assms(5) store_log_ok [OF st(2)]
    by (intro sort_append_last) (auto simp: log_ok_def log_of_def st(1) intro: less_imp_le)
  show log: "log_of s' jobID =
      (if jobID = tr_JobID record then log_of s jobID @ [record] else log_of s jobID)" for jobID
    using ap(4) [of jobID] sort by (simp add: s' log_of_def st(1))
  show "only_records s s'" by (simp add: s' only_records_def step_tick_def)
  show valid: "Validate record = None" by (rule ap(1))
  have "counter s' = counter s"
    by (simp add: fun_eq_iff counter_def s' st(1) ap(2) split: option.split)
  then show "seq_covered s jobID \<Longrightarrow> seq_covered s' jobID"
    using assms(4,5) by (auto simp: seq_covered_def log intro: less_imp_le)
  have "legal_log j (log_of s' j)" for j
    using assms(1,6) valid by (simp add: durable_ok_def log)
  moreover have "store_covered st'"
    using st(3) assms(4,5) log unfolding store_covered_def ap(2)
    by (auto simp: log_of_def s' st(1) counter_def intro: less_imp_le)
  ultimately show "durable_ok s'" using ap(3) [OF st(2)] by (simp add: durable_ok_def s')
qed

section \<open>The in-memory half of the invariant\<close>

text \<open>A job agrees with its log: the states the scheduler holds for the job and its tasks are the
  last ones of the log, and only the job's tasks have records. A task that is not attached to the
  job yet has none.\<close>

definition task_synced :: "TransitionRecord list \<Rightarrow> string \<Rightarrow> Task \<Rightarrow> bool" where
  "task_synced log jobID t \<longleftrightarrow>
     (tk_JobID t = jobID \<or> tk_JobID t = '''' \<and> task_states (tk_ID t) log = [])
     \<and> (task_states (tk_ID t) log = [] \<or> last (task_states (tk_ID t) log) = tk_LifecycleState t)"

definition job_synced :: "TransitionRecord list \<Rightarrow> Job \<Rightarrow> bool" where
  "job_synced log job \<longleftrightarrow>
     distinct (map tk_ID (job_tasks job))
     \<and> (job_states log = [] \<or> last (job_states log) = jb_LifecycleState job)
     \<and> (\<forall>t \<in> set (job_tasks job). task_synced log (jb_ID job) t)
     \<and> (\<forall>k. task_states k log \<noteq> [] \<longrightarrow> k \<in> set (map tk_ID (job_tasks job)))"

definition sync :: "Scheduler \<Rightarrow> bool" where
  "sync s \<longleftrightarrow>
     durable_ok s
     \<and> (\<forall>jobID r. mget (sc_jobs s) jobID = Some r \<longrightarrow>
          r < sc_next s \<and> jb_ID (deref s r) = jobID
          \<and> job_synced (log_of s jobID) (deref s r) \<and> seq_covered s jobID)"

lemma syncD:
  assumes "sync s" "mget (sc_jobs s) jobID = Some r"
  shows "jb_ID (deref s r) = jobID" "job_synced (log_of s jobID) (deref s r)" "seq_covered s jobID"
    "r < sc_next s"
  using assms by (auto simp: sync_def)

lemma sync_durable_ok: "sync s \<Longrightarrow> durable_ok s"
  by (simp add: sync_def)

lemma sync_frame:
  assumes "sync s" "durable_ok s'" "log_of s' = log_of s" "sc_jobs s' = sc_jobs s" "deref s' = deref s"
    and "\<And>j. seq_covered s j \<Longrightarrow> seq_covered s' j" "sc_next s' = sc_next s"
  shows "sync s'"
  using assms by (simp add: sync_def)

lemma sync_tick [simp]: "sync (step_tick s) = sync s"
  by (simp add: sync_def)

text \<open>One object and one log change together, the others stay.\<close>

lemma sync_update:
  assumes "sync s" "mget (sc_jobs s) jobID = Some r" "durable_ok s'"
    and "sc_jobs s' = sc_jobs s" "\<And>r'. r' \<noteq> r \<Longrightarrow> deref s' r' = deref s r'"
    and "\<And>j. j \<noteq> jobID \<Longrightarrow> log_of s' j = log_of s j"
    and "jb_ID (deref s' r) = jobID" "job_synced (log_of s' jobID) (deref s' r)"
    and "\<And>j. seq_covered s j \<Longrightarrow> seq_covered s' j" "sc_next s' = sc_next s"
  shows "sync s'"
  unfolding sync_def
proof (intro conjI allI impI)
  show "durable_ok s'" by fact
  fix j r' assume r': "mget (sc_jobs s') j = Some r'"
  then have old: "jb_ID (deref s r') = j" "job_synced (log_of s j) (deref s r')" "seq_covered s j"
    "r' < sc_next s"
    using assms(1,4) by (simp_all add: sync_def)
  show "r' < sc_next s'" using old(4) assms(10) by simp
  show "seq_covered s' j" using old(3) by (rule assms(9))
  show "jb_ID (deref s' r') = j"
  proof (cases "r' = r")
    case True
    then show ?thesis using old(1) syncD(1) [OF assms(1,2)] assms(7) by simp
  next
    case False
    then show ?thesis using old(1) assms(5) by simp
  qed
  show "job_synced (log_of s' j) (deref s' r')"
  proof (cases "j = jobID")
    case True
    then show ?thesis using r' assms(2,4,8) by simp
  next
    case False
    then have "r' \<noteq> r" using old(1) syncD(1) [OF assms(1,2)] by auto
    then show ?thesis using old(2) False assms(5,6) by simp
  qed
qed

text \<open>Replacing one task of a job.\<close>

definition set_task :: "nat \<Rightarrow> nat \<Rightarrow> (Task \<Rightarrow> Task) \<Rightarrow> Job \<Rightarrow> Job" where
  "set_task i k f j =
     j\<lparr>jb_Stages := upd_nth i (\<lambda>g. g\<lparr>sg_Tasks := upd_nth k f (sg_Tasks g)\<rparr>) (jb_Stages j)\<rparr>"

lemma upd_task_eq: "upd_task (r, i, k) f s = upd_job r (set_task i k f) s"
  by (simp add: upd_stage_def set_task_def [abs_def])

lemma set_task_simps [simp]:
  "jb_ID (set_task i k f j) = jb_ID j" "jb_LifecycleState (set_task i k f j) = jb_LifecycleState j"
  by (simp_all add: set_task_def)

lemma set_task_split:
  assumes "i < length (jb_Stages j)" "k < length (sg_Tasks (jb_Stages j ! i))"
  obtains xs ys where "job_tasks j = xs @ sg_Tasks (jb_Stages j ! i) ! k # ys"
    "\<And>f. job_tasks (set_task i k f j) = xs @ f (sg_Tasks (jb_Stages j ! i) ! k) # ys"
proof -
  define gs where "gs = jb_Stages j"
  define ts where "ts = sg_Tasks (gs ! i)"
  have i: "i < length gs" and k: "k < length ts" using assms by (simp_all add: gs_def ts_def)
  have gs: "gs = take i gs @ gs ! i # drop (Suc i) gs" using i by (rule id_take_nth_drop)
  have ts: "ts = take k ts @ ts ! k # drop (Suc k) ts" using k by (rule id_take_nth_drop)
  let ?pre = "concat (map sg_Tasks (take i gs)) @ take k ts"
  let ?post = "drop (Suc k) ts @ concat (map sg_Tasks (drop (Suc i) gs))"
  have "job_tasks j = concat (map sg_Tasks (take i gs)) @ ts @ concat (map sg_Tasks (drop (Suc i) gs))"
    unfolding job_tasks_def gs_def [symmetric] ts_def by (subst gs) simp
  also have "\<dots> = ?pre @ ts ! k # ?post" by (subst ts) simp
  finally have a: "job_tasks j = ?pre @ ts ! k # ?post" .
  have b: "job_tasks (set_task i k f j) = ?pre @ f (ts ! k) # ?post" for f
    using i k by (simp add: job_tasks_def set_task_def upd_nth_def gs_def [symmetric] ts_def
        upd_conv_take_nth_drop)
  show thesis by (rule that [of ?pre ?post]) (use a b in \<open>simp_all add: ts_def gs_def\<close>)
qed

lemma get_task_in: "task_ok s (r, i, k) \<Longrightarrow> get_task s (r, i, k) \<in> set (job_tasks (deref s r))"
  by (auto simp: job_tasks_def intro!: bexI [of _ "jb_Stages (deref s r) ! i"])

lemma job_synced_task_record:
  assumes ok: "i < length (jb_Stages j)" "k < length (sg_Tasks (jb_Stages j ! i))"
    and t: "t = sg_Tasks (jb_Stages j ! i) ! k"
    and "job_synced log j" "tr_EntityType r = TransitionEntityTask" "tr_TaskID r = tk_ID t"
    and "tk_JobID t = jb_ID j" "task_state_of (tr_NewState r) = new"
  shows "job_synced (log @ [r]) (set_task i k (\<lambda>x. x\<lparr>tk_LifecycleState := new\<rparr>) j)"
proof -
  obtain xs ys where job: "job_tasks j = xs @ t # ys"
    "\<And>f. job_tasks (set_task i k f j) = xs @ f t # ys"
    using set_task_split [OF ok] unfolding t by blast
  have d: "distinct (map tk_ID (xs @ t # ys))" using assms(4) by (simp add: job_synced_def job)
  have "task_synced (log @ [r]) (jb_ID j) u" if "u \<in> set xs \<union> set ys" for u
  proof -
    have "tk_ID u \<noteq> tk_ID t" using d that by (auto simp: image_iff)
    moreover have "task_synced log (jb_ID j) u"
      using assms(4) that by (auto simp: job_synced_def job)
    ultimately show ?thesis using assms(6) by (simp add: task_synced_def states_snoc)
  qed
  moreover have "task_synced (log @ [r]) (jb_ID j) (t\<lparr>tk_LifecycleState := new\<rparr>)"
    using assms(5-8) by (simp add: task_synced_def states_snoc)
  ultimately show ?thesis
    using d assms(4-6) by (auto simp: job_synced_def job states_snoc)
qed

lemma job_synced_detached_task:
  assumes ok: "i < length (jb_Stages j)" "k < length (sg_Tasks (jb_Stages j ! i))"
    and t: "t = sg_Tasks (jb_Stages j ! i) ! k"
    and "job_synced log j" "task_states (tk_ID t) log = []"
    and "tk_ID (f t) = tk_ID t" "tk_JobID (f t) \<in> {'''', jb_ID j}"
  shows "job_synced log (set_task i k f j)"
proof -
  obtain xs ys where job: "job_tasks j = xs @ t # ys"
    "\<And>f. job_tasks (set_task i k f j) = xs @ f t # ys"
    using set_task_split [OF ok] unfolding t by blast
  have "task_synced log (jb_ID j) (f t)" using assms(5-7) by (auto simp: task_synced_def)
  then show ?thesis using assms(4,6) by (simp add: job_synced_def job)
qed

lemma job_synced_detached:
  assumes "job_synced log j" "legal_log (jb_ID j) log" "t \<in> set (job_tasks j)" "tk_JobID t = ''''"
  shows "task_states (tk_ID t) log = []"
proof (cases "jb_ID j = ''''")
  case True
  then have "log = []"
    using assms(2) by (cases log) (auto simp: legal_log_def dest: Validate_NoneD(2))
  then show ?thesis by simp
next
  case False
  then show ?thesis using assms by (auto simp: job_synced_def task_synced_def)
qed

lemma job_synced_job_record:
  assumes "job_synced log j" "tr_EntityType r = TransitionEntityJob"
    "job_state_of (tr_NewState r) = new"
  shows "job_synced (log @ [r]) (j\<lparr>jb_LifecycleState := new\<rparr>)"
  using assms by (auto simp: job_synced_def states_snoc job_tasks_def task_synced_def)

section \<open>Frame of the recorders\<close>

definition job_shape :: "Job \<Rightarrow> string \<times> string list list" where
  "job_shape j = (jb_ID j, map (\<lambda>g. map tk_ID (sg_Tasks g)) (jb_Stages j))"

definition only_journal :: "Scheduler \<Rightarrow> Scheduler \<Rightarrow> bool" where
  "only_journal s s' \<longleftrightarrow>
     s\<lparr>sc_heap := sc_heap s', sc_transitionStore := sc_transitionStore s',
       sc_jobSequences := sc_jobSequences s', sc_tick := sc_tick s'\<rparr> = s'
     \<and> (\<forall>r. job_shape (deref s' r) = job_shape (deref s r))"

lemma only_journal_refl [simp, intro!]: "only_journal s s"
  by (simp add: only_journal_def)

lemma only_journal_trans [trans]: "only_journal s s' \<Longrightarrow> only_journal s' s'' \<Longrightarrow> only_journal s s''"
  by (cases s; cases s'; cases s'') (simp add: only_journal_def)

lemma only_records_journal: "only_records s s' \<Longrightarrow> only_journal s s'"
  using only_records_frame(2) [of s s']
  by (cases s; cases s') (simp add: only_records_def only_journal_def)

lemma only_journal_tick [simp, intro!]: "only_journal s (step_tick s)"
  by (simp add: only_records_journal)

lemma only_journal_upd_job:
  "(\<And>j. job_shape (f j) = job_shape j) \<Longrightarrow> only_journal s (upd_job r f s)"
  by (cases s) (simp add: only_journal_def upd_job_def deref_def)

lemma job_shape_set_task:
  assumes "\<And>t. tk_ID (f t) = tk_ID t"
  shows "job_shape (set_task i k f j) = job_shape j"
proof -
  have *: "map tk_ID (upd_nth k f ts) = map tk_ID ts" for ts
    by (rule nth_equalityI) (auto simp: nth_upd_nth assms)
  have "map (\<lambda>g. map tk_ID (sg_Tasks g)) (jb_Stages (set_task i k f j)) =
      map (\<lambda>g. map tk_ID (sg_Tasks g)) (jb_Stages j)"
    by (rule nth_equalityI) (auto simp: set_task_def nth_upd_nth *)
  then show ?thesis by (simp add: job_shape_def)
qed

lemma only_journal_frame:
  assumes "only_journal s s'"
  shows "sc_jobs s' = sc_jobs s" "sc_jobQueue s' = sc_jobQueue s" "sc_queuedJobs s' = sc_queuedJobs s"
    "sc_config s' = sc_config s" "sc_nodeCapacity s' = sc_nodeCapacity s" "sc_next s' = sc_next s"
    "sc_pendingEnqueue s' = sc_pendingEnqueue s" "sc_replayQuarantine s' = sc_replayQuarantine s"
    "jb_ID (deref s' r) = jb_ID (deref s r)"
    "length (jb_Stages (deref s' r)) = length (jb_Stages (deref s r))" "task_ok s' t = task_ok s t"
proof -
  show "sc_jobs s' = sc_jobs s" "sc_jobQueue s' = sc_jobQueue s" "sc_queuedJobs s' = sc_queuedJobs s"
    "sc_config s' = sc_config s" "sc_nodeCapacity s' = sc_nodeCapacity s" "sc_next s' = sc_next s"
    "sc_pendingEnqueue s' = sc_pendingEnqueue s" "sc_replayQuarantine s' = sc_replayQuarantine s"
    using assms by (cases s; cases s'; simp add: only_journal_def)+
  have sh: "jb_ID (deref s' r) = jb_ID (deref s r)"
    "map (\<lambda>g. map tk_ID (sg_Tasks g)) (jb_Stages (deref s' r)) =
     map (\<lambda>g. map tk_ID (sg_Tasks g)) (jb_Stages (deref s r))" for r
    using assms by (simp_all add: only_journal_def job_shape_def)
  have len: "length (jb_Stages (deref s' r)) = length (jb_Stages (deref s r))" for r
    using sh(2) [of r] by (rule map_eq_imp_length_eq)
  show "jb_ID (deref s' r) = jb_ID (deref s r)" by (rule sh(1))
  show "length (jb_Stages (deref s' r)) = length (jb_Stages (deref s r))" by (rule len)
  have "length (sg_Tasks (jb_Stages (deref s' r) ! i)) = length (sg_Tasks (jb_Stages (deref s r) ! i))"
    if "i < length (jb_Stages (deref s r))" for r i
    using arg_cong [OF sh(2) [of r], of "\<lambda>xs. length (xs ! i)"] that by (simp add: len)
  then show "task_ok s' t = task_ok s t" by (cases t) (auto simp: len)
qed

lemma nextSequence_only:
  "nextSequenceIDWithContext ev jobID s = (x, s') \<Longrightarrow> only_records s s'"
  by (cases s) (auto simp: nextSequenceIDWithContext_def memory_sequence_def Let_def only_records_def
      step_tick_def split: option.splits sum.splits prod.splits)

lemma persist_only: "persistTransitionWrite ev fn s = (x, s') \<Longrightarrow> only_records s s'"
  by (cases s) (auto simp: persistTransitionWrite_def Let_def only_records_def step_tick_def
      split: option.splits sum.splits)

lemma upd_job_durable [simp]:
  "log_of (upd_job r f s) = log_of s" "counter (upd_job r f s) = counter s"
  "durable_ok (upd_job r f s) = durable_ok s" "seq_covered (upd_job r f s) = seq_covered s"
  by (rule durable_cong; simp)+

text \<open>A record with the allocated sequence number lands at the end of its log.\<close>

lemma journal_append:
  assumes "durable_ok s" "seq_covered s jobID" "nextSequenceIDWithContext ev jobID s = (Inr n, s1)"
    and "appends tr fn" "persistTransitionWrite ev fn (step_tick s1) = (None, s2)"
    and "tr_JobID tr = jobID" "tr_SequenceID tr = n"
    and "Validate tr = None \<Longrightarrow> legal_log jobID (log_of s jobID @ [tr])"
  shows "durable_ok s2" "only_records s s2" "Validate tr = None"
    "log_of s2 j = (if j = jobID then log_of s jobID @ [tr] else log_of s j)"
    "seq_covered s j \<Longrightarrow> seq_covered s2 j"
proof -
  note n = nextSequence_Inr [OF assms(1,3)] and c = nextSequence_covered [OF assms(1,3)]
  have p: "durable_ok s2 \<and> only_records (step_tick s1) s2 \<and> Validate tr = None
      \<and> log_of s2 j = (if j = jobID then log_of s jobID @ [tr] else log_of s j)
      \<and> (seq_covered s1 j \<longrightarrow> seq_covered s2 j)" for j
    using persist_appends [OF _ assms(4,5)] n assms(2,6-8) by simp
  show "durable_ok s2" "Validate tr = None"
    "log_of s2 j = (if j = jobID then log_of s jobID @ [tr] else log_of s j)"
    "seq_covered s j \<Longrightarrow> seq_covered s2 j"
    using p c assms(2) by simp_all
  show "only_records s s2"
    using p n(4) only_records_trans only_records_tick by blast
qed

lemma persisted_valid:
  assumes "durable_ok s" "appends tr fn" "persistTransitionWrite ev fn s = (None, s')"
  shows "Validate tr = None"
  by (rule persist_None [OF assms(1,3)]) (rule appendsD(1) [OF assms(2)])

lemma legal_log_set:
  assumes "legal_log jobID log"
  shows "job_states log \<noteq> [] \<Longrightarrow> last (job_states log) \<noteq> JobStateUnset"
    "task_states taskID log \<noteq> [] \<Longrightarrow> last (task_states taskID log) \<noteq> TaskStateUnset"
proof -
  have v: "\<forall>r \<in> set log. Validate r = None" using assms by (simp add: legal_log_def)
  show "job_states log \<noteq> [] \<Longrightarrow> last (job_states log) \<noteq> JobStateUnset"
    using job_states_known [OF v last_in_set] by auto
  show "task_states taskID log \<noteq> [] \<Longrightarrow> last (task_states taskID log) \<noteq> TaskStateUnset"
    using task_states_known [OF v last_in_set, of taskID] by auto
qed

lemma sync_only_records:
  assumes "sync s" "only_records s s'" "durable_ok s'" "log_of s' = log_of s"
    and "\<And>j. seq_covered s j \<Longrightarrow> seq_covered s' j"
  shows "sync s'"
  using assms only_records_frame [OF assms(2)] by (intro sync_frame [of s s'])

lemma sync_not_persisted:
  assumes "sync s" "nextSequenceIDWithContext ev jobID s = (Inr n, s1)"
    and "persistTransitionWrite ev fn (step_tick s1) = (Some e, s2)"
  shows "sync s2"
proof -
  note d = sync_durable_ok [OF assms(1)]
  show ?thesis
    using sync_only_records [OF assms(1)] nextSequence_Inr [OF d assms(2)]
      nextSequence_covered [OF d assms(2)] persist_error [OF assms(3)] by simp
qed

lemma sync_no_sequence:
  "sync s \<Longrightarrow> nextSequenceIDWithContext ev jobID s = (Inl e, s1) \<Longrightarrow> sync s1"
  using nextSequence_Inl by fastforce

lemma sync_job_record:
  assumes "sync s" "mget (sc_jobs s) jobID = Some r"
    and "nextSequenceIDWithContext ev jobID s = (Inr n, s1)"
    and "appends tr fn" "persistTransitionWrite ev fn (step_tick s1) = (None, s2)"
    and tr: "tr_JobID tr = jobID" "tr_SequenceID tr = n" "tr_EntityType tr = TransitionEntityJob"
      "tr_NewState tr = job_state_string new" and new: "known_job_state new"
    and step: "jb_LifecycleState (deref s r) \<noteq> JobStateUnset \<Longrightarrow>
      CanTransitionJobState (jb_LifecycleState (deref s r)) new"
  shows "sync (upd_job r (\<lambda>j. j\<lparr>jb_LifecycleState := new\<rparr>) s2)"
proof -
  note d = sync_durable_ok [OF assms(1)]
  note j = syncD [OF assms(1,2)]
  have legal: "legal_log jobID (log_of s jobID)" using d by (simp add: durable_ok_def)
  have known: "job_state_of (tr_NewState tr) = new" using tr(4) new by simp
  have "jb_LifecycleState (deref s r) \<noteq> JobStateUnset" if "job_states (log_of s jobID) \<noteq> []"
    using j(2) that legal_log_set(1) [OF legal that] by (simp add: job_synced_def)
  then have "job_states (log_of s jobID) = [] \<or> CanTransitionJobState (last (job_states (log_of s jobID))) new"
    using step j(2) unfolding job_synced_def by metis
  then have ext: "Validate tr = None \<Longrightarrow> legal_log jobID (log_of s jobID @ [tr])"
    using legal tr(1,3) known by (simp add: legal_log_snoc)
  note a = journal_append [OF d j(3) assms(3-5) tr(1,2) ext]
  note f = only_records_frame [OF a(2)]
  define s3 where "s3 = upd_job r (\<lambda>j. j\<lparr>jb_LifecycleState := new\<rparr>) s2"
  have s3: "log_of s3 = log_of s2" "durable_ok s3 = durable_ok s2" "sc_jobs s3 = sc_jobs s"
    "deref s3 r' = (if r' = r then (deref s r)\<lparr>jb_LifecycleState := new\<rparr> else deref s r')"
    "seq_covered s3 = seq_covered s2" "sc_next s3 = sc_next s" for r'
    by (simp_all add: s3_def f)
  have "sync s3"
    by (rule sync_update [OF assms(1,2)])
      (use a j s3 job_synced_job_record [OF j(2) tr(3) known] in simp_all)
  then show ?thesis by (simp add: s3_def)
qed

lemma sync_task_record:
  assumes "sync s" "mget (sc_jobs s) jobID = Some r" "task_ok s (r, i, k)"
    and "nextSequenceIDWithContext ev (tk_JobID (get_task s (r, i, k))) s = (Inr n, s1)"
    and "appends tr fn" "persistTransitionWrite ev fn (step_tick s1) = (None, s2)"
    and tr: "tr_JobID tr = tk_JobID (get_task s (r, i, k))" "tr_SequenceID tr = n"
      "tr_EntityType tr = TransitionEntityTask" "tr_TaskID tr = tk_ID (get_task s (r, i, k))"
      "tr_NewState tr = task_state_string new" and new: "known_task_state new"
    and step: "tk_LifecycleState (get_task s (r, i, k)) \<noteq> TaskStateUnset \<Longrightarrow>
      CanTransitionTaskState (tk_LifecycleState (get_task s (r, i, k))) new"
  shows "sync (upd_task (r, i, k) (\<lambda>t. t\<lparr>tk_LifecycleState := new\<rparr>) s2)"
proof -
  define t where "t = get_task s (r, i, k)"
  note d = sync_durable_ok [OF assms(1)]
  note j = syncD [OF assms(1,2)]
  have ok: "i < length (jb_Stages (deref s r))" "k < length (sg_Tasks (jb_Stages (deref s r) ! i))"
    and t: "t = sg_Tasks (jb_Stages (deref s r) ! i) ! k"
    using assms(3) by (simp_all add: t_def)
  have ts: "task_synced (log_of s jobID) jobID t"
    using j get_task_in [OF assms(3)] by (simp add: job_synced_def t_def)
  have legal: "legal_log jobID (log_of s jobID)" for jobID using d by (simp add: durable_ok_def)
  have known: "task_state_of (tr_NewState tr) = new" using tr(5) new by simp
  have set: "tk_LifecycleState t \<noteq> TaskStateUnset"
    if "task_states (tk_ID t) (log_of s jobID) \<noteq> []"
    using ts that legal_log_set(2) [OF legal that] by (simp add: task_synced_def)
  have id: "tk_JobID t = jobID" if "Validate tr = None"
    using ts Validate_NoneD(2) [OF that] tr(1) by (auto simp: task_synced_def t_def)
  have step': "task_states (tk_ID t) (log_of s jobID) = []
      \<or> CanTransitionTaskState (last (task_states (tk_ID t) (log_of s jobID))) new"
    using set step [folded t_def] ts unfolding task_synced_def by metis
  have valid: "Validate tr = None"
    using persisted_valid [OF _ assms(5,6)] nextSequence_Inr(1) [OF d assms(4)] by simp
  note id = id [OF valid]
  have "legal_log jobID (log_of s jobID @ [tr])"
    using step' legal [of jobID] tr(1,3,4) valid known id by (simp add: legal_log_snoc t_def)
  note a = journal_append [OF d j(3) assms(4) [folded t_def, unfolded id] assms(5,6)
      tr(1) [folded t_def, unfolded id] tr(2) this]
  note f = only_records_frame [OF a(2)]
  define s3 where "s3 = upd_job r (set_task i k (\<lambda>t. t\<lparr>tk_LifecycleState := new\<rparr>)) s2"
  have s3: "log_of s3 = log_of s2" "durable_ok s3 = durable_ok s2" "sc_jobs s3 = sc_jobs s"
    "deref s3 r' = (if r' = r then set_task i k (\<lambda>t. t\<lparr>tk_LifecycleState := new\<rparr>) (deref s r)
       else deref s r')" "seq_covered s3 = seq_covered s2" "sc_next s3 = sc_next s" for r'
    by (simp_all add: s3_def f)
  have js: "job_synced (log_of s jobID @ [tr]) (set_task i k (\<lambda>t. t\<lparr>tk_LifecycleState := new\<rparr>) (deref s r))"
    by (rule job_synced_task_record [OF ok t j(2)])
      (use tr id j(1) known in \<open>simp_all add: t_def\<close>)
  have "sync s3"
    by (rule sync_update [OF assms(1,2)]) (use a j s3 js id in \<open>simp_all add: t_def\<close>)
  then show ?thesis by (simp only: s3_def upd_task_eq)
qed

section \<open>The recorders keep the invariant\<close>

lemma recordJobTransition_sync:
  assumes "sync s" "mget (sc_jobs s) jobID = Some r" "known_job_state new"
  shows "sync (recordJobTransition ev r transition new err s)"
proof -
  define job where "job = deref s r"
  have id: "jb_ID job = jobID" using syncD(1) [OF assms(1,2)] by (simp add: job_def)
  obtain q s1 where q: "nextSequenceIDWithContext ev jobID s = (q, s1)" by fastforce
  show ?thesis
  proof (cases q)
    case (Inl e)
    then have "sync s1" using sync_no_sequence [OF assms(1)] q by simp
    then show ?thesis
      using assms(1) Inl q id by (simp add: recordJobTransition_def Let_def job_def)
  next
    case (Inr n)
    define tr where "tr = \<lparr>tr_SequenceID = n, tr_EntityType = TransitionEntityJob,
      tr_Transition = transition, tr_JobID = jobID, tr_TaskID = '''',
      tr_PreviousState = job_state_string (jb_LifecycleState job),
      tr_NewState = job_state_string new, tr_NodeID = '''', tr_Attempt = 0,
      tr_ErrorSummary = normalizeTransitionErrorSummary err, tr_OccurredAt = ev_now ev (sc_tick s1)\<rparr>"
    define row where "row = \<lparr>dj_JobID = jobID, dj_Name = jb_Name job, dj_CurrentState = new,
      dj_LastSequenceID = n, dj_CreatedAt = jb_CreatedAt job, dj_UpdatedAt = ev_now ev (sc_tick s1)\<rparr>"
    obtain x s2 where x: "persistTransitionWrite ev (job_write tr row) (step_tick s1) = (x, s2)"
      by fastforce
    note q = q [unfolded Inr]
    have ok: "sync (upd_job r (\<lambda>j. j\<lparr>jb_LifecycleState := new\<rparr>) s2)"
      if "x = None" "jb_LifecycleState job \<noteq> JobStateUnset \<longrightarrow> CanTransitionJobState (jb_LifecycleState job) new"
      by (rule sync_job_record [OF assms(1,2) q job_write_appends x [unfolded that(1)]])
        (use that(2) assms(3) id in \<open>simp_all add: tr_def job_def\<close>)
    have fail: "sync s2" if "x = Some e" for e
      using sync_not_persisted [OF assms(1) q x [unfolded that]] .
    show ?thesis
      unfolding recordJobTransition_def Let_def time_Now_def job_def [symmetric] id q prod.case
        sum.case tr_def [symmetric] row_def [symmetric] x
      using assms(1) ok fail by (cases x) auto
  qed
qed

lemma recordTaskTransition_sync:
  assumes "sync s" "mget (sc_jobs s) jobID = Some r" "task_ok s (r, i, k)" "known_task_state new"
  shows "sync (recordTaskTransition ev (r, i, k) transition new nodeID attempt err s)"
proof -
  define t where "t = get_task s (r, i, k)"
  obtain q s1 where q: "nextSequenceIDWithContext ev (tk_JobID t) s = (q, s1)" by fastforce
  show ?thesis
  proof (cases q)
    case (Inl e)
    then have "sync s1" using sync_no_sequence [OF assms(1)] q by simp
    then show ?thesis
      using assms(1) Inl q by (simp add: recordTaskTransition_def Let_def t_def del: get_task.simps)
  next
    case (Inr n)
    define tr where "tr = \<lparr>tr_SequenceID = n, tr_EntityType = TransitionEntityTask,
      tr_Transition = transition, tr_JobID = tk_JobID t, tr_TaskID = tk_ID t,
      tr_PreviousState = task_state_string (tk_LifecycleState t),
      tr_NewState = task_state_string new, tr_NodeID = nodeID, tr_Attempt = attempt,
      tr_ErrorSummary = normalizeTransitionErrorSummary err, tr_OccurredAt = ev_now ev (sc_tick s1)\<rparr>"
    define row where "row = task_row ev t nodeID new attempt (ev_now ev (sc_tick s1))"
    define snap where "snap = durableJobSnapshot (step_tick s1) (tk_JobID t) n (ev_now ev (sc_tick s1))"
    obtain x s2 where x: "persistTransitionWrite ev (task_write tr row snap) (step_tick s1) = (x, s2)"
      by fastforce
    note q = q [unfolded Inr]
    have ok: "sync (upd_task (r, i, k) (\<lambda>t. t\<lparr>tk_LifecycleState := new\<rparr>) s2)"
      if "x = None" "tk_LifecycleState t \<noteq> TaskStateUnset \<longrightarrow> CanTransitionTaskState (tk_LifecycleState t) new"
      by (rule sync_task_record [OF assms(1-3) q [unfolded t_def] task_write_appends x [unfolded that(1)]])
        (use that(2) assms(4) in \<open>simp_all add: tr_def t_def\<close>)
    have fail: "sync s2" if "x = Some e" for e
      using sync_not_persisted [OF assms(1) q x [unfolded that]] .
    show ?thesis
      unfolding recordTaskTransition_def Let_def time_Now_def t_def [symmetric] q prod.case
        sum.case tr_def [symmetric] row_def [symmetric] snap_def [symmetric] x
      using assms(1) ok fail by (cases x) (auto simp del: upd_task.simps)
  qed
qed

text \<open>Updates the journal does not see, and updates that attach a task to its job.\<close>

definition task_view :: "Task \<Rightarrow> string \<times> string \<times> TaskLifecycleState" where
  "task_view t = (tk_ID t, tk_JobID t, tk_LifecycleState t)"

definition job_view :: "Job \<Rightarrow> string \<times> JobLifecycleState \<times> (string \<times> string \<times> TaskLifecycleState) list" where
  "job_view j = (jb_ID j, jb_LifecycleState j, map task_view (job_tasks j))"

lemma job_synced_view:
  assumes "job_view j = job_view j'"
  shows "job_synced log j = job_synced log j'"
proof -
  have v: "map task_view (job_tasks j) = map task_view (job_tasks j')"
    "jb_ID j = jb_ID j'" "jb_LifecycleState j = jb_LifecycleState j'"
    using assms by (simp_all add: job_view_def)
  have "map tk_ID ts = map fst (map task_view ts)" for ts by (simp add: task_view_def)
  then have ids: "map tk_ID (job_tasks j) = map tk_ID (job_tasks j')" using v(1) by metis
  have *: "(\<forall>t \<in> set ts. task_synced log a t) \<longleftrightarrow>
      (\<forall>(x, y, z) \<in> set (map task_view ts).
        (y = a \<or> y = '''' \<and> task_states x log = [])
        \<and> (task_states x log = [] \<or> last (task_states x log) = z))" for ts a
    by (simp add: task_synced_def task_view_def)
  show ?thesis unfolding job_synced_def v(2,3) ids * v(1) ..
qed

lemma sync_unseen:
  assumes "\<And>j. job_view (f j) = job_view j"
  shows "sync (upd_job r f s) = sync s"
proof -
  have "jb_ID (f j) = jb_ID j" "job_synced log (f j) = job_synced log j" for j log
    using assms [of j] job_synced_view [OF assms] by (simp_all add: job_view_def)
  then show ?thesis by (simp add: sync_def) blast
qed

lemma set_task_view:
  assumes "\<And>t. task_view (f t) = task_view t"
  shows "job_view (set_task i k f j) = job_view j"
proof (cases "i < length (jb_Stages j) \<and> k < length (sg_Tasks (jb_Stages j ! i))")
  case True
  then obtain xs ys where "job_tasks j = xs @ sg_Tasks (jb_Stages j ! i) ! k # ys"
    "job_tasks (set_task i k f j) = xs @ f (sg_Tasks (jb_Stages j ! i) ! k) # ys"
    using set_task_split by metis
  then show ?thesis by (simp add: job_view_def assms)
next
  case False
  then have "job_tasks (set_task i k f j) = job_tasks j"
    by (auto simp: job_tasks_def set_task_def upd_nth_def map_update
        intro: arg_cong [of _ _ concat] list_update_same_conv [THEN iffD2])
  then show ?thesis by (simp add: job_view_def)
qed

lemma sync_upd_task:
  assumes "sync s" "mget (sc_jobs s) jobID = Some r" "task_ok s (r, i, k)"
    and "tk_ID (f (get_task s (r, i, k))) = tk_ID (get_task s (r, i, k))"
    and "task_synced (log_of s jobID) jobID (f (get_task s (r, i, k)))"
  shows "sync (upd_task (r, i, k) f s)"
proof -
  note j = syncD [OF assms(1,2)]
  have ok: "i < length (jb_Stages (deref s r))" "k < length (sg_Tasks (jb_Stages (deref s r) ! i))"
    using assms(3) by simp_all
  obtain xs ys where "job_tasks (deref s r) = xs @ get_task s (r, i, k) # ys"
    "job_tasks (set_task i k f (deref s r)) = xs @ f (get_task s (r, i, k)) # ys"
    using set_task_split [OF ok] by (metis get_task.simps)
  then have "job_synced (log_of s jobID) (set_task i k f (deref s r))"
    using j assms(4,5) by (simp add: job_synced_def)
  then have "sync (upd_job r (set_task i k f) s)"
    using sync_durable_ok [OF assms(1)] j(1) by (intro sync_update [OF assms(1,2)]) simp_all
  then show ?thesis by (simp only: upd_task_eq)
qed

lemma sync_task_synced:
  assumes "sync s" "mget (sc_jobs s) jobID = Some r" "task_ok s (r, i, k)"
  shows "task_synced (log_of s jobID) jobID (get_task s (r, i, k))"
  using syncD [OF assms(1,2)] get_task_in [OF assms(3)] by (simp add: job_synced_def)

lemma sync_detached:
  assumes "sync s" "mget (sc_jobs s) jobID = Some r" "task_ok s (r, i, k)"
    and "tk_JobID (get_task s (r, i, k)) = ''''"
  shows "task_states (tk_ID (get_task s (r, i, k))) (log_of s jobID) = []"
  using job_synced_detached [OF syncD(2) [OF assms(1,2)] _ get_task_in [OF assms(3)] assms(4)]
    syncD(1) [OF assms(1,2)] sync_durable_ok [OF assms(1)] by (simp add: durable_ok_def)

text \<open>Frames.\<close>

lemma only_journal_upd_task:
  "(\<And>t. tk_ID (f t) = tk_ID t) \<Longrightarrow> only_journal s (upd_task (r, i, k) f s)"
  unfolding upd_task_eq by (intro only_journal_upd_job job_shape_set_task)

lemma only_journal_persisted:
  assumes "nextSequenceIDWithContext ev jobID s = (q, s1)"
    and "persistTransitionWrite ev fn (step_tick s1) = (x, s2)"
  shows "only_journal s s1" "only_journal s s2"
  using nextSequence_only [OF assms(1)] persist_only [OF assms(2)]
  by (blast intro: only_records_journal only_records_trans only_records_tick)+

lemma journal_writes_frame [simp]:
  "only_journal s (snd (nextSequenceIDWithContext ev jobID s))"
  "only_journal s (snd (persistTransitionWrite ev fn (step_tick (snd (nextSequenceIDWithContext ev jobID s)))))"
  using only_journal_persisted [OF prod.collapse [symmetric] prod.collapse [symmetric]] by blast+

lemma journal_state_frame [simp]:
  "only_journal s s' \<Longrightarrow> only_journal s (upd_job r (\<lambda>j. j\<lparr>jb_LifecycleState := new\<rparr>) s')"
  "only_journal s s' \<Longrightarrow> only_journal s (upd_task t (\<lambda>t. t\<lparr>tk_LifecycleState := new'\<rparr>) s')"
  by (erule only_journal_trans, rule only_journal_upd_job, simp add: job_shape_def)
    (cases t, auto elim!: only_journal_trans intro!: only_journal_upd_task simp del: upd_task.simps)

lemma recordJobTransition_frame [simp]: "only_journal s (recordJobTransition ev r transition new err s)"
  by (simp add: recordJobTransition_def Let_def time_Now_def case_prod_beta split: sum.split option.split)

lemma recordTaskTransition_frame [simp]:
  "only_journal s (recordTaskTransition ev t transition new nodeID attempt err s)"
  by (simp add: recordTaskTransition_def Let_def time_Now_def case_prod_beta
      split: sum.split option.split del: upd_task.simps get_task.simps)

lemma recordJobRunningOnFirstDispatch_frame [simp]:
  "only_journal s (recordJobRunningOnFirstDispatch ev jobID s)"
  by (auto simp: recordJobRunningOnFirstDispatch_def split: option.split JobLifecycleState.split
      intro: only_journal_trans [OF recordJobTransition_frame recordJobTransition_frame])

lemma claimTaskDispatchTransition_frame [simp]:
  "only_journal s (snd (claimTaskDispatchTransition ev t nodeID attempt s))"
  by (auto simp: claimTaskDispatchTransition_def Let_def time_Now_def case_prod_beta
      split: sum.split option.split simp del: upd_task.simps get_task.simps
      intro: only_journal_trans [OF _ recordJobRunningOnFirstDispatch_frame])

lemma record_initial_task_frame [simp]: "only_journal s (record_initial_task ev r i k s)"
  unfolding record_initial_task_def Let_def
  by (rule only_journal_trans [OF only_journal_upd_task recordTaskTransition_frame]) simp

lemma record_initial_tasks_frame: "only_journal s (record_initial_tasks ev ts s)"
proof (induction ts arbitrary: s)
  case (Cons t ts)
  obtain r i k where t: "t = (r, i, k)" by (rule prod_cases3)
  show ?case unfolding t record_initial_tasks.simps
    by (rule only_journal_trans [OF record_initial_task_frame Cons.IH])
qed simp

lemma recordInitialTransitions_frame [simp]: "only_journal s (recordInitialTransitions ev r s)"
  unfolding recordInitialTransitions_def Let_def
  by (rule only_journal_trans [OF only_journal_trans
        [OF recordJobTransition_frame record_initial_tasks_frame] recordJobTransition_frame])

lemma recordJobRunningOnFirstDispatch_sync:
  "sync s \<Longrightarrow> sync (recordJobRunningOnFirstDispatch ev jobID s)"
  using only_journal_frame(1) [OF recordJobTransition_frame]
  by (auto simp: recordJobRunningOnFirstDispatch_def split: option.split JobLifecycleState.split
      intro!: recordJobTransition_sync)

lemma claimTaskDispatchTransition_sync:
  assumes "sync s" "mget (sc_jobs s) jobID = Some r" "task_ok s (r, i, k)"
  shows "sync (snd (claimTaskDispatchTransition ev (r, i, k) nodeID attempt s))"
proof -
  define t where "t = get_task s (r, i, k)"
  define prev where "prev = (if tk_LifecycleState t = TaskStateUnset then TaskStatePending
    else tk_LifecycleState t)"
  have detached: "sync (upd_task (r, i, k) (\<lambda>t. t\<lparr>tk_LifecycleState := TaskStateDispatched\<rparr>) s)"
    if "tk_JobID t = ''''"
    using sync_detached [OF assms] sync_task_synced [OF assms] that
    by (intro sync_upd_task [OF assms]) (simp_all add: task_synced_def t_def)
  obtain q s1 where q: "nextSequenceIDWithContext ev (tk_JobID t) s = (q, s1)" by fastforce
  have stored: "sc_transitionStore s \<noteq> None"
    using sync_durable_ok [OF assms(1)] by (auto simp: durable_ok_def)
  show ?thesis
  proof (cases q)
    case (Inl e)
    then have "sync s1" using sync_no_sequence [OF assms(1)] q by simp
    then show ?thesis
      using assms(1) Inl q detached stored
      by (auto simp: claimTaskDispatchTransition_def Let_def t_def
          simp del: get_task.simps upd_task.simps)
  next
    case (Inr n)
    define tr where "tr = \<lparr>tr_SequenceID = n, tr_EntityType = TransitionEntityTask,
      tr_Transition = TransitionTaskDispatched, tr_JobID = tk_JobID t, tr_TaskID = tk_ID t,
      tr_PreviousState = task_state_string prev,
      tr_NewState = task_state_string TaskStateDispatched, tr_NodeID = nodeID, tr_Attempt = attempt,
      tr_ErrorSummary = '''', tr_OccurredAt = ev_now ev (sc_tick s1)\<rparr>"
    define claim where "claim = \<lparr>cl_TaskID = tk_ID t, cl_JobID = tk_JobID t,
      cl_StageID = tk_StageID t, cl_NodeID = nodeID, cl_Attempt = attempt,
      cl_UpdatedAt = ev_now ev (sc_tick s1)\<rparr>"
    define snap where "snap = durableJobSnapshot (step_tick s1) (tk_JobID t) n (ev_now ev (sc_tick s1))"
    obtain x s2 where x: "persistTransitionWrite ev (claim_write claim tr snap) (step_tick s1) = (x, s2)"
      by fastforce
    note q = q [unfolded Inr]
    have ok: "sync (upd_task (r, i, k) (\<lambda>t. t\<lparr>tk_LifecycleState := TaskStateDispatched\<rparr>) s2)"
      if "x = None" "CanTransitionTaskState prev TaskStateDispatched"
      by (rule sync_task_record [OF assms q [unfolded t_def] claim_write_appends x [unfolded that(1)]])
        (use that(2) in \<open>simp_all add: tr_def t_def prev_def\<close>)
    have fail: "sync s2" if "x = Some e" for e
      using sync_not_persisted [OF assms(1) q x [unfolded that]] .
    show ?thesis
      unfolding claimTaskDispatchTransition_def Let_def time_Now_def t_def [symmetric]
        prev_def [symmetric] q prod.case sum.case tr_def [symmetric] claim_def [symmetric]
        snap_def [symmetric] x
      using assms(1) ok fail detached stored
      by (cases x) (auto simp del: upd_task.simps intro: recordJobRunningOnFirstDispatch_sync)
  qed
qed

declare get_task.simps [simp del] upd_task.simps [simp del] task_ok.simps [simp del]

lemma attach_task_sync:
  assumes "sync s" "mget (sc_jobs s) jobID = Some r" "task_ok s (r, i, k)"
  shows "sync (upd_task (r, i, k) (\<lambda>t. t\<lparr>tk_JobID := (if tk_JobID t = '''' then jb_ID (deref s r) else tk_JobID t),
    tk_StageID := (if tk_StageID t = '''' then stageID else tk_StageID t)\<rparr>) s)"
  using sync_detached [OF assms] sync_task_synced [OF assms] syncD(1) [OF assms(1,2)]
  by (intro sync_upd_task [OF assms]) (auto simp: task_synced_def)

lemma record_initial_task_sync:
  assumes "sync s" "mget (sc_jobs s) jobID = Some r" "task_ok s (r, i, k)"
  shows "sync (record_initial_task ev r i k s)"
proof -
  define f :: "Task \<Rightarrow> Task" where "f = (\<lambda>t. t\<lparr>tk_JobID := (if tk_JobID t = '''' then jb_ID (deref s r) else tk_JobID t),
    tk_StageID := (if tk_StageID t = '''' then sg_ID (jb_Stages (deref s r) ! i) else tk_StageID t)\<rparr>)"
  have s: "sync (upd_task (r, i, k) f s)" unfolding f_def by (rule attach_task_sync [OF assms])
  have fr: "only_journal s (upd_task (r, i, k) f s)"
    by (rule only_journal_upd_task) (simp add: f_def)
  show ?thesis
    unfolding record_initial_task_def Let_def f_def [symmetric]
    by (rule recordTaskTransition_sync [OF s])
      (use assms(2,3) only_journal_frame(1,11) [OF fr] in simp_all)
qed

lemma recordInitialTransitions_sync:
  assumes "sync s" "mget (sc_jobs s) jobID = Some r"
  shows "sync (recordInitialTransitions ev r s)"
proof -
  have fold: "sync (record_initial_tasks ev ts s)"
    if "sync s" "mget (sc_jobs s) jobID = Some r"
      "\<forall>t \<in> set ts. fst t = r \<and> task_ok s t" for ts s
    using that
  proof (induction ts arbitrary: s)
    case (Cons t ts)
    then show ?case
      using only_journal_frame(1,11) [OF record_initial_task_frame]
      by (cases t) (auto intro!: Cons.IH record_initial_task_sync)
  qed simp
  define s1 where "s1 = recordJobTransition ev r TransitionJobSubmitted JobStateSubmitted '''' s"
  have s1: "sync s1" "mget (sc_jobs s1) jobID = Some r"
    using recordJobTransition_sync [OF assms] assms(2) only_journal_frame(1) [OF recordJobTransition_frame]
    by (simp_all add: s1_def)
  define s2 where "s2 = record_initial_tasks ev (task_refs r (deref s1 r)) s1"
  have "sync s2" unfolding s2_def by (rule fold [OF s1]) (auto simp: task_refs_def task_ok.simps)
  moreover have "only_journal s1 s2"
    unfolding s2_def by (rule record_initial_tasks_frame)
  ultimately show ?thesis
    using s1(2) only_journal_frame(1) [of s1 s2]
    unfolding recordInitialTransitions_def Let_def s1_def [symmetric] s2_def [symmetric]
    by (intro recordJobTransition_sync) simp_all
qed

end
