(* ===== verification/Job_Queue.thy ===== *)
theory Job_Queue
  imports Journal
begin

text \<open>
  The admission queue of \<^verbatim>\<open>pkg/scheduler/scheduler.go\<close>: the buffered channel \<^verbatim>\<open>jobQueue\<close> and the
  set \<^verbatim>\<open>queuedJobs\<close> of the job IDs inside it. The channel is the list of the references it holds,
  with the configured queue size as its capacity; closing \<^verbatim>\<open>stopChan\<close> and setting
  \<^verbatim>\<open>stopRequested\<close> are one event.

  The locale \<open>bounded_queue\<close> is what the scheduler relies on: a bounded FIFO without duplicate job
  IDs. Its client lemma follows any sequence of sends and receives, and the interpretation
  \<open>job_queue\<close> shows that the code's operations are such a queue.
\<close>

section \<open>Operations\<close>

definition queue_cap :: "Scheduler \<Rightarrow> nat" where
  "queue_cap s = nat (cf_JobQueueSize (sc_config s))"

definition enqueueJobLocked :: "job_ref \<Rightarrow> Scheduler \<Rightarrow> bool \<times> Scheduler" where
  "enqueueJobLocked r s =
     (let jobID = jb_ID (deref s r) in
      if mget (sc_queuedJobs s) jobID \<noteq> None then (False, s)
      else if length (sc_jobQueue s) < queue_cap s
      then (True, s\<lparr>sc_jobQueue := sc_jobQueue s @ [r],
                    sc_queuedJobs := mput jobID () (sc_queuedJobs s)\<rparr>)
      else (False, s))"

definition markJobDequeued :: "job_ref \<Rightarrow> Scheduler \<Rightarrow> Scheduler" where
  "markJobDequeued r s = s\<lparr>sc_queuedJobs := mdel (jb_ID (deref s r)) (sc_queuedJobs s)\<rparr>"

definition requeueJob :: "job_ref \<Rightarrow> Scheduler \<Rightarrow> Scheduler" where
  "requeueJob r s = (if sc_stopRequested s then s else snd (enqueueJobLocked r s))"

text \<open>The receive of the main loop, with the bookkeeping that follows it.\<close>

definition dequeueJob :: "Scheduler \<Rightarrow> (job_ref \<times> Scheduler) option" where
  "dequeueJob s =
     (case sc_jobQueue s of
        [] \<Rightarrow> None
      | r # q \<Rightarrow> Some (r, markJobDequeued r (s\<lparr>sc_jobQueue := q\<rparr>)))"

section \<open>The queue contract\<close>

datatype queue_op = Send job_ref | Receive

fun run_queue ::
    "(job_ref \<Rightarrow> 's \<Rightarrow> bool \<times> 's) \<Rightarrow> ('s \<Rightarrow> (job_ref \<times> 's) option) \<Rightarrow> queue_op list \<Rightarrow> 's
     \<Rightarrow> job_ref list \<times> job_ref list \<times> 's" where
  "run_queue enq deq [] s = ([], [], s)"
| "run_queue enq deq (Send r # ops) s =
     (let (ok, s) = enq r s; (accepted, received, s) = run_queue enq deq ops s
      in (if ok then r # accepted else accepted, received, s))"
| "run_queue enq deq (Receive # ops) s =
     (case deq s of
        None \<Rightarrow> run_queue enq deq ops s
      | Some (r, s) \<Rightarrow>
          (let (accepted, received, s) = run_queue enq deq ops s in (accepted, r # received, s)))"

locale bounded_queue =
  fixes enq :: "job_ref \<Rightarrow> 's \<Rightarrow> bool \<times> 's"
    and deq :: "'s \<Rightarrow> (job_ref \<times> 's) option"
    and items :: "'s \<Rightarrow> job_ref list"
    and key :: "'s \<Rightarrow> job_ref \<Rightarrow> string"
    and cap :: "'s \<Rightarrow> nat"
    and invar :: "'s \<Rightarrow> bool"
  assumes enq_result: "invar s \<Longrightarrow> enq r s = (ok, s') \<Longrightarrow>
      ok \<longleftrightarrow> key s r \<notin> key s ` set (items s) \<and> length (items s) < cap s"
    and enq_items: "invar s \<Longrightarrow> enq r s = (ok, s') \<Longrightarrow>
      items s' = (if ok then items s @ [r] else items s)"
    and enq_frame: "invar s \<Longrightarrow> enq r s = (ok, s') \<Longrightarrow> invar s' \<and> cap s' = cap s \<and> key s' = key s"
    and deq_None: "invar s \<Longrightarrow> deq s = None \<longleftrightarrow> items s = []"
    and deq_items: "invar s \<Longrightarrow> deq s = Some (r, s') \<Longrightarrow> items s = r # items s'"
    and deq_frame: "invar s \<Longrightarrow> deq s = Some (r, s') \<Longrightarrow> invar s' \<and> cap s' = cap s \<and> key s' = key s"
    and invar_cap: "invar s \<Longrightarrow> length (items s) \<le> cap s"
    and invar_distinct: "invar s \<Longrightarrow> distinct (map (key s) (items s))"
begin

lemma run_fifo:
  assumes "invar s" "run_queue enq deq ops s = (accepted, received, s')"
  shows "items s @ accepted = received @ items s' \<and> invar s' \<and> cap s' = cap s \<and> key s' = key s"
  using assms
proof (induction ops arbitrary: s s' accepted received)
  case (Cons x ops)
  show ?case
  proof (cases x)
    case (Send r)
    obtain ok s1 where e: "enq r s = (ok, s1)" by fastforce
    obtain a b s2 where r: "run_queue enq deq ops s1 = (a, b, s2)" by (rule prod_cases3)
    have res: "accepted = (if ok then r # a else a)" "received = b" "s' = s2"
      using Cons.prems(2) by (simp_all add: Send e r)
    show ?thesis
      using Cons.IH [OF _ r] enq_items [OF Cons.prems(1) e] enq_frame [OF Cons.prems(1) e] res
      by (cases ok) simp_all
  next
    case Receive
    show ?thesis
    proof (cases "deq s")
      case None
      then show ?thesis using Cons by (simp add: Receive)
    next
      case (Some y)
      obtain r s1 where y: "y = (r, s1)" by fastforce
      note e = Some [unfolded y]
      obtain a b s2 where r: "run_queue enq deq ops s1 = (a, b, s2)" by (rule prod_cases3)
      have res: "accepted = a" "received = r # b" "s' = s2"
        using Cons.prems(2) by (simp_all add: Receive e r)
      show ?thesis
        using Cons.IH [OF _ r] deq_items [OF Cons.prems(1) e] deq_frame [OF Cons.prems(1) e] res by simp
    qed
  qed
qed simp

text \<open>A receive is possible whenever something is queued, and a send whenever there is room.\<close>

lemma not_stuck: "invar s \<Longrightarrow> 0 < cap s \<Longrightarrow> (\<exists>r s'. deq s = Some (r, s')) \<or> (\<exists>s'. enq r s = (True, s'))"
  using deq_None [of s] enq_result [of s r] by (cases "deq s"; cases "enq r s") auto

end

section \<open>The scheduler's queue\<close>

definition queue_ok :: "Scheduler \<Rightarrow> bool" where
  "queue_ok s \<longleftrightarrow>
     length (sc_jobQueue s) \<le> queue_cap s
     \<and> distinct (map (\<lambda>r. jb_ID (deref s r)) (sc_jobQueue s))
     \<and> (\<forall>jobID. mget (sc_queuedJobs s) jobID = None \<longleftrightarrow>
          jobID \<notin> (\<lambda>r. jb_ID (deref s r)) ` set (sc_jobQueue s))"

lemma queue_frame [simp]:
  "deref (s\<lparr>sc_jobQueue := q\<rparr>) = deref s" "deref (s\<lparr>sc_queuedJobs := m\<rparr>) = deref s"
  "queue_cap (s\<lparr>sc_jobQueue := q\<rparr>) = queue_cap s" "queue_cap (s\<lparr>sc_queuedJobs := m\<rparr>) = queue_cap s"
  by (simp_all add: deref_def fun_eq_iff queue_cap_def)

lemma enqueueJobLocked_cases:
  assumes "enqueueJobLocked r s = (ok, s')"
  obtains (sent) "ok" "mget (sc_queuedJobs s) (jb_ID (deref s r)) = None"
      "length (sc_jobQueue s) < queue_cap s"
      "s' = s\<lparr>sc_jobQueue := sc_jobQueue s @ [r],
             sc_queuedJobs := mput (jb_ID (deref s r)) () (sc_queuedJobs s)\<rparr>"
    | (refused) "\<not> ok" "s' = s" "mget (sc_queuedJobs s) (jb_ID (deref s r)) \<noteq> None
        \<or> queue_cap s \<le> length (sc_jobQueue s)"
  using assms
  by (cases "mget (sc_queuedJobs s) (jb_ID (deref s r))")
    (auto simp: enqueueJobLocked_def Let_def split: if_splits)

lemma queue_ok_mirror:
  "queue_ok s \<Longrightarrow> mget (sc_queuedJobs s) jobID = None \<longleftrightarrow>
     jobID \<notin> (\<lambda>r. jb_ID (deref s r)) ` set (sc_jobQueue s)"
  unfolding queue_ok_def by blast

lemma enqueueJobLocked_ok:
  assumes "queue_ok s" "enqueueJobLocked r s = (ok, s')"
  shows "queue_ok s'"
  using assms(2)
proof (cases rule: enqueueJobLocked_cases)
  case sent
  then show ?thesis using assms(1) queue_ok_mirror [OF assms(1)] by (auto simp: queue_ok_def)
next
  case refused
  then show ?thesis using assms(1) by simp
qed

lemma dequeueJob_ok:
  assumes "queue_ok s" "dequeueJob s = Some (r, s')"
  shows "queue_ok s'" "sc_jobQueue s = r # sc_jobQueue s'" "deref s' = deref s" "queue_cap s' = queue_cap s"
proof -
  obtain q where q: "sc_jobQueue s = r # q" and s': "s' = markJobDequeued r (s\<lparr>sc_jobQueue := q\<rparr>)"
    using assms(2) by (auto simp: dequeueJob_def split: list.splits)
  show "sc_jobQueue s = r # sc_jobQueue s'" "deref s' = deref s" "queue_cap s' = queue_cap s"
    by (simp_all add: s' markJobDequeued_def q)
  show "queue_ok s'"
    using assms(1) by (auto simp: queue_ok_def s' markJobDequeued_def q)
qed

interpretation job_queue: bounded_queue enqueueJobLocked dequeueJob sc_jobQueue
  "\<lambda>s r. jb_ID (deref s r)" queue_cap queue_ok
proof unfold_locales
  fix s s' :: Scheduler and r ok
  assume ok: "queue_ok s" and e: "enqueueJobLocked r s = (ok, s')"
  show "ok \<longleftrightarrow> jb_ID (deref s r) \<notin> (\<lambda>r. jb_ID (deref s r)) ` set (sc_jobQueue s)
      \<and> length (sc_jobQueue s) < queue_cap s"
    using e queue_ok_mirror [OF ok] by (cases rule: enqueueJobLocked_cases) auto
  show "sc_jobQueue s' = (if ok then sc_jobQueue s @ [r] else sc_jobQueue s)"
    using e by (cases rule: enqueueJobLocked_cases) auto
  show "queue_ok s' \<and> queue_cap s' = queue_cap s \<and> (\<lambda>r. jb_ID (deref s' r)) = (\<lambda>r. jb_ID (deref s r))"
    using e enqueueJobLocked_ok [OF ok e] by (cases rule: enqueueJobLocked_cases) auto
next
  fix s s' :: Scheduler and r
  assume ok: "queue_ok s"
  show "(dequeueJob s = None) = (sc_jobQueue s = [])"
    by (simp add: dequeueJob_def split: list.splits)
  show "length (sc_jobQueue s) \<le> queue_cap s" "distinct (map (\<lambda>r. jb_ID (deref s r)) (sc_jobQueue s))"
    using ok by (simp_all add: queue_ok_def)
  assume "dequeueJob s = Some (r, s')"
  note d = dequeueJob_ok [OF ok this]
  show "sc_jobQueue s = r # sc_jobQueue s'" by (rule d(2))
  show "queue_ok s' \<and> queue_cap s' = queue_cap s \<and> (\<lambda>r. jb_ID (deref s' r)) = (\<lambda>r. jb_ID (deref s r))"
    using d by simp
qed

lemma requeueJob_ok: "queue_ok s \<Longrightarrow> queue_ok (requeueJob r s)"
  using enqueueJobLocked_ok [of s r] by (auto simp: requeueJob_def intro: prod.collapse [symmetric])

lemma only_journal_queue_ok: "only_journal s s' \<Longrightarrow> queue_ok s' = queue_ok s"
  by (simp add: queue_ok_def only_journal_frame queue_cap_def)

section \<open>Properties\<close>

text \<open>C10. The job queue is a bounded first-in first-out queue. Whatever sequence of sends and
  receives runs against it, from a state in which the set of queued IDs mirrors the channel: the
  jobs received are the jobs that were queued followed by the ones accepted, in that order, with
  nothing lost and nothing delivered twice; the channel never holds more than its capacity, nor
  two jobs with one ID; and the set of queued IDs keeps mirroring it.\<close>

theorem job_queue_fifo:
  assumes "queue_ok s" "run_queue enqueueJobLocked dequeueJob ops s = (accepted, received, s')"
  shows "sc_jobQueue s @ accepted = received @ sc_jobQueue s'
    \<and> length (sc_jobQueue s') \<le> queue_cap s
    \<and> distinct (map (\<lambda>r. jb_ID (deref s r)) (sc_jobQueue s')) \<and> queue_ok s'"
proof -
  note f = job_queue.run_fifo [OF assms]
  then have "(\<lambda>r. jb_ID (deref s' r)) = (\<lambda>r. jb_ID (deref s r))" by simp
  then show ?thesis
    using f job_queue.invar_cap [of s'] job_queue.invar_distinct [of s'] by simp
qed

definition example_jobs :: Scheduler where
  "example_jobs =
     NewScheduler\<lparr>sc_heap := map (\<lambda>r. (r, zero_job\<lparr>jb_ID := decimal r\<rparr>)) [0..<10], sc_next := 10\<rparr>"

theorem job_queue_fifo_witness:
  "run_queue enqueueJobLocked dequeueJob [Send 1, Send 2, Send 1, Receive, Send 1] example_jobs =
     ([1, 2, 1], [1], snd (snd (run_queue enqueueJobLocked dequeueJob
        [Send 1, Send 2, Send 1, Receive, Send 1] example_jobs)))
   \<and> sc_jobQueue (snd (snd (run_queue enqueueJobLocked dequeueJob
        [Send 1, Send 2, Send 1, Receive, Send 1] example_jobs))) = [2, 1]"
proof -
  let ?r = "run_queue enqueueJobLocked dequeueJob [Send 1, Send 2, Send 1, Receive, Send 1] example_jobs"
  have empty: "sc_jobQueue example_jobs = []" "sc_queuedJobs example_jobs = []" by code_simp+
  then have ok: "queue_ok example_jobs" by (simp add: queue_ok_def)
  have "fst ?r = [1, 2, 1]" "fst (snd ?r) = [1]" by code_simp+
  then have run: "?r = ([1, 2, 1], [1], snd (snd ?r))" by (metis prod.collapse)
  have "[1, 2, 1] = [1] @ sc_jobQueue (snd (snd ?r))"
    using job_queue_fifo [OF ok run] empty(1) by simp
  then show ?thesis using run by simp
qed

end
