(* ===== verification/Capacity.thy ===== *)
theory Capacity
  imports Sched_State
begin

text \<open>
  Choosing a worker: the capacity bookkeeping and the node selection of
  \<^verbatim>\<open>pkg/scheduler/scheduler.go\<close> (\<^verbatim>\<open>UpdateNodeCapacityAt\<close>, \<^verbatim>\<open>reserveNodeSlot\<close>, \<^verbatim>\<open>releaseNodeSlot\<close>,
  \<^verbatim>\<open>selectNodeByCapacity\<close>, \<^verbatim>\<open>selectNodeForTask\<close>, \<^verbatim>\<open>dispatchEligibleNodes\<close>, the dispatch cooldowns).
  A failed selection is \<^const>\<open>None\<close> (the zero node and \<^verbatim>\<open>false\<close> in Go).

  The lemmas say which node is selected: for a clock that stands still during the call, the loop
  over the nodes is a maximum over the eligible ones, fresh before stale.
\<close>

section \<open>Capacity records\<close>

definition getOrCreateNodeCapacityLocked ::
    "env \<Rightarrow> string \<Rightarrow> Scheduler \<Rightarrow> nodeCapacity \<times> Scheduler" where
  "getOrCreateNodeCapacityLocked ev nodeID s =
     (case mget (sc_nodeCapacity s) nodeID of
        Some capacity \<Rightarrow> (capacity, s)
      | None \<Rightarrow>
          (let (now, s) = time_Now ev s;
               capacity = \<lparr>nc_ReservedInFlight = 0, nc_ReportedInFlight = 0,
                  nc_MaxConcurrency = cf_DefaultWorkerMaxConcurrency (sc_config s),
                  nc_LastUpdated = now\<rparr>
           in (capacity, s\<lparr>sc_nodeCapacity := mput nodeID capacity (sc_nodeCapacity s)\<rparr>)))"

definition availableCapacityLocked :: "nodeCapacity \<Rightarrow> int" where
  "availableCapacityLocked c =
     (let inUse = nc_ReservedInFlight c;
          inUse = (if inUse < nc_ReportedInFlight c then nc_ReportedInFlight c else inUse)
      in nc_MaxConcurrency c - inUse)"

definition isCapacityFreshLocked :: "env \<Rightarrow> nodeCapacity \<Rightarrow> Scheduler \<Rightarrow> bool \<times> Scheduler" where
  "isCapacityFreshLocked ev c s =
     (if nc_LastUpdated c = 0 then (False, s)
      else let (now, s) = time_Now ev s
           in (now - nc_LastUpdated c \<le> cf_CapacityTTL (sc_config s), s))"

definition isInDispatchCooldownLocked :: "env \<Rightarrow> string \<Rightarrow> Scheduler \<Rightarrow> bool \<times> Scheduler" where
  "isInDispatchCooldownLocked ev nodeID s =
     (case mget (sc_dispatchCooldowns s) nodeID of
        None \<Rightarrow> (False, s)
      | Some expiry \<Rightarrow>
          (let (now, s) = time_Now ev s in
           if expiry < now
           then (False, s\<lparr>sc_dispatchCooldowns := mdel nodeID (sc_dispatchCooldowns s)\<rparr>)
           else (True, s)))"

definition nodeHasAvailableCapacity :: "env \<Rightarrow> string \<Rightarrow> Scheduler \<Rightarrow> bool \<times> Scheduler" where
  "nodeHasAvailableCapacity ev nodeID s =
     (let (cool, s) = isInDispatchCooldownLocked ev nodeID s in
      if cool then (False, s)
      else let (c, s) = getOrCreateNodeCapacityLocked ev nodeID s
           in (0 < availableCapacityLocked c, s))"

definition markDispatchCooldown :: "env \<Rightarrow> string \<Rightarrow> Scheduler \<Rightarrow> Scheduler" where
  "markDispatchCooldown ev nodeID s =
     (let (now, s) = time_Now ev s
      in s\<lparr>sc_dispatchCooldowns :=
             mput nodeID (now + cf_DispatchRejectCooldown (sc_config s)) (sc_dispatchCooldowns s)\<rparr>)"

definition reserveNodeSlot :: "env \<Rightarrow> string \<Rightarrow> Scheduler \<Rightarrow> Scheduler" where
  "reserveNodeSlot ev nodeID s =
     (let (c, s) = getOrCreateNodeCapacityLocked ev nodeID s;
          (now, s) = time_Now ev s
      in s\<lparr>sc_nodeCapacity := mput nodeID
             (c\<lparr>nc_ReservedInFlight := nc_ReservedInFlight c + 1, nc_LastUpdated := now\<rparr>)
             (sc_nodeCapacity s)\<rparr>)"

definition releaseNodeSlot :: "env \<Rightarrow> string \<Rightarrow> Scheduler \<Rightarrow> Scheduler" where
  "releaseNodeSlot ev nodeID s =
     (let (c, s) = getOrCreateNodeCapacityLocked ev nodeID s;
          (now, s) = time_Now ev s
      in s\<lparr>sc_nodeCapacity := mput nodeID
             (c\<lparr>nc_ReservedInFlight :=
                  (if 0 < nc_ReservedInFlight c then nc_ReservedInFlight c - 1
                   else nc_ReservedInFlight c),
                nc_LastUpdated := now\<rparr>)
             (sc_nodeCapacity s)\<rparr>)"

definition UpdateNodeCapacityAt ::
    "env \<Rightarrow> string \<Rightarrow> int \<Rightarrow> int \<Rightarrow> time \<Rightarrow> Scheduler \<Rightarrow> Scheduler" where
  "UpdateNodeCapacityAt ev nodeID inFlight maxConcurrency reportedAt s =
     (let (c, s) = getOrCreateNodeCapacityLocked ev nodeID s;
          inFlight = (if inFlight < 0 then 0 else inFlight);
          maxConcurrency =
            (if maxConcurrency \<le> 0 then cf_DefaultWorkerMaxConcurrency (sc_config s)
             else maxConcurrency);
          maxConcurrency =
            (if cf_MaxWorkerConcurrencyCap (sc_config s) < maxConcurrency
             then cf_MaxWorkerConcurrencyCap (sc_config s) else maxConcurrency);
          (reportedAt, s) = (if reportedAt = 0 then time_Now ev s else (reportedAt, s))
      in s\<lparr>sc_nodeCapacity := mput nodeID
             (c\<lparr>nc_ReportedInFlight := inFlight, nc_MaxConcurrency := maxConcurrency,
                nc_LastUpdated := reportedAt\<rparr>) (sc_nodeCapacity s)\<rparr>)"

definition UpdateNodeCapacity :: "env \<Rightarrow> string \<Rightarrow> int \<Rightarrow> int \<Rightarrow> Scheduler \<Rightarrow> Scheduler" where
  "UpdateNodeCapacity ev nodeID inFlight maxConcurrency s =
     (let (now, s) = time_Now ev s in UpdateNodeCapacityAt ev nodeID inFlight maxConcurrency now s)"

section \<open>Selection\<close>

text \<open>The best value so far and the positions that have it.\<close>

type_synonym best = "int \<times> nat list"

definition improve :: "int \<Rightarrow> nat \<Rightarrow> best \<Rightarrow> best" where
  "improve available i b =
     (if fst b < available then (available, [i])
      else if available = fst b then (fst b, snd b @ [i])
      else b)"

fun select_loop ::
    "env \<Rightarrow> nat \<Rightarrow> NodeInfo list \<Rightarrow> best \<Rightarrow> best \<Rightarrow> Scheduler \<Rightarrow> (best \<times> best) \<times> Scheduler" where
  "select_loop ev i [] fresh stale s = ((fresh, stale), s)"
| "select_loop ev i (node # nodes) fresh stale s =
     (let (cool, s) = isInDispatchCooldownLocked ev (ni_ID node) s in
      if cool then select_loop ev (Suc i) nodes fresh stale s
      else
        (let (c, s) = getOrCreateNodeCapacityLocked ev (ni_ID node) s;
             available = availableCapacityLocked c;
             (isFresh, s) = isCapacityFreshLocked ev c s
         in if isFresh then select_loop ev (Suc i) nodes (improve available i fresh) stale s
            else select_loop ev (Suc i) nodes fresh (improve available i stale) s))"

definition selectNodeByCapacity ::
    "env \<Rightarrow> NodeInfo list \<Rightarrow> Scheduler \<Rightarrow> NodeInfo option \<times> Scheduler" where
  "selectNodeByCapacity ev nodes s =
     (if length nodes = 1
      then let (ok, s) = nodeHasAvailableCapacity ev (ni_ID (nodes ! 0)) s
           in (if ok then Some (nodes ! 0) else None, s)
      else
        (let ((fresh, stale), s) = select_loop ev 0 nodes (-1, []) (-1, []) s in
         if 0 < fst fresh \<and> snd fresh \<noteq> []
         then (Some (nodes ! (snd fresh ! (sc_nodeIndex s mod length (snd fresh)))),
               s\<lparr>sc_nodeIndex := sc_nodeIndex s + 1\<rparr>)
         else if snd fresh \<noteq> [] then (None, s)
         else if fst stale \<le> 0 \<or> snd stale = [] then (None, s)
         else (Some (nodes ! (snd stale ! (sc_nodeIndex s mod length (snd stale)))),
               s\<lparr>sc_nodeIndex := sc_nodeIndex s + 1\<rparr>)))"

definition roundRobinSelect :: "NodeInfo list \<Rightarrow> Scheduler \<Rightarrow> NodeInfo \<times> Scheduler" where
  "roundRobinSelect nodes s =
     (nodes ! (sc_nodeIndex s mod length nodes), s\<lparr>sc_nodeIndex := sc_nodeIndex s + 1\<rparr>)"

definition is_control_plane :: "NodeInfo \<Rightarrow> bool" where
  "is_control_plane node \<longleftrightarrow>
     (case mget (ni_Metadata node) ''role'' of
        Some role \<Rightarrow> equal_fold (trim_space role) ''control-plane''
      | None \<Rightarrow> False)
     \<or> list_ex (\<lambda>c. equal_fold (trim_space c) ''control-plane'') (ni_Capabilities node)"

definition dispatchEligibleNodes :: "NodeInfo list \<Rightarrow> NodeInfo list" where
  "dispatchEligibleNodes nodes = filter (\<lambda>n. \<not> is_control_plane n) nodes"

text \<open>The last node with an identifier, as in the map built from the list.\<close>

definition healthy_node :: "NodeInfo list \<Rightarrow> string \<Rightarrow> NodeInfo option" where
  "healthy_node nodes nodeID =
     mget (fold (\<lambda>node m. mput (ni_ID node) node m) nodes []) nodeID"

definition with_affinity :: "(AffinityMap \<Rightarrow> AffinityMap) \<Rightarrow> Scheduler \<Rightarrow> Scheduler" where
  "with_affinity f s = s\<lparr>sc_affinityMap := map_option f (sc_affinityMap s)\<rparr>"

text \<open>The part of \<^verbatim>\<open>selectNodeForTask\<close> after a hit was ruled out: a new affinity.\<close>

definition select_miss ::
    "env \<Rightarrow> Task \<Rightarrow> NodeInfo list \<Rightarrow> AffinityResult \<Rightarrow> Scheduler
     \<Rightarrow> (NodeInfo option \<times> AffinityResult) \<times> Scheduler" where
  "select_miss ev task nodes result s =
     (let (sel, s) = selectNodeByCapacity ev nodes s in
      case sel of
        None \<Rightarrow> ((None, result), s)
      | Some node \<Rightarrow>
          (let (now, s) = time_Now ev s
           in ((Some node, result\<lparr>ar_NodeID := ni_ID node\<rparr>),
               with_affinity (\<lambda>am. snd (affinity_Set now (tk_PartitionKey task) (ni_ID node) am)) s)))"

definition selectNodeForTask ::
    "env \<Rightarrow> Task \<Rightarrow> NodeInfo list \<Rightarrow> Scheduler \<Rightarrow> (NodeInfo option \<times> AffinityResult) \<times> Scheduler" where
  "selectNodeForTask ev task nodes s =
     (let key = tk_PartitionKey task;
          result = \<lparr>ar_NodeID = '''', ar_IsHit = False, ar_IsStale = False, ar_PartitionKey = key\<rparr>
      in case sc_affinityMap s of
           None \<Rightarrow>
             (let (sel, s) = selectNodeByCapacity ev nodes s
              in ((sel, case sel of None \<Rightarrow> result | Some n \<Rightarrow> result\<lparr>ar_NodeID := ni_ID n\<rparr>), s))
         | Some am \<Rightarrow>
             if \<not> cf_EnableStickiness (sc_config s) \<or> key = ''''
             then (let (sel, s) = selectNodeByCapacity ev nodes s
                   in ((sel, case sel of None \<Rightarrow> result | Some n \<Rightarrow> result\<lparr>ar_NodeID := ni_ID n\<rparr>), s))
             else case affinity_Get key am of
                    None \<Rightarrow> select_miss ev task nodes result s
                  | Some entry \<Rightarrow>
                      (case healthy_node nodes (ae_NodeID entry) of
                         Some node \<Rightarrow>
                           (let (ok, s) = nodeHasAvailableCapacity ev (ae_NodeID entry) s in
                            if ok
                            then (let (now, s) = time_Now ev s
                                  in ((Some node, result\<lparr>ar_NodeID := ae_NodeID entry, ar_IsHit := True\<rparr>),
                                      with_affinity (\<lambda>am. snd (affinity_Touch now key am)) s))
                            else select_miss ev task nodes result s)
                       | None \<Rightarrow>
                           select_miss ev task nodes (result\<lparr>ar_IsStale := True\<rparr>)
                             (with_affinity (affinity_Delete key) s)))"

text \<open>Waiting for capacity. Without an event the wait goes on, so the list of events ends with a
  timeout at the latest.\<close>

fun defer_loop ::
    "env \<Rightarrow> deferral_event list \<Rightarrow> Task \<Rightarrow> AffinityResult \<Rightarrow> Scheduler
     \<Rightarrow> (NodeInfo option \<times> AffinityResult \<times> go_error option) \<times> Scheduler" where
  "defer_loop ev [] task aff s = ((None, aff, None), s)"
| "defer_loop ev (DeferDone e # es) task aff s = ((None, aff, Some e), s)"
| "defer_loop ev (DeferTimeout # es) task aff s = ((None, aff, None), s)"
| "defer_loop ev (DeferPoll # es) task aff s =
     (let (healthy, s) = GetHealthyNodes ev s;
          nodes = dispatchEligibleNodes healthy
      in if nodes = [] then defer_loop ev es task aff s
         else let ((sel, aff), s) = selectNodeForTask ev task nodes s
              in case sel of
                   Some node \<Rightarrow> ((Some node, aff, None), s)
                 | None \<Rightarrow> defer_loop ev es task aff s)"

definition selectNodeForTaskWithDeferral ::
    "env \<Rightarrow> deferral_event list \<Rightarrow> Task \<Rightarrow> NodeInfo list \<Rightarrow> Scheduler
     \<Rightarrow> (NodeInfo option \<times> AffinityResult \<times> go_error option) \<times> Scheduler" where
  "selectNodeForTaskWithDeferral ev events task initialNodes s =
     (let ((sel, aff), s) = selectNodeForTask ev task initialNodes s in
      case sel of
        Some node \<Rightarrow> ((Some node, aff, None), s)
      | None \<Rightarrow>
          if \<not> cf_EnableStageCapacityDeferral (sc_config s) then ((None, aff, None), s)
          else if cf_StageCapacityDeferralTimeout (sc_config s) \<le> 0
                  \<or> cf_StageCapacityDeferralPollInterval (sc_config s) \<le> 0
          then ((None, aff, None), s)
          else defer_loop ev events task aff s)"

section \<open>A clock that stands still\<close>

definition clock_at :: "env \<Rightarrow> time \<Rightarrow> bool" where
  "clock_at ev t \<longleftrightarrow> (\<forall>k. ev_now ev k = t)"

text \<open>What the code finds out about a node at time \<open>t\<close>.\<close>

definition cap_view :: "Scheduler \<Rightarrow> time \<Rightarrow> string \<Rightarrow> nodeCapacity" where
  "cap_view s t nodeID =
     (case mget (sc_nodeCapacity s) nodeID of
        Some c \<Rightarrow> c
      | None \<Rightarrow> \<lparr>nc_ReservedInFlight = 0, nc_ReportedInFlight = 0,
                 nc_MaxConcurrency = cf_DefaultWorkerMaxConcurrency (sc_config s),
                 nc_LastUpdated = t\<rparr>)"

definition avail_view :: "Scheduler \<Rightarrow> time \<Rightarrow> string \<Rightarrow> int" where
  "avail_view s t nodeID = availableCapacityLocked (cap_view s t nodeID)"

definition cooling :: "Scheduler \<Rightarrow> time \<Rightarrow> string \<Rightarrow> bool" where
  "cooling s t nodeID =
     (case mget (sc_dispatchCooldowns s) nodeID of None \<Rightarrow> False | Some expiry \<Rightarrow> t \<le> expiry)"

definition fresh_view :: "Scheduler \<Rightarrow> time \<Rightarrow> string \<Rightarrow> bool" where
  "fresh_view s t nodeID \<longleftrightarrow>
     nc_LastUpdated (cap_view s t nodeID) \<noteq> 0
     \<and> t - nc_LastUpdated (cap_view s t nodeID) \<le> cf_CapacityTTL (sc_config s)"

definition same_view :: "time \<Rightarrow> Scheduler \<Rightarrow> Scheduler \<Rightarrow> bool" where
  "same_view t s s' \<longleftrightarrow>
     cap_view s' t = cap_view s t \<and> cooling s' t = cooling s t
     \<and> sc_config s' = sc_config s \<and> sc_nodeIndex s' = sc_nodeIndex s
     \<and> sc_affinityMap s' = sc_affinityMap s"

lemma same_view_refl [simp, intro!]: "same_view t s s"
  by (simp add: same_view_def)

lemma same_view_trans: "same_view t s s' \<Longrightarrow> same_view t s' s'' \<Longrightarrow> same_view t s s''"
  by (simp add: same_view_def)

lemma same_view_views:
  assumes "same_view t s s'"
  shows "cap_view s' t n = cap_view s t n" "cooling s' t n = cooling s t n"
    "avail_view s' t n = avail_view s t n" "fresh_view s' t n = fresh_view s t n"
    "sc_nodeIndex s' = sc_nodeIndex s" "sc_affinityMap s' = sc_affinityMap s"
  using assms by (simp_all add: same_view_def avail_view_def fresh_view_def)

lemma isInDispatchCooldown_view:
  assumes "clock_at ev t" "isInDispatchCooldownLocked ev n s = (b, s')"
  shows "b = cooling s t n" "same_view t s s'"
  using assms
  by (auto simp: isInDispatchCooldownLocked_def clock_at_def time_Now_def same_view_def
      cap_view_def cooling_def fun_eq_iff Let_def split: option.splits if_splits)

lemma getOrCreate_view:
  assumes "clock_at ev t" "getOrCreateNodeCapacityLocked ev n s = (c, s')"
  shows "c = cap_view s t n" "same_view t s s'"
  using assms
  by (auto simp: getOrCreateNodeCapacityLocked_def clock_at_def time_Now_def same_view_def
      cap_view_def cooling_def fun_eq_iff Let_def split: option.splits if_splits)

lemma isCapacityFresh_view:
  assumes "clock_at ev t" "isCapacityFreshLocked ev (cap_view s t n) s = (b, s')"
  shows "b = fresh_view s t n" "same_view t s s'"
  using assms
  by (auto simp: isCapacityFreshLocked_def clock_at_def time_Now_def same_view_def fresh_view_def
      cap_view_def cooling_def fun_eq_iff Let_def split: option.splits if_splits)

lemma nodeHasAvailableCapacity_view:
  assumes "clock_at ev t" "nodeHasAvailableCapacity ev n s = (b, s')"
  shows "b = (\<not> cooling s t n \<and> 0 < avail_view s t n)" "same_view t s s'"
proof -
  obtain cool s1 where cool: "isInDispatchCooldownLocked ev n s = (cool, s1)" by fastforce
  obtain c s2 where c: "getOrCreateNodeCapacityLocked ev n s1 = (c, s2)" by fastforce
  note v1 = isInDispatchCooldown_view [OF assms(1) cool]
  note v2 = getOrCreate_view [OF assms(1) c]
  have "c = cap_view s t n" using v2(1) same_view_views(1) [OF v1(2)] by simp
  with assms(2) cool c v1 v2(2) same_view_trans [OF v1(2) v2(2)]
  show "b = (\<not> cooling s t n \<and> 0 < avail_view s t n)" "same_view t s s'"
    by (auto simp: nodeHasAvailableCapacity_def avail_view_def split: if_splits)
qed

section \<open>The selection loop is a maximum\<close>

text \<open>The candidates of one class in a list of nodes, with their positions.\<close>

definition candidates ::
    "(string \<Rightarrow> bool) \<Rightarrow> Scheduler \<Rightarrow> time \<Rightarrow> nat \<Rightarrow> NodeInfo list \<Rightarrow> (int \<times> nat) list" where
  "candidates P s t i nodes =
     map (\<lambda>(k, n). (avail_view s t (ni_ID n), k))
       (filter (\<lambda>(k, n). \<not> cooling s t (ni_ID n) \<and> P (ni_ID n)) (enumerate i nodes))"

definition improve_all :: "(int \<times> nat) list \<Rightarrow> best \<Rightarrow> best" where
  "improve_all xs b = fold (\<lambda>(a, i). improve a i) xs b"

lemma candidates_simps:
  "candidates P s t i [] = []"
  "candidates P s t i (n # ns) =
     (if \<not> cooling s t (ni_ID n) \<and> P (ni_ID n)
      then (avail_view s t (ni_ID n), i) # candidates P s t (Suc i) ns
      else candidates P s t (Suc i) ns)"
  by (simp_all add: candidates_def)

lemma candidates_cong:
  "same_view t s s' \<Longrightarrow> candidates P s' t i ns = candidates P s t i ns"
  by (simp add: candidates_def same_view_views)

lemma select_loop_views:
  assumes "clock_at ev t" "select_loop ev i nodes fr st s = ((fr', st'), s')"
  shows "fr' = improve_all (candidates (fresh_view s t) s t i nodes) fr
         \<and> st' = improve_all (candidates (\<lambda>n. \<not> fresh_view s t n) s t i nodes) st
         \<and> same_view t s s'"
  using assms(2)
proof (induction nodes arbitrary: i fr st s)
  case Nil
  then show ?case by (simp add: candidates_simps improve_all_def)
next
  case (Cons n nodes)
  let ?id = "ni_ID n"
  obtain cool s1 where cool: "isInDispatchCooldownLocked ev ?id s = (cool, s1)" by fastforce
  note v1 = isInDispatchCooldown_view [OF assms(1) cool]
  show ?case
  proof (cases cool)
    case True
    with Cons.prems cool have "select_loop ev (Suc i) nodes fr st s1 = ((fr', st'), s')" by simp
    from Cons.IH [OF this] True v1 show ?thesis
      by (auto simp: candidates_simps candidates_cong same_view_views intro: same_view_trans)
  next
    case False
    obtain c s2 where c: "getOrCreateNodeCapacityLocked ev ?id s1 = (c, s2)" by fastforce
    note v2 = getOrCreate_view [OF assms(1) c]
    obtain fresh s3 where fresh: "isCapacityFreshLocked ev c s2 = (fresh, s3)" by fastforce
    have c_view: "c = cap_view s2 t ?id" using v2 by (simp add: same_view_views)
    note v3 = isCapacityFresh_view [OF assms(1) fresh [unfolded c_view]]
    have view: "same_view t s s3" using v1(2) v2(2) v3(2) by (blast intro: same_view_trans)
    have a: "availableCapacityLocked c = avail_view s t ?id" and f: "fresh = fresh_view s t ?id"
      using v1(2) v2 v3(1) by (simp_all add: avail_view_def same_view_views)
    have "select_loop ev (Suc i) nodes
        (if fresh then improve (avail_view s t ?id) i fr else fr)
        (if fresh then st else improve (avail_view s t ?id) i st) s3 = ((fr', st'), s')"
      using Cons.prems cool c fresh False by (simp add: a Let_def split: if_splits)
    from Cons.IH [OF this] view False v1(1) f show ?thesis
      by (auto simp: candidates_simps candidates_cong same_view_views improve_all_def
          intro: same_view_trans)
  qed
qed

lemma improve_all_max:
  fixes xs :: "(int \<times> nat) list"
  defines "b \<equiv> improve_all xs (-1, [])"
  shows "(\<forall>(a, i) \<in> set xs. a \<le> fst b) \<and> snd b = map snd (filter (\<lambda>(a, i). a = fst b) xs)
         \<and> -1 \<le> fst b \<and> (fst b = -1 \<or> snd b \<noteq> [])"
  unfolding b_def
proof (induction xs rule: rev_induct)
  case Nil
  then show ?case by (simp add: improve_all_def)
next
  case (snoc x xs)
  obtain a i where x: "x = (a, i)" by fastforce
  define b where "b = improve_all xs (-1, [])"
  have step: "improve_all (xs @ [x]) (-1, []) = improve a i b"
    by (simp add: improve_all_def b_def x)
  have none: "filter (\<lambda>(a', i). a' = a) xs = []" if "fst b < a"
    using snoc that by (fastforce simp: b_def filter_empty_conv)
  show ?case
    unfolding step using snoc none by (auto simp: improve_def b_def x filter_empty_conv)
qed

lemma candidates_mem:
  "(a, k) \<in> set (candidates P s t 0 nodes) \<longleftrightarrow>
     k < length nodes \<and> a = avail_view s t (ni_ID (nodes ! k))
     \<and> \<not> cooling s t (ni_ID (nodes ! k)) \<and> P (ni_ID (nodes ! k))"
  by (auto simp: candidates_def in_set_enumerate_eq image_iff)

lemma improve_all_candidates:
  assumes "b = improve_all (candidates P s t 0 nodes) (-1, [])"
  shows "i \<in> set (snd b) \<Longrightarrow> i < length nodes \<and> avail_view s t (ni_ID (nodes ! i)) = fst b
           \<and> \<not> cooling s t (ni_ID (nodes ! i)) \<and> P (ni_ID (nodes ! i))"
    and "m \<in> set nodes \<Longrightarrow> \<not> cooling s t (ni_ID m) \<Longrightarrow> P (ni_ID m) \<Longrightarrow> avail_view s t (ni_ID m) \<le> fst b"
    and "snd b = [] \<Longrightarrow> fst b = -1"
    and "snd b = [] \<Longrightarrow> m \<in> set nodes \<Longrightarrow> \<not> cooling s t (ni_ID m) \<Longrightarrow> P (ni_ID m) \<Longrightarrow>
         avail_view s t (ni_ID m) < -1"
proof -
  note best = improve_all_max [of "candidates P s t 0 nodes", folded assms]
  show "i \<in> set (snd b) \<Longrightarrow> i < length nodes \<and> avail_view s t (ni_ID (nodes ! i)) = fst b
           \<and> \<not> cooling s t (ni_ID (nodes ! i)) \<and> P (ni_ID (nodes ! i))"
    using best by (auto simp: candidates_mem)
  show 1: "snd b = [] \<Longrightarrow> fst b = -1" using best by auto
  have mem: "(avail_view s t (ni_ID m), k) \<in> set (candidates P s t 0 nodes)"
    if "nodes ! k = m" "k < length nodes" "\<not> cooling s t (ni_ID m)" "P (ni_ID m)" for m k
    using that by (simp add: candidates_mem)
  show le: "avail_view s t (ni_ID m) \<le> fst b"
    if "m \<in> set nodes" "\<not> cooling s t (ni_ID m)" "P (ni_ID m)" for m
    using that best mem by (fastforce simp: in_set_conv_nth)
  show "avail_view s t (ni_ID m) < -1"
    if "snd b = []" "m \<in> set nodes" "\<not> cooling s t (ni_ID m)" "P (ni_ID m)" for m
  proof -
    note m = that
    obtain k where k: "nodes ! k = m" "k < length nodes" using m(2) by (auto simp: in_set_conv_nth)
    have "avail_view s t (ni_ID m) \<noteq> fst b"
      using best m(1) mem [OF k m(3,4)] by (fastforce simp: filter_empty_conv)
    with le [OF m(2-4)] 1 [OF m(1)] show ?thesis by simp
  qed
qed

lemma selectNodeByCapacity_single:
  assumes "clock_at ev t" "selectNodeByCapacity ev [n] s = (sel, s')"
  shows "sel = (if \<not> cooling s t (ni_ID n) \<and> 0 < avail_view s t (ni_ID n) then Some n else None)"
proof -
  obtain ok s1 where ok: "nodeHasAvailableCapacity ev (ni_ID n) s = (ok, s1)" by fastforce
  with assms(2) show ?thesis
    using nodeHasAvailableCapacity_view(1) [OF assms(1) ok]
    by (auto simp: selectNodeByCapacity_def)
qed

lemma selectNodeByCapacity_many:
  assumes "clock_at ev t" "selectNodeByCapacity ev nodes s = (sel, s')" "length nodes \<noteq> 1"
  defines "fr \<equiv> improve_all (candidates (fresh_view s t) s t 0 nodes) (-1, [])"
    and "st \<equiv> improve_all (candidates (\<lambda>n. \<not> fresh_view s t n) s t 0 nodes) (-1, [])"
  shows "sel =
    (if 0 < fst fr \<and> snd fr \<noteq> [] then Some (nodes ! (snd fr ! (sc_nodeIndex s mod length (snd fr))))
     else if snd fr \<noteq> [] \<or> fst st \<le> 0 \<or> snd st = [] then None
     else Some (nodes ! (snd st ! (sc_nodeIndex s mod length (snd st)))))"
proof -
  obtain fr' st' s1 where loop: "select_loop ev 0 nodes (-1, []) (-1, []) s = ((fr', st'), s1)"
    by (metis prod.collapse)
  note v = select_loop_views [OF assms(1) loop]
  have "fr' = fr" "st' = st" "sc_nodeIndex s1 = sc_nodeIndex s"
    using v by (simp_all add: fr_def st_def same_view_def)
  with assms(2,3) loop show ?thesis by (auto simp: selectNodeByCapacity_def split: if_splits)
qed

section \<open>Reserved slots\<close>

definition reserved_of :: "Scheduler \<Rightarrow> string \<Rightarrow> int" where
  "reserved_of s n = (case mget (sc_nodeCapacity s) n of None \<Rightarrow> 0 | Some c \<Rightarrow> nc_ReservedInFlight c)"

lemma reserve_reserved:
  "reserved_of (reserveNodeSlot ev n s) m = (if m = n then reserved_of s n + 1 else reserved_of s m)"
  by (auto simp: reserved_of_def reserveNodeSlot_def getOrCreateNodeCapacityLocked_def time_Now_def
      Let_def split: option.splits)

lemma release_reserved:
  "reserved_of (releaseNodeSlot ev n s) m =
     (if m = n then (if 0 < reserved_of s n then reserved_of s n - 1 else reserved_of s n)
      else reserved_of s m)"
  by (auto simp: reserved_of_def releaseNodeSlot_def getOrCreateNodeCapacityLocked_def time_Now_def
      Let_def split: option.splits)

section \<open>Frames\<close>

text \<open>Selection touches the capacity bookkeeping and the affinity map only.\<close>

definition only_capacity :: "Scheduler \<Rightarrow> Scheduler \<Rightarrow> bool" where
  "only_capacity s s' \<longleftrightarrow>
     s\<lparr>sc_nodeIndex := sc_nodeIndex s', sc_nodeCapacity := sc_nodeCapacity s',
       sc_dispatchCooldowns := sc_dispatchCooldowns s', sc_tick := sc_tick s'\<rparr> = s'"

definition only_selection :: "Scheduler \<Rightarrow> Scheduler \<Rightarrow> bool" where
  "only_selection s s' \<longleftrightarrow>
     s\<lparr>sc_affinityMap := sc_affinityMap s', sc_nodeIndex := sc_nodeIndex s',
       sc_nodeCapacity := sc_nodeCapacity s', sc_dispatchCooldowns := sc_dispatchCooldowns s',
       sc_tick := sc_tick s'\<rparr> = s'"

lemma only_capacity_trans: "only_capacity s s' \<Longrightarrow> only_capacity s' s'' \<Longrightarrow> only_capacity s s''"
  by (cases s; cases s'; cases s'') (simp add: only_capacity_def)

lemma only_selection_trans: "only_selection s s' \<Longrightarrow> only_selection s' s'' \<Longrightarrow> only_selection s s''"
  by (cases s; cases s'; cases s'') (simp add: only_selection_def)

lemmas only_capacityI = only_capacity_def [THEN iffD2]
lemmas only_selectionI = only_selection_def [THEN iffD2]

lemma only_capacity_selection: "only_capacity s s' \<Longrightarrow> only_selection s s'"
  by (cases s; cases s') (simp add: only_capacity_def only_selection_def)

lemma only_selection_refl [simp, intro!]: "only_selection s s" "only_capacity s s"
  by (rule only_selectionI only_capacityI, simp)+

lemma only_capacity_tick [simp, intro!]: "only_capacity s (step_tick s)"
  by (rule only_capacityI) (simp add: step_tick_def)

lemma only_selection_frame:
  assumes "only_selection s s'"
  shows "sc_heap s' = sc_heap s" "sc_next s' = sc_next s" "sc_jobs s' = sc_jobs s"
    "sc_jobQueue s' = sc_jobQueue s" "sc_queuedJobs s' = sc_queuedJobs s"
    "sc_config s' = sc_config s" "sc_transitionStore s' = sc_transitionStore s"
    "sc_jobSequences s' = sc_jobSequences s" "sc_started s' = sc_started s"
    "sc_recovering s' = sc_recovering s" "sc_stopRequested s' = sc_stopRequested s"
    "sc_replayQuarantine s' = sc_replayQuarantine s" "sc_pendingEnqueue s' = sc_pendingEnqueue s"
    "sc_lastReconcileTime s' = sc_lastReconcileTime s" "deref s' = deref s"
  using assms by (cases s; cases s'; simp add: only_selection_def deref_def fun_eq_iff)+

lemma only_capacity_affinity: "only_capacity s s' \<Longrightarrow> sc_affinityMap s' = sc_affinityMap s"
  by (cases s; cases s') (simp add: only_capacity_def)

lemma capacity_ops_frame:
  "only_capacity s (snd (getOrCreateNodeCapacityLocked ev n s))"
  "only_capacity s (snd (isCapacityFreshLocked ev c s))"
  "only_capacity s (snd (isInDispatchCooldownLocked ev n s))"
  "only_capacity s (markDispatchCooldown ev n s)"
  by (rule only_capacityI;
      simp add: getOrCreateNodeCapacityLocked_def isCapacityFreshLocked_def
        isInDispatchCooldownLocked_def markDispatchCooldown_def time_Now_def step_tick_def Let_def
      split: option.splits)+

lemma getOrCreate_frame: "getOrCreateNodeCapacityLocked ev n s = (c, s') \<Longrightarrow> only_capacity s s'"
  using capacity_ops_frame(1) [of s ev n] by simp

lemma reserve_release_frame:
  "only_capacity s (reserveNodeSlot ev n s)" "only_capacity s (releaseNodeSlot ev n s)"
  "only_capacity s (UpdateNodeCapacityAt ev n i m at s)"
proof -
  obtain c s1 where g: "getOrCreateNodeCapacityLocked ev n s = (c, s1)" by fastforce
  have 1: "only_capacity s1 (reserveNodeSlot ev n s)" "only_capacity s1 (releaseNodeSlot ev n s)"
    "only_capacity s1 (UpdateNodeCapacityAt ev n i m at s)"
    by (rule only_capacityI; simp add: reserveNodeSlot_def releaseNodeSlot_def
        UpdateNodeCapacityAt_def g time_Now_def step_tick_def Let_def)+
  note s1 = getOrCreate_frame [OF g]
  show "only_capacity s (reserveNodeSlot ev n s)" "only_capacity s (releaseNodeSlot ev n s)"
    "only_capacity s (UpdateNodeCapacityAt ev n i m at s)"
    using s1 1 by (blast intro: only_capacity_trans)+
qed

lemma nodeHasAvailableCapacity_frame: "only_capacity s (snd (nodeHasAvailableCapacity ev n s))"
proof -
  obtain b s1 where b: "isInDispatchCooldownLocked ev n s = (b, s1)" by fastforce
  obtain c s2 where c: "getOrCreateNodeCapacityLocked ev n s1 = (c, s2)" by fastforce
  have "only_capacity s s1" "only_capacity s1 s2"
    using capacity_ops_frame(1) [of s1 ev n] capacity_ops_frame(3) [of s ev n] b c by simp_all
  then show ?thesis
    using b c by (auto simp: nodeHasAvailableCapacity_def intro: only_capacity_trans)
qed

lemma select_loop_frame: "only_capacity s (snd (select_loop ev i nodes fr st s))"
proof (induction nodes arbitrary: i fr st s)
  case (Cons n nodes)
  obtain b s1 where b: "isInDispatchCooldownLocked ev (ni_ID n) s = (b, s1)" by fastforce
  obtain c s2 where c: "getOrCreateNodeCapacityLocked ev (ni_ID n) s1 = (c, s2)" by fastforce
  obtain f s3 where f: "isCapacityFreshLocked ev c s2 = (f, s3)" by fastforce
  have "only_capacity s s1" "only_capacity s1 s2" "only_capacity s2 s3"
    using capacity_ops_frame(1) [of s1 ev "ni_ID n"] capacity_ops_frame(2) [of s2 ev c]
      capacity_ops_frame(3) [of s ev "ni_ID n"] b c f by simp_all
  then have "only_capacity s s1" "only_capacity s s3" by (blast intro: only_capacity_trans)+
  then have "only_capacity s (snd (select_loop ev j nodes fr' st' s1))"
    "only_capacity s (snd (select_loop ev j nodes fr' st' s3))" for j fr' st'
    using Cons.IH by (blast intro: only_capacity_trans)+
  with b c f show ?case by (simp add: Let_def)
qed simp

lemma selectNodeByCapacity_frame: "only_capacity s (snd (selectNodeByCapacity ev nodes s))"
proof (cases "length nodes = 1")
  case True
  then show ?thesis
    using nodeHasAvailableCapacity_frame [of s ev "ni_ID (nodes ! 0)"]
    by (auto simp: selectNodeByCapacity_def split: prod.splits)
next
  case False
  obtain fr st s1 where loop: "select_loop ev 0 nodes (-1, []) (-1, []) s = ((fr, st), s1)"
    by (metis prod.collapse)
  have s1: "only_capacity s s1"
    using select_loop_frame [of s ev 0 nodes "(-1, [])" "(-1, [])"] loop by simp
  have "only_capacity s1 (s1\<lparr>sc_nodeIndex := i\<rparr>)" for i by (rule only_capacityI) simp
  with s1 have "only_capacity s (s1\<lparr>sc_nodeIndex := i\<rparr>)" for i by (blast intro: only_capacity_trans)
  with s1 loop False show ?thesis by (simp add: selectNodeByCapacity_def)
qed

lemma with_affinity_frame: "only_selection s (with_affinity f s)"
  by (rule only_selectionI) (simp add: with_affinity_def)

lemma select_miss_frame: "only_selection s (snd (select_miss ev task nodes result s))"
proof -
  obtain sel s1 where sel: "selectNodeByCapacity ev nodes s = (sel, s1)" by fastforce
  have s1: "only_selection s s1"
    using selectNodeByCapacity_frame [of s ev nodes] sel by (simp add: only_capacity_selection)
  have "only_selection s1 (with_affinity f (step_tick s1))" for f
    by (meson only_capacity_selection only_capacity_tick only_selection_trans with_affinity_frame)
  with s1 have "only_selection s (with_affinity f (step_tick s1))" for f
    by (blast intro: only_selection_trans)
  with s1 sel show ?thesis by (simp add: select_miss_def time_Now_def Let_def split: option.splits)
qed

lemma selectNodeForTask_frame: "only_selection s (snd (selectNodeForTask ev task nodes s))"
proof -
  obtain sel s1 where sel: "selectNodeByCapacity ev nodes s = (sel, s1)" by fastforce
  have s1: "only_selection s s1"
    using selectNodeByCapacity_frame [of s ev nodes] sel by (simp add: only_capacity_selection)
  have miss: "only_selection s (snd (select_miss ev task nodes r (with_affinity f s)))" for r f
    using select_miss_frame with_affinity_frame only_selection_trans by blast
  have hit: "only_selection s s2" "only_selection s (snd (select_miss ev task nodes r s2))"
    "only_selection s (with_affinity f (step_tick s2))"
    if "nodeHasAvailableCapacity ev n s = (b, s2)" for n b s2 r f
  proof -
    show s2: "only_selection s s2"
      using nodeHasAvailableCapacity_frame [of s ev n] that by (simp add: only_capacity_selection)
    show "only_selection s (snd (select_miss ev task nodes r s2))"
      using s2 select_miss_frame only_selection_trans by blast
    show "only_selection s (with_affinity f (step_tick s2))"
      by (meson s2 only_capacity_selection only_capacity_tick only_selection_trans
          with_affinity_frame)
  qed
  show ?thesis
    using s1 sel miss hit select_miss_frame
    by (auto simp: selectNodeForTask_def Let_def time_Now_def
        split: option.splits if_splits prod.splits)
qed

lemma defer_loop_frame: "only_selection s (snd (defer_loop ev es task aff s))"
proof (induction ev es task aff s rule: defer_loop.induct)
  case (4 ev es task aff s)
  define nodes where "nodes = dispatchEligibleNodes (ev_nodes ev (sc_tick s))"
  obtain sel aff' s1 where sel: "selectNodeForTask ev task nodes (step_tick s) = ((sel, aff'), s1)"
    by (metis prod.collapse)
  have t: "only_selection s (step_tick s)" by (simp add: only_capacity_selection)
  have s1: "only_selection s s1"
    using selectNodeForTask_frame [of "step_tick s" ev task nodes] sel t
    by (auto intro: only_selection_trans)
  show ?case
    using 4 sel t s1 by (auto simp: GetHealthyNodes_def nodes_def [symmetric] Let_def
        split: option.splits intro: only_selection_trans)
qed simp_all

lemma selectWithDeferral_frame:
  "only_selection s (snd (selectNodeForTaskWithDeferral ev es task nodes s))"
proof -
  obtain sel aff s1 where sel: "selectNodeForTask ev task nodes s = ((sel, aff), s1)"
    by (metis prod.collapse)
  have "only_selection s s1" using selectNodeForTask_frame [of s ev task nodes] sel by simp
  with sel defer_loop_frame only_selection_trans show ?thesis
    by (auto simp: selectNodeForTaskWithDeferral_def split: option.splits)
qed

section \<open>Stickiness\<close>

lemma healthy_node_ID: "healthy_node nodes n = Some node \<Longrightarrow> ni_ID node = n \<and> node \<in> set nodes"
proof -
  have "mget (fold (\<lambda>node m. mput (ni_ID node) node m) ns m) n = Some node \<Longrightarrow>
      ni_ID node = n \<and> node \<in> set ns \<or> mget m n = Some node" for ns m
    by (induction ns arbitrary: m) (fastforce split: if_splits)+
  from this [of nodes "[]"] show "healthy_node nodes n = Some node \<Longrightarrow> ?thesis"
    by (simp add: healthy_node_def)
qed

lemma healthy_node_None: "healthy_node nodes n = None \<Longrightarrow> n \<notin> ni_ID ` set nodes"
proof -
  have "mget (fold (\<lambda>node m. mput (ni_ID node) node m) ns m) n = None \<longleftrightarrow>
      n \<notin> ni_ID ` set ns \<and> mget m n = None" for ns m
    by (induction ns arbitrary: m) auto
  from this [of nodes "[]"] show "healthy_node nodes n = None \<Longrightarrow> n \<notin> ni_ID ` set nodes"
    by (simp add: healthy_node_def)
qed

lemma select_miss_sticks:
  assumes "select_miss ev task nodes r s = ((Some n, r'), s')" "sc_affinityMap s = Some am"
  shows "\<exists>am' e. sc_affinityMap s' = Some am' \<and> affinity_Get (tk_PartitionKey task) am' = Some e
           \<and> ae_NodeID e = ni_ID n" "ar_NodeID r' = ni_ID n" "ar_IsHit r' = ar_IsHit r"
proof -
  obtain s1 where s1: "selectNodeByCapacity ev nodes s = (Some n, s1)"
    "s' = with_affinity (\<lambda>am. snd (affinity_Set (ev_now ev (sc_tick s1)) (tk_PartitionKey task)
        (ni_ID n) am)) (step_tick s1)" "r' = r\<lparr>ar_NodeID := ni_ID n\<rparr>"
    using assms(1) by (auto simp: select_miss_def time_Now_def Let_def split: prod.splits option.splits)
  have "sc_affinityMap s1 = Some am"
    using selectNodeByCapacity_frame [of s ev nodes] s1(1) assms(2) by (simp add: only_capacity_affinity)
  with s1 show "\<exists>am' e. sc_affinityMap s' = Some am' \<and> affinity_Get (tk_PartitionKey task) am' = Some e
           \<and> ae_NodeID e = ni_ID n" "ar_NodeID r' = ni_ID n" "ar_IsHit r' = ar_IsHit r"
    by (auto simp: with_affinity_def affinity_Get_def affinity_Set_def Let_def)
qed

section \<open>Properties\<close>


definition example_node :: "string \<Rightarrow> NodeInfo" where
  "example_node nodeID =
     \<lparr>ni_ID = nodeID, ni_Name = nodeID, ni_Address = '''', ni_Port = 0, ni_Capabilities = [],
      ni_Metadata = [], ni_LastSeen = 0, ni_Healthy = True\<rparr>"

definition example_env :: "time \<Rightarrow> env" where
  "example_env t =
     \<lparr>ev_now = (\<lambda>_. t),
      ev_authority = (\<lambda>_. Inr \<lparr>la_IsLeader = True, la_Epoch = ''single-node'', la_LeaderID = ''local'',
                        la_Scope = ''''\<rparr>),
      ev_nodes = (\<lambda>_. [example_node ''n1'', example_node ''n2'']),
      ev_exec = (\<lambda>_ _ _ _ _. Inr None), ev_faults = (\<lambda>_. no_faults), ev_ctx = (\<lambda>_. None),
      ev_choice = (\<lambda>_. False), ev_deferral = (\<lambda>_. [DeferTimeout]),
      ev_scan_ctx = (\<lambda>_ _ _. None), ev_scan_faults = (\<lambda>_ _. no_faults), ev_rank = (\<lambda>_ _. 0),
      ev_marshal = (\<lambda>_. None), ev_unmarshal = (\<lambda>_. None)\<rparr>"

definition example_sched :: "(string, nodeCapacity) gomap \<Rightarrow> Scheduler" where
  "example_sched caps = NewScheduler\<lparr>sc_nodeCapacity := caps\<rparr>"

definition example_cap :: "int \<Rightarrow> int \<Rightarrow> time \<Rightarrow> nodeCapacity" where
  "example_cap reported limit updated =
     \<lparr>nc_ReservedInFlight = 0, nc_ReportedInFlight = reported, nc_MaxConcurrency = limit,
      nc_LastUpdated = updated\<rparr>"

definition example_two :: Scheduler where
  "example_two = example_sched [(''n1'', example_cap 3 4 900), (''n2'', example_cap 1 4 900)]"



text \<open>A slot reserved for a dispatch is given back by the release, for the node in question and
  for no other; a count that is not negative stays so.\<close>

lemma reserve_release_balanced:
  assumes "0 \<le> reserved_of s n"
  shows "reserved_of (releaseNodeSlot ev n (reserveNodeSlot ev n s)) m = reserved_of s m
         \<and> reserved_of (reserveNodeSlot ev n s) n = reserved_of s n + 1
         \<and> 0 \<le> reserved_of (releaseNodeSlot ev n s) n"
  using assms by (simp add: reserve_reserved release_reserved)

text \<open>A capacity report is clamped: never negative in flight, and a limit between one and the
  configured cap for a validated configuration.\<close>

lemma UpdateNodeCapacity_clamped:
  assumes "config_ok (sc_config s)"
    and "mget (sc_nodeCapacity (UpdateNodeCapacityAt ev nodeID inFlight maxConcurrency at s)) nodeID =
         Some c"
  shows "nc_ReportedInFlight c = max 0 inFlight \<and> 0 < nc_MaxConcurrency c
    \<and> nc_MaxConcurrency c \<le> cf_MaxWorkerConcurrencyCap (sc_config s)
    \<and> (at \<noteq> 0 \<longrightarrow> nc_LastUpdated c = at) \<and> nc_ReservedInFlight c = reserved_of s nodeID"
  using assms
  by (auto simp: UpdateNodeCapacityAt_def getOrCreateNodeCapacityLocked_def time_Now_def Let_def
      config_ok_def reserved_of_def split: option.splits if_splits)

text \<open>C23. Sticky scheduling: a successful selection for a task with a partition key leaves the key
  pinned to the selected node, and when the key was pinned to an offered node that is not cooling
  down and has a free slot, that node is selected.\<close>

theorem affinity_pins_selected_node:
  assumes "sc_affinityMap s = Some am" "cf_EnableStickiness (sc_config s)"
    and "tk_PartitionKey task \<noteq> ''''" "selectNodeForTask ev task nodes s = ((Some n, res), s')"
  shows "(\<exists>am' e. sc_affinityMap s' = Some am' \<and> affinity_Get (tk_PartitionKey task) am' = Some e
            \<and> ae_NodeID e = ni_ID n)
    \<and> (clock_at ev t \<longrightarrow>
        (case affinity_Get (tk_PartitionKey task) am of
           None \<Rightarrow> True
         | Some e \<Rightarrow> ae_NodeID e \<in> ni_ID ` set nodes \<longrightarrow> \<not> cooling s t (ae_NodeID e) \<longrightarrow>
             0 < avail_view s t (ae_NodeID e) \<longrightarrow> ni_ID n = ae_NodeID e \<and> ar_IsHit res))"
proof (cases "affinity_Get (tk_PartitionKey task) am")
  case None
  with assms have "\<exists>r. select_miss ev task nodes r s = ((Some n, res), s')"
    by (auto simp: selectNodeForTask_def)
  with None assms(1) select_miss_sticks(1) show ?thesis by fastforce
next
  case (Some e)
  let ?key = "tk_PartitionKey task"
  show ?thesis
  proof (cases "healthy_node nodes (ae_NodeID e)")
    case None
    with Some assms have "\<exists>r. select_miss ev task nodes r (with_affinity (affinity_Delete ?key) s) =
        ((Some n, res), s')" by (auto simp: selectNodeForTask_def Let_def)
    moreover have "sc_affinityMap (with_affinity (affinity_Delete ?key) s) =
        Some (affinity_Delete ?key am)" by (simp add: with_affinity_def assms(1))
    ultimately have "\<exists>am' e. sc_affinityMap s' = Some am' \<and> affinity_Get ?key am' = Some e
        \<and> ae_NodeID e = ni_ID n" using select_miss_sticks(1) by blast
    moreover have "ae_NodeID e \<notin> ni_ID ` set nodes"
      using None healthy_node_None by blast
    ultimately show ?thesis by (simp add: Some)
  next
    case (Some node)
    note id = healthy_node_ID [OF Some]
    obtain ok s1 where ok: "nodeHasAvailableCapacity ev (ae_NodeID e) s = (ok, s1)" by fastforce
    have am1: "sc_affinityMap s1 = Some am"
      using nodeHasAvailableCapacity_frame [of s ev "ae_NodeID e"] ok assms(1)
      by (simp add: only_capacity_affinity)
    have view: "ok = (\<not> cooling s t (ae_NodeID e) \<and> 0 < avail_view s t (ae_NodeID e))"
      if "clock_at ev t" using nodeHasAvailableCapacity_view(1) [OF that ok] .
    show ?thesis
    proof (cases ok)
      case True
      with assms Some \<open>affinity_Get ?key am = Some e\<close> ok
      have "n = node" "ar_IsHit res"
        "s' = with_affinity (\<lambda>am. snd (affinity_Touch (ev_now ev (sc_tick s1)) ?key am)) (step_tick s1)"
        by (auto simp: selectNodeForTask_def time_Now_def Let_def)
      with id am1 \<open>affinity_Get ?key am = Some e\<close> show ?thesis
        by (auto simp: with_affinity_def affinity_Get_def affinity_Touch_def)
    next
      case False
      with assms Some \<open>affinity_Get ?key am = Some e\<close> ok
      obtain r where "select_miss ev task nodes r s1 = ((Some n, res), s')"
        by (auto simp: selectNodeForTask_def Let_def)
      with select_miss_sticks(1) [OF this am1] False view \<open>affinity_Get ?key am = Some e\<close>
      show ?thesis by auto
    qed
  qed
qed

definition example_task :: Task where
  "example_task =
     \<lparr>tk_ID = ''t1'', tk_StageID = ''s1'', tk_JobID = ''j1'', tk_AgentID = ''a1'', tk_AgentName = ''echo'',
      tk_Input = None, tk_Output = None, tk_PartitionKey = ''p1'', tk_Status = JobPending,
      tk_LifecycleState = TaskStatePending, tk_Attempts = 0\<rparr>"

definition example_sticky :: Scheduler where
  "example_sticky =
     snd (selectNodeForTask (example_env 1000) example_task [example_node ''n2''] NewScheduler)"

theorem affinity_pins_selected_node_witness:
  "\<exists>am' e. sc_affinityMap (snd (selectNodeForTask (example_env 1000) example_task
       [example_node ''n1'', example_node ''n2''] example_sticky)) = Some am'
     \<and> affinity_Get ''p1'' am' = Some e \<and> ae_NodeID e = ''n2''"
  (is "\<exists>am' e. sc_affinityMap (snd ?sel) = _ \<and> _")
proof -
  have am: "sc_affinityMap example_sticky = Some (the (sc_affinityMap example_sticky))"
    and cfg: "cf_EnableStickiness (sc_config example_sticky)" by code_simp+
  have key: "tk_PartitionKey example_task = ''p1''" "ni_ID (example_node ''n2'') = ''n2''"
    by (simp_all add: example_task_def example_node_def)
  have "fst (fst ?sel) = Some (example_node ''n2'')" by code_simp
  then have sel: "?sel = ((Some (example_node ''n2''), snd (fst ?sel)), snd ?sel)"
    by (metis prod.collapse)
  from affinity_pins_selected_node [OF am cfg _ sel] key show ?thesis by auto
qed

end
