(* ===== verification/Recovery.thy ===== *)
theory Recovery
  imports Job_Queue Capacity
begin

text \<open>
  Startup recovery, \<^verbatim>\<open>pkg/scheduler/recovery.go\<close>: rebuilding runtime jobs from replayed state,
  seeding the sequence counters, and resuming recovered queued jobs. The counts that only reach a
  log line or a metric are not kept, except the three that \<^verbatim>\<open>resumeRecoveredQueuedJobsLocked\<close>
  returns.

  \<^verbatim>\<open>buildRecoveredRuntimeJob\<close> ranges over a Go map. The order of such a loop is open, so the
  definition takes the ranking of the keys that gives it; the lemmas hold for every ranking.
\<close>

section \<open>Statuses\<close>

definition runtimeJobStatusFromLifecycle :: "JobLifecycleState \<Rightarrow> JobStatus" where
  "runtimeJobStatusFromLifecycle state =
     (case state of
        JobStateRunning \<Rightarrow> JobRunning
      | JobStateAwaitingHuman \<Rightarrow> JobAwaitingHuman
      | JobStateSucceeded \<Rightarrow> JobCompleted
      | JobStateFailed \<Rightarrow> JobFailed
      | JobStateCanceled \<Rightarrow> JobFailed
      | JobStateSubmitted \<Rightarrow> JobPending
      | JobStateQueued \<Rightarrow> JobPending
      | _ \<Rightarrow> JobPending)"

definition runtimeTaskStatusFromLifecycle :: "TaskLifecycleState \<Rightarrow> JobStatus" where
  "runtimeTaskStatusFromLifecycle state =
     (case state of
        TaskStateRunning \<Rightarrow> JobRunning
      | TaskStateSucceeded \<Rightarrow> JobCompleted
      | TaskStateFailed \<Rightarrow> JobFailed
      | TaskStatePending \<Rightarrow> JobPending
      | TaskStateDispatched \<Rightarrow> JobPending
      | _ \<Rightarrow> JobPending)"

text \<open>The loop's three flags: a running task, a failed one, all completed.\<close>

definition stage_flags :: "JobStatus \<Rightarrow> bool \<times> bool \<times> bool \<Rightarrow> bool \<times> bool \<times> bool" where
  "stage_flags status flags =
     (let (hasRunning, hasFailed, allCompleted) = flags in
      if status = JobFailed \<or> status = JobBlocked then (hasRunning, True, False)
      else if status = JobRunning then (True, hasFailed, False)
      else if status = JobCompleted then flags
      else (hasRunning, hasFailed, False))"

definition deriveStageStatus :: "Task list \<Rightarrow> JobStatus" where
  "deriveStageStatus tasks =
     (if tasks = [] then JobPending
      else
        (let (hasRunning, hasFailed, allCompleted) =
               fold (\<lambda>t. stage_flags (tk_Status t)) tasks (False, False, True)
         in if hasFailed then JobFailed
            else if hasRunning then JobRunning
            else if allCompleted then JobCompleted
            else JobPending))"

section \<open>Rebuilding a job\<close>

definition unmarshalRecoveredAgentInput :: "env \<Rightarrow> string \<Rightarrow> AgentInput option" where
  "unmarshalRecoveredAgentInput ev raw = (if trim_space raw = '''' then None else ev_unmarshal ev raw)"

definition recovered_stage_id :: "DurableTaskRecord \<Rightarrow> string" where
  "recovered_stage_id rec = (if dt_StageID rec = '''' then ''recovered'' else dt_StageID rec)"

definition recovered_task :: "env \<Rightarrow> DurableTaskRecord \<Rightarrow> Task" where
  "recovered_task ev rec =
     \<lparr>tk_ID = dt_TaskID rec, tk_StageID = recovered_stage_id rec, tk_JobID = dt_JobID rec,
      tk_AgentID = dt_AgentID rec, tk_AgentName = dt_AgentName rec,
      tk_Input = unmarshalRecoveredAgentInput ev (dt_InputJSON rec), tk_Output = None,
      tk_PartitionKey = dt_PartitionKey rec,
      tk_Status = runtimeTaskStatusFromLifecycle (dt_CurrentState rec),
      tk_LifecycleState = dt_CurrentState rec, tk_Attempts = dt_LastAttempt rec\<rparr>"

text \<open>The loop body: find or create the stage, append the task.\<close>

definition add_recovered_task ::
    "env \<Rightarrow> string \<Rightarrow> DurableTaskRecord \<Rightarrow> (string, Stage) gomap \<Rightarrow> (string, Stage) gomap" where
  "add_recovered_task ev jobID rec stageByID =
     (let stageID = recovered_stage_id rec;
          stage = (case mget stageByID stageID of
                     Some g \<Rightarrow> g
                   | None \<Rightarrow> \<lparr>sg_ID = stageID, sg_JobID = jobID, sg_Tasks = [], sg_Dependencies = [],
                              sg_Status = JobPending\<rparr>)
      in mput stageID (stage\<lparr>sg_Tasks := sg_Tasks stage @ [recovered_task ev rec]\<rparr>) stageByID)"

definition buildRecoveredRuntimeJob :: "env \<Rightarrow> (string \<Rightarrow> nat) \<Rightarrow> ReplayedJobState \<Rightarrow> Job" where
  "buildRecoveredRuntimeJob ev rank r =
     (let j = rs_Job r;
          records = map snd (sort_key (\<lambda>(k, _). rank k) (rs_Tasks r));
          stageByID = fold (add_recovered_task ev (dj_JobID j)) records [];
          stageIDs = sort (map fst stageByID);
          stages = map (\<lambda>g. g\<lparr>sg_Status := deriveStageStatus (sg_Tasks g)\<rparr>)
                     (List.map_filter (mget stageByID) stageIDs)
      in \<lparr>jb_ID = dj_JobID j, jb_Name = dj_Name j, jb_Stages = stages, jb_Edges = [],
          jb_Status = runtimeJobStatusFromLifecycle (dj_CurrentState j),
          jb_LifecycleState = dj_CurrentState j, jb_CreatedAt = dj_CreatedAt j,
          jb_UpdatedAt = dj_UpdatedAt j, jb_Metadata = [(''recovered'', VBool True)]\<rparr>)"

definition isSafeForQueuedResume :: "Job \<Rightarrow> bool" where
  "isSafeForQueuedResume job \<longleftrightarrow>
     list_all (\<lambda>g. list_all (\<lambda>t. tk_LifecycleState t = TaskStateUnset
                               \<or> tk_LifecycleState t = TaskStatePending) (sg_Tasks g)) (jb_Stages job)"

definition missing_execution_fields :: "bool \<Rightarrow> Task \<Rightarrow> bool" where
  "missing_execution_fields stickinessRequired task \<longleftrightarrow>
     (tk_AgentID task = '''' \<or> tk_AgentName task = '''' \<or> tk_Input task = None)
     \<or> (stickinessRequired \<and> tk_PartitionKey task = '''')"

definition recoveredQueuedMissingExecutionFieldCount :: "Job \<Rightarrow> bool \<Rightarrow> nat" where
  "recoveredQueuedMissingExecutionFieldCount job stickinessRequired =
     sum_list (map (\<lambda>g. length (filter (missing_execution_fields stickinessRequired) (sg_Tasks g)))
       (jb_Stages job))"

section \<open>Sequence counters\<close>

definition seedJobSequenceLocked ::
    "string \<Rightarrow> nat \<Rightarrow> TransitionRecord list \<Rightarrow> Scheduler \<Rightarrow> (bool \<times> nat) \<times> Scheduler" where
  "seedJobSequenceLocked jobID durableLastSeq transitions s =
     (let maxSeq = fold (\<lambda>tr m. if m < tr_SequenceID tr then tr_SequenceID tr else m)
                     transitions durableLastSeq
      in if maxSeq = 0 then ((False, 0), s)
         else if (case mget (sc_jobSequences s) jobID of None \<Rightarrow> True | Some n \<Rightarrow> n < maxSeq)
         then ((True, maxSeq), s\<lparr>sc_jobSequences := mput jobID maxSeq (sc_jobSequences s)\<rparr>)
         else ((False, maxSeq), s))"

section \<open>Recovery\<close>

fun resumeRecoveredQueuedJobsLocked ::
    "job_ref list \<Rightarrow> Scheduler \<Rightarrow> (nat \<times> nat \<times> nat) \<times> Scheduler" where
  "resumeRecoveredQueuedJobsLocked [] s = ((0, 0, 0), s)"
| "resumeRecoveredQueuedJobsLocked (r # rs) s =
     (if jb_LifecycleState (deref s r) \<noteq> JobStateQueued then resumeRecoveredQueuedJobsLocked rs s
      else if \<not> isSafeForQueuedResume (deref s r)
      then (let ((resumed, skipped, unsafe), s) = resumeRecoveredQueuedJobsLocked rs s
            in ((resumed, skipped, Suc unsafe), s))
      else
        (let (sent, s) = enqueueJobLocked r s;
             ((resumed, skipped, unsafe), s) = resumeRecoveredQueuedJobsLocked rs s
         in (if sent then (Suc resumed, skipped, unsafe) else (resumed, Suc skipped, unsafe), s)))"

definition recoveryContextCheckEvery :: nat where
  "recoveryContextCheckEvery = 32"

text \<open>One replayed job: an existing job only gets its counter seeded, a missing one is rebuilt.\<close>

definition recover_job ::
    "env \<Rightarrow> ReplayedJobState \<Rightarrow> Scheduler \<Rightarrow> job_ref option \<times> Scheduler" where
  "recover_job ev r s =
     (let jobID = dj_JobID (rs_Job r); lastSeq = dj_LastSequenceID (rs_Job r) in
      case mget (sc_jobs s) jobID of
        Some existing \<Rightarrow> (None, snd (seedJobSequenceLocked jobID lastSeq (rs_Transitions r) s))
      | None \<Rightarrow>
          (let job = buildRecoveredRuntimeJob ev (ev_rank ev (sc_tick s)) r;
               (ref, s) = alloc_job job (step_tick s);
               s = s\<lparr>sc_jobs := mput (jb_ID job) ref (sc_jobs s)\<rparr>
           in (Some ref, snd (seedJobSequenceLocked (jb_ID job) lastSeq (rs_Transitions r) s))))"

text \<open>A batch, under the lock: the context is checked at every 32nd job of the run.\<close>

fun recover_batch ::
    "env \<Rightarrow> nat \<Rightarrow> ReplayedJobState list \<Rightarrow> Scheduler
     \<Rightarrow> (go_error option \<times> job_ref list) \<times> Scheduler" where
  "recover_batch ev processed [] s = ((None, []), s)"
| "recover_batch ev processed (r # rs) s =
     (let processed = Suc processed;
          (err, s) = (if processed mod recoveryContextCheckEvery = 0 then read_ctx ev s else (None, s))
      in case err of
           Some e \<Rightarrow> ((Some e, []), s)
         | None \<Rightarrow>
             (let (ref, s) = recover_job ev r s;
                  ((err, refs), s) = recover_batch ev processed rs s
              in ((err, case ref of None \<Rightarrow> refs | Some x \<Rightarrow> x # refs), s)))"

text \<open>The loop over the batches, of \<open>Suc n\<close> jobs each.\<close>

function recover_batches ::
    "env \<Rightarrow> nat \<Rightarrow> nat \<Rightarrow> ReplayedJobState list \<Rightarrow> Scheduler
     \<Rightarrow> (go_error option \<times> job_ref list) \<times> Scheduler" where
  "recover_batches ev n processed states s =
     (if states = [] then ((None, []), s)
      else
        (let (err, s) = read_ctx ev s in
         case err of
           Some e \<Rightarrow> ((Some e, []), s)
         | None \<Rightarrow>
             (let batch = take (Suc n) states;
                  ((err, refs), s) = recover_batch ev processed batch s
              in case err of
                   Some e \<Rightarrow> ((Some e, refs), s)
                 | None \<Rightarrow>
                     (let (err, s) = read_ctx ev s in
                      case err of
                        Some e \<Rightarrow> ((Some e, refs), s)
                      | None \<Rightarrow>
                          (let ((err, more), s) =
                                 recover_batches ev n (processed + length batch)
                                   (drop (Suc n) states) s
                           in ((err, refs @ more), s))))))"
  by pat_completeness auto
termination
  by (relation "measure (\<lambda>(ev, n, processed, states, s). length states)") auto

definition RecoverFromTransitions :: "env \<Rightarrow> Scheduler \<Rightarrow> go_error option \<times> Scheduler" where
  "RecoverFromTransitions ev s =
     (if sc_transitionStore s = None then (None, s)
      else
        case ReplayStateFromStore (ev_scan_ctx ev (sc_tick s)) (ev_scan_faults ev (sc_tick s))
               (sc_transitionStore s) of
          Inl e \<Rightarrow> (Some e, step_tick s)
        | Inr states \<Rightarrow>
            (let size = cf_RecoveryBatchSize (sc_config s);
                 batchSize = (if size \<le> 0 then 128 else nat size);
                 ((err, refs), s) = recover_batches ev (batchSize - 1) 0 states (step_tick s)
             in case err of
                  Some e \<Rightarrow> (Some e, s)
                | None \<Rightarrow>
                    if cf_EnableResumeRecoveredQueuedJobs (sc_config s)
                    then (None, snd (resumeRecoveredQueuedJobsLocked refs s))
                    else (None, s)))"

section \<open>What a rebuilt job looks like\<close>

lemma stage_flags_fold:
  "fold (\<lambda>t. stage_flags (tk_Status t)) ts (a, b, c) =
     (a \<or> (\<exists>t \<in> set ts. tk_Status t = JobRunning),
      b \<or> (\<exists>t \<in> set ts. tk_Status t \<in> {JobFailed, JobBlocked}),
      c \<and> (\<forall>t \<in> set ts. tk_Status t = JobCompleted))"
  by (induction ts arbitrary: a b c) (auto simp: stage_flags_def Let_def)

lemma deriveStageStatus_eq:
  "deriveStageStatus ts =
     (if \<exists>t \<in> set ts. tk_Status t \<in> {JobFailed, JobBlocked} then JobFailed
      else if \<exists>t \<in> set ts. tk_Status t = JobRunning then JobRunning
      else if ts \<noteq> [] \<and> (\<forall>t \<in> set ts. tk_Status t = JobCompleted) then JobCompleted
      else JobPending)"
  by (simp add: deriveStageStatus_def stage_flags_fold)

text \<open>The stages by closed form: one for each stage ID that occurs, in the order of the IDs.\<close>

definition range_records :: "(string \<Rightarrow> nat) \<Rightarrow> ReplayedJobState \<Rightarrow> DurableTaskRecord list" where
  "range_records rank r = map snd (sort_key (\<lambda>(k, _). rank k) (rs_Tasks r))"

definition recovered_stage ::
    "env \<Rightarrow> string \<Rightarrow> DurableTaskRecord list \<Rightarrow> string \<Rightarrow> Stage" where
  "recovered_stage ev jobID records stageID =
     \<lparr>sg_ID = stageID, sg_JobID = jobID,
      sg_Tasks = map (recovered_task ev) (filter (\<lambda>rec. recovered_stage_id rec = stageID) records),
      sg_Dependencies = [], sg_Status = JobPending\<rparr>"

lemma mset_range_records: "mset (range_records rank r) = mset (map snd (rs_Tasks r))"
  by (simp add: range_records_def)

lemma stageByID_fold:
  "mget (fold (add_recovered_task ev jobID) records []) stageID =
     (if stageID \<in> recovered_stage_id ` set records
      then Some (recovered_stage ev jobID records stageID) else None)"
proof (induction records arbitrary: stageID rule: rev_induct)
  case (snoc rec records)
  define m where "m = fold (add_recovered_task ev jobID) records []"
  have m: "mget m i = (if i \<in> recovered_stage_id ` set records
      then Some (recovered_stage ev jobID records i) else None)" for i
    using snoc.IH by (simp add: m_def)
  have empty: "\<lparr>sg_ID = i, sg_JobID = jobID, sg_Tasks = [], sg_Dependencies = [],
      sg_Status = JobPending\<rparr> = recovered_stage ev jobID records i"
    if "i \<notin> recovered_stage_id ` set records" for i
    using that by (auto simp: recovered_stage_def filter_empty_conv)
  have "fold (add_recovered_task ev jobID) (records @ [rec]) [] = add_recovered_task ev jobID rec m"
    by (simp add: m_def)
  also have "\<dots> = (let i = recovered_stage_id rec; g = recovered_stage ev jobID records i
      in mput i (g\<lparr>sg_Tasks := sg_Tasks g @ [recovered_task ev rec]\<rparr>) m)"
    by (simp add: add_recovered_task_def m empty Let_def)
  finally show ?case by (auto simp: Let_def m recovered_stage_def)
qed simp

lemma stageByID_wf: "wf_map (fold (add_recovered_task ev jobID) records [])"
  by (induction records rule: rev_induct) (simp_all add: add_recovered_task_def Let_def)

lemma stageByID_keys:
  "set (map fst (fold (add_recovered_task ev jobID) records [])) = recovered_stage_id ` set records"
proof -
  have "fst ` set m = {k. mget m k \<noteq> None}" for m :: "(string, Stage) gomap"
    by (auto simp: map_of_eq_None_iff)
  then show ?thesis by (auto simp: stageByID_fold)
qed

lemma map_filter_Some: "(\<And>x. x \<in> set xs \<Longrightarrow> f x = Some (g x)) \<Longrightarrow> List.map_filter f xs = map g xs"
  by (induction xs) (simp_all add: map_filter_simps)

definition derived :: "Stage \<Rightarrow> Stage" where
  "derived g = g\<lparr>sg_Status := deriveStageStatus (sg_Tasks g)\<rparr>"

lemma buildRecoveredRuntimeJob_stages:
  "jb_Stages (buildRecoveredRuntimeJob ev rank r) =
     map (\<lambda>stageID. derived (recovered_stage ev (dj_JobID (rs_Job r)) (range_records rank r) stageID))
       (sorted_list_of_set (recovered_stage_id ` set (map snd (rs_Tasks r))))"
proof -
  define records where "records = range_records rank r"
  define m where "m = fold (add_recovered_task ev (dj_JobID (rs_Job r))) records []"
  have keys: "set (map fst m) = recovered_stage_id ` set records" unfolding m_def by (rule stageByID_keys)
  have "distinct (map fst m)" using stageByID_wf by (simp add: wf_map_def m_def)
  then have ids: "sort (map fst m) = sorted_list_of_set (recovered_stage_id ` set records)"
    unfolding keys [symmetric] sorted_list_of_set_sort_remdups by (simp only: distinct_remdups_id)
  have "List.map_filter (mget m) (sort (map fst m)) =
      map (recovered_stage ev (dj_JobID (rs_Job r)) records) (sort (map fst m))"
    by (rule map_filter_Some) (use keys in \<open>simp add: m_def stageByID_fold\<close>)
  moreover have "set records = set (map snd (rs_Tasks r))"
    using mset_range_records [of rank r] unfolding records_def by (metis set_mset_mset)
  ultimately show ?thesis
    unfolding buildRecoveredRuntimeJob_def Let_def range_records_def [symmetric] records_def [symmetric]
      m_def [symmetric] by (simp add: ids derived_def)
qed

lemma mset_by_key:
  "distinct ids \<Longrightarrow>
   mset (concat (map (\<lambda>i. filter (\<lambda>x. f x = i) xs) ids)) = mset (filter (\<lambda>x. f x \<in> set ids) xs)"
proof (induction ids)
  case (Cons i ids)
  have "mset (filter (\<lambda>x. f x \<in> set (i # ids)) xs) =
      mset (filter (\<lambda>x. f x = i) xs) + mset (filter (\<lambda>x. f x \<in> set ids) xs)"
    using Cons.prems by (induction xs) auto
  then show ?case using Cons by simp
qed simp

lemma buildRecoveredRuntimeJob_tasks:
  "mset (job_tasks (buildRecoveredRuntimeJob ev rank r)) =
     mset (map (recovered_task ev) (map snd (rs_Tasks r)))"
proof -
  let ?rs = "range_records rank r"
  let ?ids = "sorted_list_of_set (recovered_stage_id ` set (map snd (rs_Tasks r)))"
  have "set ?rs = set (map snd (rs_Tasks r))"
    using mset_range_records [of rank r] by (metis set_mset_mset)
  then have *: "filter (\<lambda>x. recovered_stage_id x \<in> set ?ids) ?rs = ?rs"
    by (intro filter_True) simp
  have "job_tasks (buildRecoveredRuntimeJob ev rank r) =
      map (recovered_task ev) (concat (map (\<lambda>i. filter (\<lambda>x. recovered_stage_id x = i) ?rs) ?ids))"
    by (simp add: job_tasks_def buildRecoveredRuntimeJob_stages derived_def recovered_stage_def
        map_concat comp_def)
  then have "mset (job_tasks (buildRecoveredRuntimeJob ev rank r)) =
      image_mset (recovered_task ev) (mset ?rs)"
    using mset_by_key [of ?ids recovered_stage_id ?rs, unfolded *] by (simp only: mset_map) simp
  then show ?thesis by (simp only: mset_map mset_range_records)
qed

lemma buildRecoveredRuntimeJob_fields [simp]:
  "jb_ID (buildRecoveredRuntimeJob ev rank r) = dj_JobID (rs_Job r)"
  "jb_LifecycleState (buildRecoveredRuntimeJob ev rank r) = dj_CurrentState (rs_Job r)"
  "jb_Name (buildRecoveredRuntimeJob ev rank r) = dj_Name (rs_Job r)"
  "jb_Status (buildRecoveredRuntimeJob ev rank r) = runtimeJobStatusFromLifecycle (dj_CurrentState (rs_Job r))"
  by (simp_all add: buildRecoveredRuntimeJob_def Let_def)

section \<open>A rebuilt job agrees with its log\<close>

lemma buildRecoveredRuntimeJob_synced:
  assumes "replayed jobID ts log r" "tasks_wf jobID (rs_Tasks r)" "legal_log jobID log"
  shows "job_synced log (buildRecoveredRuntimeJob ev rank r)"
proof -
  let ?job = "buildRecoveredRuntimeJob ev rank r"
  have id: "dj_JobID (rs_Job r) = jobID"
    and js: "dj_CurrentState (rs_Job r) = last_or JobStateUnset (job_states log)"
    and ks: "\<And>k. dt_CurrentState (mget_or zero_task_record (rs_Tasks r) k) =
        last_or TaskStateUnset (task_states k log)"
    using assms(1) by (simp_all add: replayed_def)
  have wf: "wf_map (rs_Tasks r)" and keyed: "\<And>k t. mget (rs_Tasks r) k = Some t \<Longrightarrow> dt_TaskID t = k \<and> dt_JobID t = jobID"
    using assms(2) by (auto simp: tasks_wf_def)
  have mget: "mget (rs_Tasks r) k = Some t" if "(k, t) \<in> set (rs_Tasks r)" for k t
    using wf that by (simp add: wf_map_mget_iff)
  have keys: "map (\<lambda>x. dt_TaskID (snd x)) (rs_Tasks r) = map fst (rs_Tasks r)"
    using mget keyed by (intro map_cong) auto
  have "mset (map tk_ID (job_tasks ?job)) = mset (map fst (rs_Tasks r))"
    unfolding mset_map [of tk_ID] buildRecoveredRuntimeJob_tasks keys [symmetric]
    by (simp add: recovered_task_def image_mset.compositionality comp_def)
  then have d: "distinct (map tk_ID (job_tasks ?job))"
    using wf mset_eq_imp_distinct_iff unfolding wf_map_def by blast
  have tasks: "set (job_tasks ?job) = set (map (recovered_task ev) (map snd (rs_Tasks r)))"
    using buildRecoveredRuntimeJob_tasks by (metis set_mset_mset)
  have "task_synced log jobID t" if t: "t \<in> set (job_tasks ?job)" for t
  proof -
    obtain k rec where rec: "(k, rec) \<in> set (rs_Tasks r)" "t = recovered_task ev rec"
      using t unfolding tasks by auto
    have "dt_CurrentState rec = last_or TaskStateUnset (task_states k log)"
      using ks [of k] mget [OF rec(1)] by (simp add: mget_or_def)
    then show ?thesis
      using keyed [OF mget [OF rec(1)]] by (auto simp: task_synced_def rec(2) recovered_task_def last_or_def)
  qed
  moreover have "k \<in> set (map tk_ID (job_tasks ?job))" if k: "task_states k log \<noteq> []" for k
  proof -
    have "dt_CurrentState (mget_or zero_task_record (rs_Tasks r) k) \<noteq> TaskStateUnset"
      using ks [of k] k legal_log_set(2) [OF assms(3) k] by (simp add: last_or_def)
    then obtain t where "mget (rs_Tasks r) k = Some t"
      by (cases "mget (rs_Tasks r) k") (auto simp: mget_or_def zero_task_record_def)
    then have "t \<in> set (map snd (rs_Tasks r))" "dt_TaskID t = k"
      using wf keyed by (auto simp: wf_map_mget_iff image_iff intro: bexI [of _ "(k, t)"])
    then show ?thesis by (auto simp: tasks recovered_task_def image_iff)
  qed
  ultimately show ?thesis using d js by (auto simp: job_synced_def id last_or_def)
qed

section \<open>Seeding\<close>

definition max_seq :: "TransitionRecord list \<Rightarrow> nat \<Rightarrow> nat" where
  "max_seq trs n = fold (\<lambda>tr m. if m < tr_SequenceID tr then tr_SequenceID tr else m) trs n"

lemma max_seq_ge: "n \<le> max_seq trs n \<and> (\<forall>tr \<in> set trs. tr_SequenceID tr \<le> max_seq trs n)"
proof (induction trs arbitrary: n)
  case (Cons tr trs)
  let ?n = "if n < tr_SequenceID tr then tr_SequenceID tr else n"
  have "max_seq (tr # trs) n = max_seq trs ?n" by (simp add: max_seq_def)
  moreover have "n \<le> ?n" "tr_SequenceID tr \<le> ?n" by auto
  ultimately show ?case using Cons.IH [of ?n] by (metis le_trans set_ConsD)
qed (simp add: max_seq_def)

lemma seedJobSequenceLocked_frame:
  assumes "seedJobSequenceLocked jobID n trs s = (x, s')"
  shows "s' = s\<lparr>sc_jobSequences := sc_jobSequences s'\<rparr>"
    "j \<noteq> jobID \<Longrightarrow> mget (sc_jobSequences s') j = mget (sc_jobSequences s) j"
    "mget_or 0 (sc_jobSequences s) j \<le> mget_or 0 (sc_jobSequences s') j"
    "n \<le> mget_or 0 (sc_jobSequences s') jobID"
    "tr \<in> set trs \<Longrightarrow> tr_SequenceID tr \<le> mget_or 0 (sc_jobSequences s') jobID"
proof -
  define m where "m = max_seq trs n"
  have m: "n \<le> m" "tr \<in> set trs \<Longrightarrow> tr_SequenceID tr \<le> m" for tr
    using max_seq_ge [of n trs] by (simp_all add: m_def)
  have s': "s' = (if m = 0 then s
      else if (case mget (sc_jobSequences s) jobID of None \<Rightarrow> True | Some k \<Rightarrow> k < m)
      then s\<lparr>sc_jobSequences := mput jobID m (sc_jobSequences s)\<rparr> else s)"
    using assms by (auto simp: seedJobSequenceLocked_def max_seq_def [symmetric] m_def [symmetric] Let_def
        split: if_splits)
  show "s' = s\<lparr>sc_jobSequences := sc_jobSequences s'\<rparr>"
    "j \<noteq> jobID \<Longrightarrow> mget (sc_jobSequences s') j = mget (sc_jobSequences s) j"
    by (simp_all add: s')
  show "mget_or 0 (sc_jobSequences s) j \<le> mget_or 0 (sc_jobSequences s') j"
    by (auto simp: s' mget_or_def split: option.splits)
  have "m \<le> mget_or 0 (sc_jobSequences s') jobID"
    by (auto simp: s' mget_or_def split: option.splits)
  with m show "n \<le> mget_or 0 (sc_jobSequences s') jobID"
    "tr \<in> set trs \<Longrightarrow> tr_SequenceID tr \<le> mget_or 0 (sc_jobSequences s') jobID"
    using le_trans by blast+
qed

lemma seed_sync:
  assumes "durable_ok s" "seedJobSequenceLocked jobID n trs s = (x, s')"
  shows "durable_ok s'" "seq_covered s j \<Longrightarrow> seq_covered s' j" "log_of s' = log_of s"
    "trs = log_of s jobID \<Longrightarrow> seq_covered s' jobID"
proof -
  note f = seedJobSequenceLocked_frame [OF assms(2)]
  have st: "sc_transitionStore s' = sc_transitionStore s" by (subst f(1)) simp
  then show log: "log_of s' = log_of s" by (simp add: log_of_def fun_eq_iff)
  with st show "durable_ok s'" using assms(1) by (simp add: durable_ok_def)
  obtain st where st: "sc_transitionStore s = Some st" "sc_transitionStore s' = Some st" "store_covered st"
    using assms(1) st by (auto simp: durable_ok_def)
  show "seq_covered s j \<Longrightarrow> seq_covered s' j"
    using f(3) [of j] by (auto simp: seq_covered_def counter_def log st split: option.splits intro: le_trans)
  show "trs = log_of s jobID \<Longrightarrow> seq_covered s' jobID"
    using f(5) st(3)
    by (auto simp: seq_covered_def counter_def log st store_covered_def log_of_def split: option.splits)
qed

section \<open>Recovery establishes the journal invariant\<close>

text \<open>Registering a job and seeding its counter.\<close>

lemma sync_register:
  assumes "sync s" "job_synced (log_of s (jb_ID job)) job" "alloc_job job s = (r, s1)"
    and s2: "s2 = s1\<lparr>sc_jobs := mput (jb_ID job) r (sc_jobs s), sc_jobSequences := m\<rparr>"
    and "\<And>j. seq_covered s j \<Longrightarrow> seq_covered s2 j" "seq_covered s2 (jb_ID job)"
  shows "sync s2"
proof -
  have r: "r = sc_next s" and s1: "s1 = s\<lparr>sc_heap := mput r job (sc_heap s), sc_next := Suc r\<rparr>"
    using assms(3) by (auto simp: alloc_job_def)
  have log: "log_of s2 = log_of s" "durable_ok s2 = durable_ok s"
    by (simp_all add: s2 s1 log_of_def durable_ok_def fun_eq_iff)
  have d: "deref s2 r' = (if r' = r then job else deref s r')" for r'
    by (simp add: s2 s1 deref_def)
  show ?thesis
    unfolding sync_def log
  proof (intro conjI allI impI)
    show "durable_ok s" using assms(1) by (simp add: sync_def)
    fix j r' assume "mget (sc_jobs s2) j = Some r'"
    then have c: "j = jb_ID job \<and> r' = r \<or> j \<noteq> jb_ID job \<and> mget (sc_jobs s) j = Some r'"
      by (auto simp: s2 split: if_splits)
    have old: "r' < sc_next s \<and> jb_ID (deref s r') = j \<and> job_synced (log_of s j) (deref s r')
        \<and> seq_covered s j" if "mget (sc_jobs s) j = Some r'"
      using assms(1) that by (simp add: sync_def)
    show "r' < sc_next s2" using c old by (auto simp: s2 s1 r)
    show "jb_ID (deref s2 r') = j" "job_synced (log_of s j) (deref s2 r')" "seq_covered s2 j"
      using c old assms(2,5,6) by (auto simp: d r)
  qed
qed

lemma sync_seed:
  assumes "sync s" "seedJobSequenceLocked jobID n trs s = (x, s')"
  shows "sync s'"
proof -
  note d = sync_durable_ok [OF assms(1)]
  note f = seedJobSequenceLocked_frame(1) [OF assms(2)]
  have "sc_jobs s' = sc_jobs s" "sc_next s' = sc_next s" "deref s' = deref s"
    by (subst f, simp add: deref_def fun_eq_iff)+
  with seed_sync [OF d assms(2)] show ?thesis by (intro sync_frame [OF assms(1)])
qed

text \<open>Rebuilding and registering what was replayed from the current store.\<close>

lemma sync_install:
  assumes "sync s" "replayed jobID ts (log_of s jobID) r" "tasks_wf jobID (rs_Tasks r)"
    and "rs_Transitions r = log_of s jobID"
    and job: "job_view job = job_view (buildRecoveredRuntimeJob ev rank r)"
    and "alloc_job job s = (ref, s1)"
    and "seedJobSequenceLocked jobID n (rs_Transitions r) (s1\<lparr>sc_jobs := mput jobID ref (sc_jobs s1)\<rparr>) = (x, s2)"
  shows "sync s2"
proof -
  let ?s = "s1\<lparr>sc_jobs := mput jobID ref (sc_jobs s1)\<rparr>"
  note d = sync_durable_ok [OF assms(1)]
  have s1: "s1 = s\<lparr>sc_heap := mput ref job (sc_heap s), sc_next := Suc ref\<rparr>"
    using assms(6) by (auto simp: alloc_job_def)
  have id: "jb_ID job = jobID"
    using job assms(2) by (simp add: job_view_def replayed_def)
  have "legal_log jobID (log_of s jobID)" using d by (simp add: durable_ok_def)
  then have js: "job_synced (log_of s (jb_ID job)) job"
    using job_synced_view [OF job] buildRecoveredRuntimeJob_synced [OF assms(2,3)] by (simp add: id)
  have log: "log_of ?s = log_of s" "durable_ok ?s = durable_ok s" "seq_covered ?s = seq_covered s"
    by (rule durable_cong; simp add: s1)+
  have dok: "durable_ok ?s" using d log by simp
  note sd = seed_sync [OF dok assms(7)]
  have s2: "s2 = s1\<lparr>sc_jobs := mput (jb_ID job) ref (sc_jobs s), sc_jobSequences := sc_jobSequences s2\<rparr>"
    by (subst seedJobSequenceLocked_frame(1) [OF assms(7)]) (simp add: id s1)
  show ?thesis
    by (rule sync_register [OF assms(1) js assms(6) s2]) (use sd log id assms(4) in simp_all)
qed

text \<open>What recovery changes: it allocates, registers and seeds.\<close>

definition only_registers :: "Scheduler \<Rightarrow> Scheduler \<Rightarrow> bool" where
  "only_registers s s' \<longleftrightarrow>
     s\<lparr>sc_heap := sc_heap s', sc_next := sc_next s', sc_jobs := sc_jobs s',
       sc_jobSequences := sc_jobSequences s', sc_tick := sc_tick s'\<rparr> = s'
     \<and> sc_next s \<le> sc_next s' \<and> (\<forall>r < sc_next s. deref s' r = deref s r)
     \<and> (\<forall>j r. mget (sc_jobs s) j = Some r \<longrightarrow> mget (sc_jobs s') j = Some r)"

lemma only_registers_refl [simp, intro!]: "only_registers s s"
  by (simp add: only_registers_def)

lemma only_registers_trans [trans]:
  assumes "only_registers s s'" "only_registers s' s''"
  shows "only_registers s s''"
proof -
  have "s\<lparr>sc_heap := sc_heap s'', sc_next := sc_next s'', sc_jobs := sc_jobs s'',
      sc_jobSequences := sc_jobSequences s'', sc_tick := sc_tick s''\<rparr> = s''"
    using assms [unfolded only_registers_def, THEN conjunct1] by (cases s; cases s'; cases s'') simp
  moreover have "deref s'' r = deref s r" if "r < sc_next s" for r
    using assms that by (simp add: only_registers_def)
  moreover have "sc_next s \<le> sc_next s''" using assms by (simp add: only_registers_def)
  moreover have "mget (sc_jobs s'') j = Some r" if "mget (sc_jobs s) j = Some r" for j r
    using assms that by (simp add: only_registers_def)
  ultimately show ?thesis unfolding only_registers_def by blast
qed

lemma only_registers_frame:
  assumes "only_registers s s'"
  shows "sc_transitionStore s' = sc_transitionStore s" "sc_jobQueue s' = sc_jobQueue s"
    "sc_queuedJobs s' = sc_queuedJobs s" "sc_config s' = sc_config s"
    "r < sc_next s \<Longrightarrow> deref s' r = deref s r" "sc_next s \<le> sc_next s'"
    "mget (sc_jobs s) j = Some r \<Longrightarrow> mget (sc_jobs s') j = Some r"
proof -
  note e = assms [unfolded only_registers_def, THEN conjunct1, symmetric]
  show "sc_transitionStore s' = sc_transitionStore s" "sc_jobQueue s' = sc_jobQueue s"
    "sc_queuedJobs s' = sc_queuedJobs s" "sc_config s' = sc_config s"
    by (subst e, simp)+
  show "r < sc_next s \<Longrightarrow> deref s' r = deref s r" "sc_next s \<le> sc_next s'"
    "mget (sc_jobs s) j = Some r \<Longrightarrow> mget (sc_jobs s') j = Some r"
    using assms by (simp_all add: only_registers_def)
qed

lemma only_registers_tick [simp, intro!]: "only_registers s (step_tick s)"
  by (simp add: only_registers_def step_tick_def deref_def)

definition queue_live :: "Scheduler \<Rightarrow> bool" where
  "queue_live s \<longleftrightarrow> (\<forall>r \<in> set (sc_jobQueue s). r < sc_next s)"

lemma only_registers_queue:
  assumes "only_registers s s'" "queue_live s"
  shows "queue_live s'" "queue_ok s' = queue_ok s"
proof -
  note f = only_registers_frame [OF assms(1)]
  show "queue_live s'" using assms(2) f(2,6) by (auto simp: queue_live_def)
  have m: "map (\<lambda>r. jb_ID (deref s' r)) (sc_jobQueue s) = map (\<lambda>r. jb_ID (deref s r)) (sc_jobQueue s)"
    using assms(2) f(5) by (auto simp: queue_live_def)
  show "queue_ok s' = queue_ok s"
    unfolding queue_ok_def queue_cap_def f(2-4) list.set_map [symmetric] m ..
qed

text \<open>The references that a recovery step hands on are the ones it registered.\<close>

definition registered :: "Scheduler \<Rightarrow> job_ref \<Rightarrow> bool" where
  "registered s r \<longleftrightarrow> r < sc_next s \<and> mget (sc_jobs s) (jb_ID (deref s r)) = Some r"

lemma registered_mono: "only_registers s s' \<Longrightarrow> registered s r \<Longrightarrow> registered s' r"
  using only_registers_frame(5-7) [of s s'] by (fastforce simp: registered_def)

lemma seed_only_registers:
  assumes "seedJobSequenceLocked jobID n trs s = (x, s')"
  shows "only_registers s s'" "sc_jobs s' = sc_jobs s" "deref s' = deref s" "sc_next s' = sc_next s"
    "sc_heap s' = sc_heap s" "sc_tick s' = sc_tick s"
  by (subst seedJobSequenceLocked_frame(1) [OF assms];
      simp add: only_registers_def deref_def fun_eq_iff)+

lemma recover_job_ok:
  assumes "sync s" "sc_transitionStore s = Some st" "rebuilt st job r" "recover_job ev r s = (ref, s')"
  shows "sync s'" "only_registers s s'" "mget (sc_jobs s') (dj_JobID (rs_Job r)) \<noteq> None"
    "ref = Some x \<Longrightarrow> registered s' x"
proof -
  let ?j = "dj_JobID (rs_Job r)"
  have rep: "replayed ?j (store_tasks_of st ?j) (log_of s ?j) r" "tasks_wf ?j (rs_Tasks r)"
    "rs_Transitions r = log_of s ?j"
    using assms(2,3) by (auto simp: rebuilt_def log_of_def replayed_def)
  have "sync s' \<and> only_registers s s' \<and> mget (sc_jobs s') ?j \<noteq> None
      \<and> (\<forall>x. ref = Some x \<longrightarrow> registered s' x)"
  proof (cases "mget (sc_jobs s) ?j")
    case (Some e)
    define y where "y = fst (seedJobSequenceLocked ?j (dj_LastSequenceID (rs_Job r)) (rs_Transitions r) s)"
    have y: "seedJobSequenceLocked ?j (dj_LastSequenceID (rs_Job r)) (rs_Transitions r) s = (y, s')"
      and "ref = None"
      using assms(4) Some by (auto simp: recover_job_def Let_def y_def)
    then show ?thesis
      using sync_seed [OF assms(1) y] seed_only_registers [OF y] Some by simp
  next
    case None
    define b where "b = buildRecoveredRuntimeJob ev (ev_rank ev (sc_tick s)) r"
    define s1 where "s1 = snd (alloc_job b (step_tick s))"
    define s2 where "s2 = s1\<lparr>sc_jobs := mput ?j (sc_next s) (sc_jobs s1)\<rparr>"
    have a: "alloc_job b (step_tick s) = (sc_next s, s1)"
      and s1: "s1 = (step_tick s)\<lparr>sc_heap := mput (sc_next s) b (sc_heap s), sc_next := Suc (sc_next s)\<rparr>"
      by (simp_all add: s1_def alloc_job_def)
    define y where "y = fst (seedJobSequenceLocked ?j (dj_LastSequenceID (rs_Job r)) (rs_Transitions r) s2)"
    have id: "jb_ID b = ?j" by (simp add: b_def)
    have "(ref, s') = (Some (sc_next s),
        snd (seedJobSequenceLocked ?j (dj_LastSequenceID (rs_Job r)) (rs_Transitions r) s2))"
      using assms(4) unfolding recover_job_def Let_def b_def [symmetric] a prod.case id s2_def [symmetric]
      by (simp add: None)
    then have y: "seedJobSequenceLocked ?j (dj_LastSequenceID (rs_Job r)) (rs_Transitions r) s2 = (y, s')"
      and ref: "ref = Some (sc_next s)"
      by (simp_all add: y_def)
    have "sync s'"
      by (rule sync_install [of "step_tick s" ?j "store_tasks_of st ?j" r b ev])
        (use assms(1) rep a y in \<open>simp_all add: b_def s2_def\<close>)
    moreover have "only_registers s s2"
      using None by (auto simp: only_registers_def s2_def s1 step_tick_def deref_def)
    then have "only_registers s s'" using seed_only_registers(1) [OF y] only_registers_trans by blast
    moreover have "registered s2 (sc_next s)" "mget (sc_jobs s2) ?j \<noteq> None"
      by (simp_all add: registered_def s2_def s1 deref_def b_def)
    ultimately show ?thesis
      using seed_only_registers [OF y] ref by (simp add: registered_def)
  qed
  then show "sync s'" "only_registers s s'" "mget (sc_jobs s') ?j \<noteq> None" "ref = Some x \<Longrightarrow> registered s' x"
    by blast+
qed

text \<open>The loops. \<open>recovered_all\<close> is the goal of a run: what was replayed is registered.\<close>

definition recovered_all :: "ReplayedJobState list \<Rightarrow> Scheduler \<Rightarrow> bool" where
  "recovered_all rs s \<longleftrightarrow> (\<forall>r \<in> set rs. mget (sc_jobs s) (dj_JobID (rs_Job r)) \<noteq> None)"

lemma recovered_all_mono: "only_registers s s' \<Longrightarrow> recovered_all rs s \<Longrightarrow> recovered_all rs s'"
  using only_registers_frame(7) [of s s'] by (fastforce simp: recovered_all_def)

lemma read_ctx_frame:
  assumes "read_ctx ev s = (e, s')"
  shows "only_registers s s'" "sync s' = sync s"
  using assms by (auto simp: read_ctx_def)

lemma recover_batch_ok:
  assumes "sync s" "sc_transitionStore s = Some st" "\<forall>r \<in> set rs. \<exists>job. rebuilt st job r"
    and "recover_batch ev n rs s = ((err, refs), s')"
  shows "sync s' \<and> only_registers s s' \<and> (\<forall>x \<in> set refs. registered s' x)
    \<and> (err = None \<longrightarrow> recovered_all rs s')"
  using assms
proof (induction rs arbitrary: n s s' err refs)
  case Nil
  then show ?case by (simp add: recovered_all_def)
next
  case (Cons r rs)
  obtain e s1 where c: "(if Suc n mod recoveryContextCheckEvery = 0 then read_ctx ev s else (None, s)) = (e, s1)"
    by fastforce
  have s1: "sync s1" "only_registers s s1"
    using c read_ctx_frame [of ev s] Cons.prems(1) by (auto split: if_splits)
  show ?case
  proof (cases e)
    case (Some x)
    then show ?thesis using Cons.prems(4) c s1 by (auto simp: Let_def)
  next
    case None
    obtain ref s2 where j: "recover_job ev r s1 = (ref, s2)" by fastforce
    obtain err' more s3 where b: "recover_batch ev (Suc n) rs s2 = ((err', more), s3)"
      by (metis prod.exhaust)
    have res: "err = err'" "refs = (case ref of None \<Rightarrow> more | Some x \<Rightarrow> x # more)" "s' = s3"
      using Cons.prems(4) by (simp_all add: Let_def c None j b)
    have st1: "sc_transitionStore s1 = Some st" using only_registers_frame(1) [OF s1(2)] Cons.prems(2) by simp
    obtain job where "rebuilt st job r" using Cons.prems(3) by auto
    note ok = recover_job_ok [OF s1(1) st1 this j]
    have "sc_transitionStore s2 = Some st" using only_registers_frame(1) [OF ok(2)] st1 by simp
    then have ih: "sync s3 \<and> only_registers s2 s3 \<and> (\<forall>x \<in> set more. registered s3 x)
        \<and> (err' = None \<longrightarrow> recovered_all rs s3)"
      using Cons.IH [OF ok(1) _ _ b] Cons.prems(3) by simp
    then have "mget (sc_jobs s3) (dj_JobID (rs_Job r)) \<noteq> None"
      using ok(3) only_registers_frame(7) [of s2 s3] by fastforce
    moreover have "registered s3 x" if "ref = Some x" for x
      using ok(4) [OF that] ih registered_mono by blast
    moreover have "only_registers s s3"
      using only_registers_trans [OF s1(2) only_registers_trans [OF ok(2)]] ih by simp
    ultimately show ?thesis
      using ih by (auto simp: res recovered_all_def split: option.splits)
  qed
qed

lemma recover_batches_ok:
  assumes "sync s" "sc_transitionStore s = Some st" "\<forall>r \<in> set rs. \<exists>job. rebuilt st job r"
    and "recover_batches ev n k rs s = ((err, refs), s')"
  shows "sync s' \<and> only_registers s s' \<and> (\<forall>x \<in> set refs. registered s' x)
    \<and> (err = None \<longrightarrow> recovered_all rs s')"
  using assms
proof (induction "length rs" arbitrary: k rs s s' err refs rule: less_induct)
  case less
  show ?case
  proof (cases "rs = []")
    case True
    then show ?thesis using less.prems by (simp add: recover_batches.simps recovered_all_def)
  next
    case False
    obtain e1 s1 where c1: "read_ctx ev s = (e1, s1)" by fastforce
    note f1 = read_ctx_frame [OF c1]
    obtain e2 refs2 s2 where b: "recover_batch ev k (take (Suc n) rs) s1 = ((e2, refs2), s2)"
      by (metis prod.exhaust)
    obtain e3 s3 where c3: "read_ctx ev s2 = (e3, s3)" by fastforce
    note f3 = read_ctx_frame [OF c3]
    obtain e4 more s4 where r: "recover_batches ev n (k + length (take (Suc n) rs)) (drop (Suc n) rs) s3
        = ((e4, more), s4)" by (metis prod.exhaust)
    have eq: "((err, refs), s') =
        (case e1 of Some e \<Rightarrow> ((Some e, []), s1)
         | None \<Rightarrow> (case e2 of Some e \<Rightarrow> ((Some e, refs2), s2)
            | None \<Rightarrow> (case e3 of Some e \<Rightarrow> ((Some e, refs2), s3)
               | None \<Rightarrow> ((e4, refs2 @ more), s4))))"
      using less.prems(4) False
      by (subst (asm) recover_batches.simps) (simp only: Let_def c1 b c3 r prod.case if_False)
    have rs: "\<forall>r \<in> set (take (Suc n) rs). \<exists>job. rebuilt st job r"
      "\<forall>r \<in> set (drop (Suc n) rs). \<exists>job. rebuilt st job r"
      using less.prems(3) by (auto dest: in_set_takeD in_set_dropD)
    have st1: "sc_transitionStore s1 = Some st" using only_registers_frame(1) [OF f1(1)] less.prems(2) by simp
    have ok2: "sync s2 \<and> only_registers s1 s2 \<and> (\<forall>x \<in> set refs2. registered s2 x)
        \<and> (e2 = None \<longrightarrow> recovered_all (take (Suc n) rs) s2)"
      using recover_batch_ok [OF _ st1 rs(1) b] f1(2) less.prems(1) by simp
    have st3: "sc_transitionStore s3 = Some st"
      using only_registers_frame(1) [OF f3(1)] only_registers_frame(1) [of s1 s2] ok2 st1 by simp
    have short: "length (drop (Suc n) rs) < length rs" using False by (simp add: diff_less)
    have ok4: "sync s4 \<and> only_registers s3 s4 \<and> (\<forall>x \<in> set more. registered s4 x)
        \<and> (e4 = None \<longrightarrow> recovered_all (drop (Suc n) rs) s4)"
      using less.hyps [OF short _ st3 rs(2) r] f3(2) ok2 by simp
    have s12: "only_registers s1 s2" and s34: "only_registers s3 s4" using ok2 ok4 by simp_all
    have s2: "only_registers s s2" by (rule only_registers_trans [OF f1(1) s12])
    have s3: "only_registers s s3" by (rule only_registers_trans [OF s2 f3(1)])
    have s4: "only_registers s s4" by (rule only_registers_trans [OF s3 s34])
    have s24: "only_registers s2 s4" by (rule only_registers_trans [OF f3(1) s34])
    have "recovered_all rs s4" if "e2 = None" "e4 = None"
    proof -
      have "recovered_all (take (Suc n) rs @ drop (Suc n) rs) s4"
        using ok2 ok4 that recovered_all_mono [OF s24] unfolding recovered_all_def set_append by blast
      then show ?thesis by simp
    qed
    moreover have "registered s3 x" "registered s4 x" if "x \<in> set refs2" for x
      using that ok2 registered_mono [OF f3(1)] registered_mono [OF s24] by blast+
    ultimately show ?thesis
      using eq f1 f3 ok2 ok4 s2 s3 s4 less.prems(1) by (auto split: option.splits)
  qed
qed

section \<open>Resuming\<close>

definition resumable :: "Scheduler \<Rightarrow> job_ref \<Rightarrow> bool" where
  "resumable s r \<longleftrightarrow> jb_LifecycleState (deref s r) = JobStateQueued \<and> isSafeForQueuedResume (deref s r)"

definition only_queue :: "Scheduler \<Rightarrow> Scheduler \<Rightarrow> bool" where
  "only_queue s s' \<longleftrightarrow> s\<lparr>sc_jobQueue := sc_jobQueue s', sc_queuedJobs := sc_queuedJobs s'\<rparr> = s'"

lemma only_queue_refl [simp, intro!]: "only_queue s s"
  by (simp add: only_queue_def)

lemma only_queue_trans [trans]: "only_queue s s' \<Longrightarrow> only_queue s' s'' \<Longrightarrow> only_queue s s''"
  by (cases s; cases s'; cases s'') (simp add: only_queue_def)

lemma only_queue_frame:
  assumes "only_queue s s'"
  shows "deref s' = deref s" "sc_jobs s' = sc_jobs s" "sc_transitionStore s' = sc_transitionStore s"
    "sc_jobSequences s' = sc_jobSequences s" "sc_next s' = sc_next s" "sc_config s' = sc_config s"
  using assms by (cases s; cases s'; simp add: only_queue_def deref_def fun_eq_iff)+

lemma only_queue_sync: "only_queue s s' \<Longrightarrow> sync s' = sync s"
  using only_queue_frame [of s s'] durable_cong [of s' s] by (simp add: sync_def)

lemma enqueue_only_queue: "enqueueJobLocked r s = (ok, s') \<Longrightarrow> only_queue s s'"
  by (erule enqueueJobLocked_cases) (auto simp: only_queue_def)

lemma resume_ok:
  assumes "queue_ok s" "resumeRecoveredQueuedJobsLocked refs s = ((resumed, skipped, unsafe), s')"
  shows "queue_ok s' \<and> only_queue s s'
    \<and> (\<exists>added. sc_jobQueue s' = sc_jobQueue s @ added \<and> length added = resumed
         \<and> (\<forall>r \<in> set added. r \<in> set refs \<and> resumable s r))
    \<and> resumed + skipped = length (filter (resumable s) refs)"
  using assms
proof (induction refs arbitrary: s s' resumed skipped unsafe)
  case (Cons r refs)
  show ?case
  proof (cases "resumable s r")
    case False
    then obtain u where "resumeRecoveredQueuedJobsLocked refs s = ((resumed, skipped, u), s')"
      using Cons.prems(2) by (auto simp: resumable_def Let_def split: if_splits prod.splits)
    with Cons.IH [OF Cons.prems(1) this] False show ?thesis by fastforce
  next
    case True
    obtain ok s1 where e: "enqueueJobLocked r s = (ok, s1)" by fastforce
    obtain a b c s2 where rest: "resumeRecoveredQueuedJobsLocked refs s1 = ((a, b, c), s2)"
      by (metis prod.exhaust)
    have res: "s' = s2" "resumed = (if ok then Suc a else a)" "skipped = (if ok then b else Suc b)"
      using Cons.prems(2) True by (auto simp: resumable_def Let_def e rest split: if_splits)
    note q = enqueue_only_queue [OF e]
    have same: "resumable s1 = resumable s" using only_queue_frame(1) [OF q] by (simp add: resumable_def fun_eq_iff)
    have ih: "queue_ok s2 \<and> only_queue s1 s2
        \<and> (\<exists>added. sc_jobQueue s2 = sc_jobQueue s1 @ added \<and> length added = a
             \<and> (\<forall>r \<in> set added. r \<in> set refs \<and> resumable s r))
        \<and> a + b = length (filter (resumable s) refs)"
      using Cons.IH [OF enqueueJobLocked_ok [OF Cons.prems(1) e] rest] by (simp add: same)
    then obtain added where added: "sc_jobQueue s2 = sc_jobQueue s1 @ added" "length added = a"
      "\<forall>r \<in> set added. r \<in> set refs \<and> resumable s r" by blast
    have "sc_jobQueue s1 = (if ok then sc_jobQueue s @ [r] else sc_jobQueue s)"
      using e by (cases rule: enqueueJobLocked_cases) auto
    with added True res have "\<exists>added. sc_jobQueue s' = sc_jobQueue s @ added \<and> length added = resumed
        \<and> (\<forall>x \<in> set added. x \<in> set (r # refs) \<and> resumable s x)"
      by (intro exI [of _ "if ok then r # added else added"]) auto
    then show ?thesis
      using ih res True only_queue_trans [OF q] by auto
  qed
qed auto

lemma unfinished_no_faults:
  "store_ListUnfinishedJobs F st = Inr jobs \<Longrightarrow> store_ListUnfinishedJobs no_faults st = Inr jobs"
  by (cases st) (auto simp: pg_ListUnfinishedJobs_def pg_query_Inr)

text \<open>What a recovery may do to a scheduler: register jobs, raise sequence counters, and put
  registered jobs that are safe to resume at the back of the queue.\<close>

definition only_recovers :: "Scheduler \<Rightarrow> Scheduler \<Rightarrow> bool" where
  "only_recovers s s' \<longleftrightarrow>
     sc_transitionStore s' = sc_transitionStore s \<and> sc_config s' = sc_config s
     \<and> sc_next s \<le> sc_next s' \<and> (\<forall>r < sc_next s. deref s' r = deref s r)
     \<and> (\<forall>j r. mget (sc_jobs s) j = Some r \<longrightarrow> mget (sc_jobs s') j = Some r)
     \<and> (\<exists>added. sc_jobQueue s' = sc_jobQueue s @ added
          \<and> (\<forall>r \<in> set added. registered s' r \<and> resumable s' r))"

lemma only_registers_recovers: "only_registers s s' \<Longrightarrow> only_recovers s s'"
  using only_registers_frame [of s s'] by (auto simp: only_recovers_def)

lemma resume_recovers:
  assumes "only_registers s s1" "only_queue s1 s'" "sc_jobQueue s' = sc_jobQueue s1 @ added"
    and "\<forall>r \<in> set added. registered s1 r \<and> resumable s1 r"
  shows "only_recovers s s'"
proof -
  note f = only_registers_frame [OF assms(1)] and g = only_queue_frame [OF assms(2)]
  have "registered s' = registered s1" "resumable s' = resumable s1"
    using g by (simp_all add: registered_def resumable_def fun_eq_iff)
  then have "sc_jobQueue s' = sc_jobQueue s @ added \<and> (\<forall>r \<in> set added. registered s' r \<and> resumable s' r)"
    using assms(3,4) f(2) by simp
  then show ?thesis using f g unfolding only_recovers_def by auto
qed

lemma replayed_states_cover:
  assumes "ReplayStateFromStore ctx Q (Some st) = Inr states"
  shows "\<forall>r \<in> set states. \<exists>job. rebuilt st job r"
    and "store_ListUnfinishedJobs no_faults st = Inr jobs \<Longrightarrow>
      dj_JobID ` set jobs = (\<lambda>r. dj_JobID (rs_Job r)) ` set states"
proof -
  obtain js view where j: "store_ListUnfinishedJobs (Q 0) st = Inr js" "list_all2 (rebuilt st) js view"
    and states: "states = sort_key (\<lambda>x. (dj_CreatedAt (rs_Job x), dj_JobID (rs_Job x))) view"
    by (rule ReplayStateFromStore_view [OF assms])
  show "\<forall>r \<in> set states. \<exists>job. rebuilt st job r"
    using j(2) by (fastforce simp: states list_all2_conv_all_nth in_set_conv_nth)
  have "map dj_JobID js = map (\<lambda>r. dj_JobID (rs_Job r)) view"
    using j(2) by (induction rule: list_all2_induct) (auto simp: rebuilt_def replayed_def)
  then have "dj_JobID ` set js = (\<lambda>r. dj_JobID (rs_Job r)) ` set view"
    by (metis (mono_tags, lifting) set_map)
  then show "dj_JobID ` set jobs = (\<lambda>r. dj_JobID (rs_Job r)) ` set states"
    if "store_ListUnfinishedJobs no_faults st = Inr jobs"
    using that unfinished_no_faults [OF j(1)] by (simp add: states)
qed

definition all_registered :: "Scheduler \<Rightarrow> bool" where
  "all_registered s \<longleftrightarrow>
     (case sc_transitionStore s of None \<Rightarrow> True
      | Some st \<Rightarrow> (case store_ListUnfinishedJobs no_faults st of Inl _ \<Rightarrow> True
          | Inr jobs \<Rightarrow> list_all (\<lambda>job. mget (sc_jobs s) (dj_JobID job) \<noteq> None) jobs))"

lemma recovered_all_registered:
  assumes "recovered_all states s" "sc_transitionStore s = Some st"
    and "ReplayStateFromStore ctx Q (Some st) = Inr states"
  shows "all_registered s"
proof (cases "store_ListUnfinishedJobs no_faults st")
  case (Inr jobs)
  have "mget (sc_jobs s) i \<noteq> None" if "i \<in> dj_JobID ` set jobs" for i
    using that assms(1) unfolding replayed_states_cover(2) [OF assms(3) Inr] by (auto simp: recovered_all_def)
  then show ?thesis using Inr by (simp add: all_registered_def assms(2) list_all_iff)
qed (simp add: all_registered_def assms(2))

lemma RecoverFromTransitions_ok:
  assumes "sync s" "queue_ok s" "queue_live s" "RecoverFromTransitions ev s = (err, s')"
  shows "sync s' \<and> queue_ok s' \<and> only_recovers s s' \<and> (err = None \<longrightarrow> all_registered s')"
proof -
  obtain st where st: "sc_transitionStore s = Some st" using assms(1) by (auto simp: sync_def durable_ok_def)
  define rr where "rr = ReplayStateFromStore (ev_scan_ctx ev (sc_tick s)) (ev_scan_faults ev (sc_tick s)) (Some st)"
  define n where "n = (if cf_RecoveryBatchSize (sc_config s) \<le> 0 then 128
      else nat (cf_RecoveryBatchSize (sc_config s))) - 1"
  show ?thesis
  proof (cases rr)
    case (Inl e)
    then have "err = Some e" "s' = step_tick s"
      using assms(4) by (simp_all add: RecoverFromTransitions_def st rr_def)
    then show ?thesis
      using assms only_registers_queue(2) [of s "step_tick s"] by (auto intro: only_registers_recovers)
  next
    case (Inr states)
    note cover = replayed_states_cover(1) [OF Inr [unfolded rr_def]]
    obtain e refs s1 where b: "recover_batches ev n 0 states (step_tick s) = ((e, refs), s1)"
      by (metis prod.exhaust)
    have b1: "sync s1 \<and> only_registers (step_tick s) s1 \<and> (\<forall>x \<in> set refs. registered s1 x)
        \<and> (e = None \<longrightarrow> recovered_all states s1)"
      using assms(1) st cover by (intro recover_batches_ok [OF _ _ _ b]) auto
    then have reg: "only_registers s s1" using only_registers_trans [OF only_registers_tick] by blast
    note f = only_registers_frame [OF reg] and q = only_registers_queue [OF reg assms(3)]
    have eq: "(err, s') = (case e of Some x \<Rightarrow> (Some x, s1) | None \<Rightarrow>
        if cf_EnableResumeRecoveredQueuedJobs (sc_config s1)
        then (None, snd (resumeRecoveredQueuedJobsLocked refs s1)) else (None, s1))"
      using assms(4) Inr b by (simp add: RecoverFromTransitions_def st rr_def n_def Let_def)
    have all: "e = None \<Longrightarrow> all_registered s1"
      using b1 f(1) st recovered_all_registered [OF _ _ Inr [unfolded rr_def]] by simp
    obtain a b c s2 where r: "resumeRecoveredQueuedJobsLocked refs s1 = ((a, b, c), s2)"
      by (metis prod.exhaust)
    consider "s' = s1" "err = e" | "s' = s2" "err = None" "e = None"
      using eq r by (auto split: option.splits if_splits)
    then show ?thesis
    proof cases
      case 1
      then show ?thesis using b1 q assms(2) all only_registers_recovers [OF reg] by auto
    next
      case 2
      have "queue_ok s1" using q assms(2) by simp
      from resume_ok [OF this r] obtain added where res: "queue_ok s2" "only_queue s1 s2"
        "sc_jobQueue s2 = sc_jobQueue s1 @ added" "\<forall>r \<in> set added. r \<in> set refs \<and> resumable s1 r"
        by blast
      have "only_recovers s s2"
        using b1 res(4) by (intro resume_recovers [OF reg res(2,3)]) blast
      moreover have "all_registered s2"
        using all [OF 2(3)] unfolding all_registered_def only_queue_frame(2,3) [OF res(2)] .
      ultimately show ?thesis using 2 b1 res(1) only_queue_sync [OF res(2)] by simp
    qed
  qed
qed

section \<open>Recovery without faults\<close>

definition quiet :: "env \<Rightarrow> bool" where
  "quiet ev \<longleftrightarrow>
     ev_ctx ev = (\<lambda>_. None) \<and> ev_scan_ctx ev = (\<lambda>_ _ _. None) \<and> ev_scan_faults ev = (\<lambda>_ _. no_faults)
     \<and> ev_faults ev = (\<lambda>_. no_faults)"

lemma recover_batch_quiet: "quiet ev \<Longrightarrow> fst (fst (recover_batch ev n rs s)) = None"
proof (induction rs arbitrary: n s)
  case (Cons r rs)
  define s1 where "s1 = (if Suc n mod recoveryContextCheckEvery = 0 then step_tick s else s)"
  have c: "(if Suc n mod recoveryContextCheckEvery = 0 then read_ctx ev s else (None, s)) = (None, s1)"
    using Cons.prems by (simp add: quiet_def read_ctx_def s1_def)
  obtain ref s2 where j: "recover_job ev r s1 = (ref, s2)" by fastforce
  show ?case using Cons.IH [OF Cons.prems, of "Suc n" s2] by (auto simp: c j Let_def split: prod.split)
qed simp

lemma recover_batches_quiet: "quiet ev \<Longrightarrow> fst (fst (recover_batches ev n k rs s)) = None"
proof (induction "length rs" arbitrary: k rs s rule: less_induct)
  case less
  obtain refs s1 where b: "recover_batch ev k (take (Suc n) rs) (step_tick s) = ((None, refs), s1)"
    using recover_batch_quiet [OF less.prems] by (metis prod.collapse)
  have "rs \<noteq> [] \<Longrightarrow> fst (fst (recover_batches ev n (k + length (take (Suc n) rs)) (drop (Suc n) rs)
      (step_tick s1))) = None"
    by (rule less.hyps) (simp_all add: less.prems)
  with less.prems show ?case
    by (subst recover_batches.simps) (auto simp: quiet_def read_ctx_def b Let_def split: prod.split)
qed

lemma RecoverFromTransitions_quiet:
  assumes "quiet ev" "durable_ok s" "sc_transitionStore s = Some st"
    and "store_ListUnfinishedJobs no_faults st = Inr jobs" "list_all (\<lambda>job. dj_JobID job \<noteq> '''') jobs"
  shows "fst (RecoverFromTransitions ev s) = None"
proof -
  have "\<forall>job \<in> set jobs. dj_JobID job \<noteq> '''' \<and> legal_log (dj_JobID job) (store_log st (dj_JobID job))"
    using assms by (auto simp: list_all_iff durable_ok_def log_of_def)
  then obtain states where r: "ReplayStateFromStore (\<lambda>_ _. None) (\<lambda>_. no_faults) (Some st) = Inr states"
    using ReplayStateFromStore_total [OF assms(4)] by blast
  obtain n where n: "(if cf_RecoveryBatchSize (sc_config s) \<le> 0 then 128
      else nat (cf_RecoveryBatchSize (sc_config s))) - 1 = n" by blast
  obtain refs s1 where b: "recover_batches ev n 0 states (step_tick s) = ((None, refs), s1)"
    using recover_batches_quiet [OF assms(1)] by (metis prod.collapse)
  have q: "ev_scan_ctx ev (sc_tick s) = (\<lambda>_ _. None)" "ev_scan_faults ev (sc_tick s) = (\<lambda>_. no_faults)"
    using assms(1) by (simp_all add: quiet_def)
  show ?thesis
    unfolding RecoverFromTransitions_def assms(3) q r Let_def sum.case n b by (simp add: b)
qed

section \<open>Properties\<close>

text \<open>A restart: a new scheduler on the store the old one wrote.\<close>

definition restart :: "Scheduler \<Rightarrow> Scheduler" where
  "restart s = (NewSchedulerWithConfig (sc_config s))\<lparr>sc_transitionStore := sc_transitionStore s\<rparr>"

lemma restart_simps [simp]:
  "sc_transitionStore (restart s) = sc_transitionStore s" "sc_jobs (restart s) = []"
  "sc_jobQueue (restart s) = []" "sc_queuedJobs (restart s) = []" "sc_next (restart s) = 0"
  by (simp_all add: restart_def NewSchedulerWithConfig_def newSchedulerWithValidatedConfig_def)

lemma restart_ok:
  assumes "sync s"
  shows "sync (restart s)" "queue_ok (restart s)" "queue_live (restart s)" "log_of (restart s) = log_of s"
proof -
  show "log_of (restart s) = log_of s" by (simp add: log_of_def fun_eq_iff)
  then show "sync (restart s)" using assms by (simp add: sync_def durable_ok_def)
  show "queue_ok (restart s)" "queue_live (restart s)" by (simp_all add: queue_ok_def queue_live_def)
qed

lemma new_scheduler_ok:
  "sync (NewSchedulerWithConfig c)" "queue_ok (NewSchedulerWithConfig c)" "queue_live (NewSchedulerWithConfig c)"
  "sc_pendingEnqueue (NewSchedulerWithConfig c) = 0"
  by (simp_all add: NewSchedulerWithConfig_def newSchedulerWithValidatedConfig_def sync_def durable_ok_def
      log_of_def store_covered_def legal_log_def NewInMemoryTransitionStore_def mem_ListTransitionsByJob_def
      mem_invar_def mget_or_def queue_ok_def queue_live_def)

text \<open>The progress of a job that its log shows, found again in another object for the job.\<close>

definition same_progress :: "TransitionRecord list \<Rightarrow> Job \<Rightarrow> Job \<Rightarrow> bool" where
  "same_progress log old new \<longleftrightarrow>
     (job_states log \<noteq> [] \<longrightarrow> jb_LifecycleState new = jb_LifecycleState old)
     \<and> (\<forall>t \<in> set (job_tasks old). task_states (tk_ID t) log \<noteq> [] \<longrightarrow>
          (\<exists>t' \<in> set (job_tasks new). tk_ID t' = tk_ID t \<and> tk_LifecycleState t' = tk_LifecycleState t))"

lemma synced_same_progress:
  assumes "job_synced log old" "job_synced log new"
  shows "same_progress log old new"
proof -
  have "\<exists>t' \<in> set (job_tasks new). tk_ID t' = tk_ID t \<and> tk_LifecycleState t' = tk_LifecycleState t"
    if t: "t \<in> set (job_tasks old)" "task_states (tk_ID t) log \<noteq> []" for t
  proof -
    have "tk_ID t \<in> tk_ID ` set (job_tasks new)" using assms(2) t(2) by (simp add: job_synced_def)
    then obtain t' where t': "t' \<in> set (job_tasks new)" "tk_ID t' = tk_ID t" by auto
    have "task_synced log (jb_ID old) t" "task_synced log (jb_ID new) t'"
      using assms t(1) t'(1) by (simp_all add: job_synced_def)
    with t(2) t' show ?thesis by (auto simp: task_synced_def)
  qed
  with assms show ?thesis by (auto simp: same_progress_def job_synced_def)
qed


text \<open>C3. Crash recovery. A scheduler in step with its journal stops at any point, and a new one
  starts on the store it wrote: then the new one is in step too, every job both of them hold has
  the progress it had before, for the job and for each task with records, and jobs are resumed
  only when no task was dispatched. Without faults the recovery succeeds and every unfinished job is
  back.\<close>

theorem crash_recovery:
  assumes "sync s" "RecoverFromTransitions ev (restart s) = (err, s')"
  shows "sync s' \<and> sc_transitionStore s' = sc_transitionStore s
    \<and> (\<forall>j r r'. mget (sc_jobs s) j = Some r \<longrightarrow> mget (sc_jobs s') j = Some r' \<longrightarrow>
         same_progress (log_of s j) (deref s r) (deref s' r'))
    \<and> list_all (\<lambda>r. registered s' r \<and> resumable s' r) (sc_jobQueue s')
    \<and> (err = None \<longrightarrow> all_registered s')
    \<and> (quiet ev \<longrightarrow> sc_transitionStore s = Some st \<longrightarrow> store_ListUnfinishedJobs no_faults st = Inr jobs \<longrightarrow>
         list_all (\<lambda>job. dj_JobID job \<noteq> '''') jobs \<longrightarrow> err = None)"
proof -
  note r = restart_ok [OF assms(1)]
  have ok: "sync s' \<and> queue_ok s' \<and> only_recovers (restart s) s' \<and> (err = None \<longrightarrow> all_registered s')"
    by (rule RecoverFromTransitions_ok [OF r(1-3) assms(2)])
  then have st: "sc_transitionStore s' = sc_transitionStore s" by (simp add: only_recovers_def)
  then have log: "log_of s' = log_of s" by (simp add: log_of_def fun_eq_iff)
  have "same_progress (log_of s j) (deref s x) (deref s' x')"
    if "mget (sc_jobs s) j = Some x" "mget (sc_jobs s') j = Some x'" for j x x'
    using synced_same_progress syncD(2) [OF assms(1) that(1)] syncD(2) [of s', OF _ that(2)] ok
    by (simp add: log)
  moreover have "err = None" if "quiet ev" "sc_transitionStore s = Some st"
    "store_ListUnfinishedJobs no_faults st = Inr jobs" "list_all (\<lambda>job. dj_JobID job \<noteq> '''') jobs"
    using RecoverFromTransitions_quiet [OF that(1) sync_durable_ok [OF r(1)]] that(2-4) assms(2) by simp
  moreover have "list_all (\<lambda>r. registered s' r \<and> resumable s' r) (sc_jobQueue s')"
    using ok by (auto simp: only_recovers_def list_all_iff)
  ultimately show ?thesis using ok st by blast
qed

text \<open>C24. A recovered job is the same for every order in which the map of replayed tasks is ranged
  over, up to the order of the tasks within a stage: its tasks are exactly the replayed ones, its
  stages are non-empty, have different IDs in increasing order, and hold the tasks of that stage; a
  stage has failed when a task has failed or is blocked, else runs when a task runs, else is
  complete when all tasks are, else is pending.\<close>

theorem recovered_job_exact:
  "mset (job_tasks (buildRecoveredRuntimeJob ev rank r)) =
     mset (map (recovered_task ev) (map snd (rs_Tasks r)))
   \<and> sorted_wrt (<) (map sg_ID (jb_Stages (buildRecoveredRuntimeJob ev rank r)))
   \<and> list_all (\<lambda>g. sg_Tasks g \<noteq> [] \<and> list_all (\<lambda>t. tk_StageID t = sg_ID g) (sg_Tasks g)
        \<and> sg_Status g =
            (if list_ex (\<lambda>t. tk_Status t = JobFailed \<or> tk_Status t = JobBlocked) (sg_Tasks g) then JobFailed
             else if list_ex (\<lambda>t. tk_Status t = JobRunning) (sg_Tasks g) then JobRunning
             else if list_all (\<lambda>t. tk_Status t = JobCompleted) (sg_Tasks g) then JobCompleted
             else JobPending))
        (jb_Stages (buildRecoveredRuntimeJob ev rank r))"
proof -
  let ?ids = "sorted_list_of_set (recovered_stage_id ` set (map snd (rs_Tasks r)))"
  let ?g = "\<lambda>i. derived (recovered_stage ev (dj_JobID (rs_Job r)) (range_records rank r) i)"
  have records: "set (range_records rank r) = set (map snd (rs_Tasks r))"
    using mset_range_records [of rank r] by (metis set_mset_mset)
  have ids: "map sg_ID (map ?g ?ids) = ?ids"
    by (simp add: derived_def recovered_stage_def comp_def)
  have ne: "sg_Tasks (?g i) \<noteq> []" if "i \<in> set ?ids" for i
    using that by (auto simp: derived_def recovered_stage_def filter_empty_conv records)
  have st: "list_all (\<lambda>t. tk_StageID t = sg_ID (?g i)) (sg_Tasks (?g i))" for i
    by (auto simp: derived_def recovered_stage_def list_all_iff recovered_task_def)
  have "sg_Status (?g i) = deriveStageStatus (sg_Tasks (?g i))" for i by (simp add: derived_def)
  then show ?thesis
    unfolding buildRecoveredRuntimeJob_stages ids deriveStageStatus_eq
    using buildRecoveredRuntimeJob_tasks [of ev rank r] ne st
    by (auto simp: list_all_iff list_ex_iff)
qed

definition example_restarted :: Scheduler where
  "example_restarted = NewScheduler\<lparr>sc_transitionStore := Some example_store\<rparr>"

lemma example_restarted_ok: "sync example_restarted" "queue_ok example_restarted" "queue_live example_restarted"
proof -
  have st: "sc_transitionStore example_restarted = Some example_store"
    "sc_jobs example_restarted = []" "sc_jobQueue example_restarted = []" "sc_queuedJobs example_restarted = []"
    by code_simp+
  have "log_ok ''j1'' example_log" by (simp add: log_ok_def example_log_def example_record_def) code_simp
  then have inv: "store_invar example_store"
    by (simp add: example_store_def mem_invar_def example_job_def wf_map_def)
  have "legal_log ''j1'' example_log" by code_simp
  then have "legal_log j (log_of example_restarted j)" for j
    by (cases "j = ''j1''") (simp_all add: log_of_def st example_store_def mem_ListTransitionsByJob_def mget_or_def legal_log_def)
  with inv show "sync example_restarted"
    by (simp add: sync_def durable_ok_def st store_covered_def example_store_def)
  show "queue_ok example_restarted" "queue_live example_restarted"
    by (simp_all add: queue_ok_def queue_live_def st)
qed


text \<open>The scheduler that has just recovered the example crashes again.\<close>

definition example_recovered :: Scheduler where
  "example_recovered = snd (RecoverFromTransitions (example_env 7) example_restarted)"

lemma example_recovered_ok: "sync example_recovered"
  using RecoverFromTransitions_ok [OF example_restarted_ok prod.collapse [symmetric]]
  by (simp add: example_recovered_def)

theorem crash_recovery_witness:
  "(\<exists>t' \<in> set (job_tasks (deref (snd (RecoverFromTransitions (example_env 9) (restart example_recovered))) 0)).
      tk_ID t' = ''t1'' \<and> tk_LifecycleState t' = TaskStateDispatched)
   \<and> all_registered (snd (RecoverFromTransitions (example_env 9) (restart example_recovered)))"
  (is "(\<exists>t' \<in> set (job_tasks (deref (snd ?r) 0)). _) \<and> _")
proof -
  have "fst ?r = None" by code_simp
  then have r: "?r = (None, snd ?r)" by (metis prod.collapse)
  have reg: "mget (sc_jobs example_recovered) ''j1'' = Some 0" "mget (sc_jobs (snd ?r)) ''j1'' = Some 0"
    by code_simp+
  have tasks: "map (\<lambda>t. (tk_ID t, tk_LifecycleState t)) (job_tasks (deref example_recovered 0)) =
      [(''t1'', TaskStateDispatched)]" by code_simp
  have states: "task_states ''t1'' (log_of example_recovered ''j1'') \<noteq> []" by code_simp
  note c = crash_recovery [OF example_recovered_ok r]
  from c reg have "same_progress (log_of example_recovered ''j1'') (deref example_recovered 0) (deref (snd ?r) 0)"
    by blast
  moreover obtain t where "job_tasks (deref example_recovered 0) = [t]" "tk_ID t = ''t1''"
    "tk_LifecycleState t = TaskStateDispatched" using tasks by auto
  ultimately show ?thesis using c states by (auto simp: same_progress_def)
qed

end
