(* ===== verification/Admission.thy ===== *)
theory Admission
  imports Recovery
begin

text \<open>
  Submission and lookup of jobs in \<^verbatim>\<open>pkg/scheduler/scheduler.go\<close>: \<^verbatim>\<open>SubmitJobWithContext\<close>,
  \<^verbatim>\<open>GetJob\<close>, \<^verbatim>\<open>getJobPointer\<close>, \<^verbatim>\<open>refreshJobFromDurableState\<close>, \<^verbatim>\<open>isExecutableDequeuedJob\<close>,
  the retention cleanup, and the flags \<^verbatim>\<open>Start\<close> and \<^verbatim>\<open>Stop\<close> set.

  A submission gives up the scheduler's lock while it writes the first records, so it is two steps
  here (\<open>submit_reserve\<close>, \<open>submit_finish\<close>) and the composition of them with the recorder. The
  properties: concurrent submissions never fill the queue beyond its capacity, a submitted job is in
  step with its journal, and a job dropped from memory is found again with the progress it had.
\<close>

section \<open>Submission\<close>

definition submit_reserve :: "job_ref \<Rightarrow> Scheduler \<Rightarrow> go_error option \<times> Scheduler" where
  "submit_reserve r s =
     (let jobID = jb_ID (deref s r) in
      if sc_recovering s then (Some (ErrSentinel ErrSchedulerRecovering), s)
      else if mget (sc_jobs s) jobID \<noteq> None
      then (Some (ErrNew (''job '' @ jobID @ '' already exists'')), s)
      else if int (length (sc_jobQueue s)) + sc_pendingEnqueue s < int (queue_cap s)
      then (None, (upd_job r (\<lambda>j. j\<lparr>jb_Status := JobPending\<rparr>) s)
                    \<lparr>sc_pendingEnqueue := sc_pendingEnqueue s + 1,
                     sc_jobs := mput jobID r (sc_jobs s)\<rparr>)
      else (Some (ErrSentinel ErrJobQueueFull), s))"

definition submit_finish :: "job_ref \<Rightarrow> Scheduler \<Rightarrow> bool \<times> Scheduler" where
  "submit_finish r s = enqueueJobLocked r (s\<lparr>sc_pendingEnqueue := sc_pendingEnqueue s - 1\<rparr>)"

definition SubmitJobWithContext :: "env \<Rightarrow> job_ref \<Rightarrow> Scheduler \<Rightarrow> go_error option \<times> Scheduler" where
  "SubmitJobWithContext ev r s =
     (let (err, s) = submit_reserve r s in
      case err of
        Some e \<Rightarrow> (Some e, s)
      | None \<Rightarrow> (None, snd (submit_finish r (recordInitialTransitions ev r s))))"

definition SubmitJob :: "env \<Rightarrow> job_ref \<Rightarrow> Scheduler \<Rightarrow> go_error option \<times> Scheduler" where
  "SubmitJob ev r s = SubmitJobWithContext ev r s"

section \<open>Lookup\<close>

text \<open>One replay, with the context checks and driver faults of the current tick.\<close>

definition replay_now :: "env \<Rightarrow> string \<Rightarrow> Scheduler \<Rightarrow> ReplayedJobState result \<times> Scheduler" where
  "replay_now ev jobID s =
     (ReplayJobState (ev_scan_ctx ev (sc_tick s) 0) (ev_scan_faults ev (sc_tick s) 0)
        (ev_scan_faults ev (sc_tick s) 1) (sc_transitionStore s) jobID, step_tick s)"

definition replayed_nothing :: "ReplayedJobState \<Rightarrow> bool" where
  "replayed_nothing r \<longleftrightarrow>
     dj_CurrentState (rs_Job r) = JobStateUnset \<and> rs_Tasks r = [] \<and> rs_Transitions r = []"

text \<open>Registering a rebuilt job under the lock, unless another goroutine has been faster.\<close>

definition install_hydrated ::
    "string \<Rightarrow> ReplayedJobState \<Rightarrow> Job \<Rightarrow> Scheduler \<Rightarrow> job_ref \<times> Scheduler" where
  "install_hydrated jobID r job s =
     (case mget (sc_jobs s) jobID of
        Some existing \<Rightarrow> (existing, s)
      | None \<Rightarrow>
          (let (ref, s) = alloc_job job s;
               s = s\<lparr>sc_jobs := mput jobID ref (sc_jobs s)\<rparr>
           in (ref, snd (seedJobSequenceLocked jobID (dj_LastSequenceID (rs_Job r))
                           (rs_Transitions r) s))))"

definition not_found :: "string \<Rightarrow> go_error" where
  "not_found jobID = ErrNew (''job '' @ jobID @ '' not found'')"

definition getJobPointer :: "env \<Rightarrow> string \<Rightarrow> Scheduler \<Rightarrow> job_ref result \<times> Scheduler" where
  "getJobPointer ev jobID s =
     (case mget (sc_jobs s) jobID of
        Some r \<Rightarrow> (Inr r, s)
      | None \<Rightarrow>
          if sc_transitionStore s = None then (Inl (not_found jobID), s)
          else
            (let (res, s) = replay_now ev jobID s in
             case res of
               Inl e \<Rightarrow> (Inl (not_found jobID), s)
             | Inr r \<Rightarrow>
                 if replayed_nothing r then (Inl (not_found jobID), s)
                 else
                   (let hydrated = buildRecoveredRuntimeJob ev (ev_rank ev (sc_tick s)) r;
                        (ref, s) = install_hydrated jobID r hydrated (step_tick s)
                    in (Inr ref, s))))"

definition GetJob :: "env \<Rightarrow> string \<Rightarrow> Scheduler \<Rightarrow> Job result \<times> Scheduler" where
  "GetJob ev jobID s =
     (let (res, s) = getJobPointer ev jobID s in
      case res of Inl e \<Rightarrow> (Inl e, s) | Inr r \<Rightarrow> (Inr (cloneJob (deref s r)), s))"

definition GetAllJobs :: "env \<Rightarrow> Scheduler \<Rightarrow> job_ref list \<times> Scheduler" where
  "GetAllJobs ev s =
     (map snd (sort_key (\<lambda>(k, _). ev_rank ev (sc_tick s) k) (sc_jobs s)), step_tick s)"

text \<open>What a refresh keeps of the object it replaces. The fields of the rebuilt job that are set
  again from the same replay are left out; the metadata of a rebuilt job is never empty.\<close>

definition keep_existing :: "Job \<Rightarrow> Job \<Rightarrow> Job" where
  "keep_existing existing job =
     job\<lparr>jb_Name := (if jb_Name job = '''' then jb_Name existing else jb_Name job),
         jb_CreatedAt := (if jb_CreatedAt job = 0 then jb_CreatedAt existing else jb_CreatedAt job),
         jb_Metadata := (if jb_Metadata job = [] \<and> jb_Metadata existing \<noteq> []
                         then jb_Metadata existing else jb_Metadata job)\<rparr>"

definition refreshJobFromDurableState ::
    "env \<Rightarrow> string \<Rightarrow> Scheduler \<Rightarrow> job_ref option \<times> Scheduler" where
  "refreshJobFromDurableState ev jobID s =
     (if trim_space jobID = '''' \<or> sc_transitionStore s = None then (None, s)
      else
        (let (res, s) = replay_now ev jobID s in
         case res of
           Inl e \<Rightarrow> (None, s)
         | Inr r \<Rightarrow>
             if replayed_nothing r then (None, s)
             else
               (let hydrated = buildRecoveredRuntimeJob ev (ev_rank ev (sc_tick s)) r;
                    hydrated = (case mget (sc_jobs s) jobID of
                        None \<Rightarrow> hydrated
                      | Some existing \<Rightarrow> keep_existing (deref s existing) hydrated);
                    (ref, s) = alloc_job hydrated (step_tick s);
                    s = s\<lparr>sc_jobs := mput jobID ref (sc_jobs s)\<rparr>
                in (Some ref, snd (seedJobSequenceLocked jobID (dj_LastSequenceID (rs_Job r))
                                     (rs_Transitions r) s)))))"

definition isExecutableDequeuedJob :: "job_ref \<Rightarrow> Scheduler \<Rightarrow> bool" where
  "isExecutableDequeuedJob r s =
     (let current = (case mget (sc_jobs s) (jb_ID (deref s r)) of Some latest \<Rightarrow> latest | None \<Rightarrow> r)
      in case jb_LifecycleState (deref s current) of
           JobStateSubmitted \<Rightarrow> True
         | JobStateQueued \<Rightarrow> True
         | _ \<Rightarrow> False)"

section \<open>Retention\<close>

definition prune_job :: "time \<Rightarrow> string \<times> job_ref \<Rightarrow> nat \<times> Scheduler \<Rightarrow> nat \<times> Scheduler" where
  "prune_job cutoff entry acc =
     (let (jobID, r) = entry; (pruned, s) = acc; job = deref s r in
      if \<not> IsTerminalJobState (jb_LifecycleState job) then (pruned, s)
      else if cutoff < jb_UpdatedAt job then (pruned, s)
      else (Suc pruned, s\<lparr>sc_jobs := mdel jobID (sc_jobs s),
                          sc_jobSequences := mdel jobID (sc_jobSequences s),
                          sc_queuedJobs := mdel jobID (sc_queuedJobs s)\<rparr>))"

definition cleanupTerminalJobsOnce :: "time \<Rightarrow> Scheduler \<Rightarrow> nat \<times> Scheduler" where
  "cleanupTerminalJobsOnce now s =
     (if cf_JobRetentionTTL (sc_config s) \<le> 0 then (0, s)
      else fold (prune_job (now - cf_JobRetentionTTL (sc_config s))) (sc_jobs s) (0, s))"

section \<open>Wiring, start and stop\<close>

definition SetTransitionStore ::
    "transition_store option \<Rightarrow> Scheduler \<Rightarrow> go_error option \<times> Scheduler" where
  "SetTransitionStore store s =
     (if sc_started s \<or> sc_recovering s then (Some (ErrSentinel ErrTransitionStoreSetAfterStart), s)
      else (None, s\<lparr>sc_transitionStore := store\<rparr>))"

text \<open>\<open>stopped\<close> says whether \<^verbatim>\<open>Stop\<close> runs during the recovery, \<open>leadershipErr\<close> is the error of
  starting the leadership provider. The background loops run when \<open>sc_started\<close> is set.\<close>

definition Start :: "env \<Rightarrow> bool \<Rightarrow> go_error option \<Rightarrow> Scheduler \<Rightarrow> Scheduler" where
  "Start ev stopped leadershipErr s =
     (if sc_started s \<or> sc_recovering s \<or> sc_stopRequested s then s
      else
        (let (err, s) = RecoverFromTransitions ev (s\<lparr>sc_recovering := True\<rparr>);
             s = s\<lparr>sc_stopRequested := sc_stopRequested s \<or> stopped\<rparr>
         in if leadershipErr \<noteq> None then s\<lparr>sc_recovering := False\<rparr>
            else if sc_stopRequested s then s\<lparr>sc_recovering := False\<rparr>
            else s\<lparr>sc_started := True, sc_recovering := False\<rparr>))"

definition Stop :: "Scheduler \<Rightarrow> Scheduler" where
  "Stop s = s\<lparr>sc_stopRequested := True\<rparr>"

record SchedulerReadiness =
  rd_IsRecovering :: bool
  rd_IsLeader :: bool
  rd_LastReconcileTime :: time

definition Readiness :: "env \<Rightarrow> Scheduler \<Rightarrow> SchedulerReadiness \<times> Scheduler" where
  "Readiness ev s =
     (let (isLeader, s') =
            (if sc_started s \<and> \<not> sc_recovering s
             then (let (auth, s) = dispatchAuthority ev s
                   in (case auth of Inr a \<Rightarrow> la_IsLeader a | Inl e \<Rightarrow> False, s))
             else (False, s))
      in (\<lparr>rd_IsRecovering = sc_recovering s, rd_IsLeader = isLeader,
           rd_LastReconcileTime = sc_lastReconcileTime s\<rparr>, s'))"

section \<open>Submission keeps the journal invariant\<close>

text \<open>A job as a client hands it in: no records yet, task IDs that differ, tasks attached to no other
  job.\<close>

definition fresh_job :: "Scheduler \<Rightarrow> job_ref \<Rightarrow> bool" where
  "fresh_job s r \<longleftrightarrow>
     r < sc_next s \<and> job_synced [] (deref s r) \<and> log_of s (jb_ID (deref s r)) = []"

lemma submit_reserve_cases:
  assumes "submit_reserve r s = (err, s')"
  obtains (rejected) e where "err = Some e" "s' = s"
  | (accepted) "err = None" "mget (sc_jobs s) (jb_ID (deref s r)) = None" "\<not> sc_recovering s"
      "int (length (sc_jobQueue s)) + sc_pendingEnqueue s < int (queue_cap s)"
      "s' = (upd_job r (\<lambda>j. j\<lparr>jb_Status := JobPending\<rparr>) s)
              \<lparr>sc_pendingEnqueue := sc_pendingEnqueue s + 1,
               sc_jobs := mput (jb_ID (deref s r)) r (sc_jobs s)\<rparr>"
  using assms by (fastforce simp: submit_reserve_def Let_def split: if_splits)

lemma submit_reserve_sync:
  assumes "sync s" "fresh_job s r" "submit_reserve r s = (None, s')"
  shows "sync s'" "mget (sc_jobs s') (jb_ID (deref s r)) = Some r"
proof -
  define id where "id = jb_ID (deref s r)"
  have s': "s' = (upd_job r (\<lambda>j. j\<lparr>jb_Status := JobPending\<rparr>) s)
      \<lparr>sc_pendingEnqueue := sc_pendingEnqueue s + 1, sc_jobs := mput id r (sc_jobs s)\<rparr>"
    using assms(3) by (cases rule: submit_reserve_cases) (simp_all add: id_def)
  then show "mget (sc_jobs s') (jb_ID (deref s r)) = Some r" by (simp add: id_def)
  have store: "sc_transitionStore s' = sc_transitionStore s" "sc_jobSequences s' = sc_jobSequences s"
    by (simp_all add: s')
  have log: "log_of s' = log_of s" "durable_ok s' = durable_ok s" "seq_covered s' = seq_covered s"
    by (rule durable_cong; simp add: store)+
  have view: "job_view ((deref s r)\<lparr>jb_Status := JobPending\<rparr>) = job_view (deref s r)"
    by (simp add: job_view_def job_tasks_def)
  have d: "deref s' x = (if x = r then (deref s r)\<lparr>jb_Status := JobPending\<rparr> else deref s x)" for x
    by (simp add: s' deref_def upd_job_def)
  have ids: "jb_ID (deref s' x) = jb_ID (deref s x)" and synced: "job_synced l (deref s' x) = job_synced l (deref s x)"
    for x l using job_synced_view [OF view] by (simp_all add: d)
  have "sc_next s' = sc_next s" by (simp add: s')
  then show "sync s'"
    using assms(1,2) unfolding sync_def log ids synced
    by (auto simp: s' fresh_job_def id_def seq_covered_def split: if_splits)
qed

lemma submit_finish_only_queue:
  "only_queue (s\<lparr>sc_pendingEnqueue := sc_pendingEnqueue s - 1\<rparr>) (snd (submit_finish r s))"
  using enqueue_only_queue [OF prod.collapse [symmetric]] by (simp add: submit_finish_def)

lemma sync_pending [simp]: "sync (s\<lparr>sc_pendingEnqueue := n\<rparr>) = sync s"
  using durable_cong [of "s\<lparr>sc_pendingEnqueue := n\<rparr>" s] by (simp add: sync_def deref_def)

lemma SubmitJobWithContext_sync:
  assumes "sync s" "fresh_job s r" "SubmitJobWithContext ev r s = (err, s')"
  shows "sync s'"
proof (cases "fst (submit_reserve r s)")
  case (Some e)
  then have "snd (submit_reserve r s) = s"
    by (cases rule: submit_reserve_cases [OF prod.collapse [symmetric]]) auto
  with Some assms show ?thesis by (auto simp: SubmitJobWithContext_def case_prod_beta)
next
  case None
  define s1 where "s1 = snd (submit_reserve r s)"
  have r: "submit_reserve r s = (None, s1)" using None by (metis s1_def prod.collapse)
  note ok = submit_reserve_sync [OF assms(1,2) r]
  have "sync (recordInitialTransitions ev r s1)" by (rule recordInitialTransitions_sync [OF ok])
  moreover have "s' = snd (submit_finish r (recordInitialTransitions ev r s1))"
    using assms(3) by (simp add: SubmitJobWithContext_def r)
  ultimately show ?thesis using only_queue_sync [OF submit_finish_only_queue] by simp
qed

section \<open>Lookup keeps the journal invariant\<close>

lemma ReplayJobState_rebuilt:
  assumes "ReplayJobState ctx F1 F2 (Some st) jobID = Inr r"
  shows "replayed jobID (store_tasks_of st jobID) (store_log st jobID) r" "tasks_wf jobID (rs_Tasks r)"
    "rs_Transitions r = store_log st jobID"
proof -
  note d = ReplayJobState_data(1) [OF assms]
  show "tasks_wf jobID (rs_Tasks r)" by (rule replay_data_tasks_wf [OF d])
  note d = d [unfolded replay_data_def replayJobStateFromData_def]
  show "replayed jobID (store_tasks_of st jobID) (store_log st jobID) r"
    using replay_records_sound [OF d] by simp
  show "rs_Transitions r = store_log st jobID"
    using replay_keeps_transitions [OF d] by (simp add: replay_init_def)
qed

lemma replay_now_rebuilt:
  assumes "sc_transitionStore s = Some st" "replay_now ev jobID s = (Inr r, s')"
  shows "replayed jobID (store_tasks_of st jobID) (log_of s jobID) r" "tasks_wf jobID (rs_Tasks r)"
    "rs_Transitions r = log_of s jobID" "s' = step_tick s"
  using assms ReplayJobState_rebuilt [of _ _ _ st jobID r] by (auto simp: replay_now_def log_of_def)

lemma install_hydrated_ok:
  assumes "sync s" "replayed jobID ts (log_of s jobID) r" "tasks_wf jobID (rs_Tasks r)"
    and "rs_Transitions r = log_of s jobID"
    and "install_hydrated jobID r (buildRecoveredRuntimeJob ev rank r) s = (ref, s')"
  shows "sync s'" "mget (sc_jobs s') jobID = Some ref" "sc_transitionStore s' = sc_transitionStore s"
proof -
  have "sync s' \<and> mget (sc_jobs s') jobID = Some ref \<and> sc_transitionStore s' = sc_transitionStore s"
  proof (cases "mget (sc_jobs s) jobID")
    case (Some x)
    with assms show ?thesis by (simp add: install_hydrated_def)
  next
    case None
    obtain s1 where a: "alloc_job (buildRecoveredRuntimeJob ev rank r) s = (ref, s1)"
      using assms(5) None by (auto simp: install_hydrated_def case_prod_beta) (metis prod.collapse)
    define x where "x = fst (seedJobSequenceLocked jobID (dj_LastSequenceID (rs_Job r)) (rs_Transitions r)
        (s1\<lparr>sc_jobs := mput jobID ref (sc_jobs s1)\<rparr>))"
    have sd: "seedJobSequenceLocked jobID (dj_LastSequenceID (rs_Job r)) (rs_Transitions r)
        (s1\<lparr>sc_jobs := mput jobID ref (sc_jobs s1)\<rparr>) = (x, s')"
      using assms(5) None a by (simp add: install_hydrated_def x_def prod_eq_iff)
    have "sync s'" by (rule sync_install [OF assms(1-4) refl a sd])
    moreover have "sc_transitionStore s1 = sc_transitionStore s" using a by (auto simp: alloc_job_def)
    ultimately show ?thesis
      using seed_only_registers(2) [OF sd] only_registers_frame(1) [OF seed_only_registers(1) [OF sd]] by simp
  qed
  then show "sync s'" "mget (sc_jobs s') jobID = Some ref" "sc_transitionStore s' = sc_transitionStore s"
    by blast+
qed

lemma getJobPointer_ok:
  assumes "sync s" "getJobPointer ev jobID s = (res, s')"
  shows "sync s' \<and> sc_transitionStore s' = sc_transitionStore s
    \<and> (\<forall>r. res = Inr r \<longrightarrow> mget (sc_jobs s') jobID = Some r)"
proof (cases "mget (sc_jobs s) jobID")
  case (Some r)
  with assms show ?thesis by (auto simp: getJobPointer_def)
next
  case None
  obtain st where st: "sc_transitionStore s = Some st" using assms(1) by (auto simp: sync_def durable_ok_def)
  define s1 where "s1 = step_tick s"
  obtain q where q: "replay_now ev jobID s = (q, s1)" by (simp add: replay_now_def s1_def)
  show ?thesis
  proof (cases q)
    case (Inl e)
    then show ?thesis
      using assms None q st by (auto simp: getJobPointer_def s1_def)
  next
    case (Inr r)
    show ?thesis
    proof (cases "replayed_nothing r")
      case True
      then show ?thesis using assms None q st Inr by (auto simp: getJobPointer_def s1_def)
    next
      case False
      note b = replay_now_rebuilt [OF st q [unfolded Inr]]
      have log: "log_of (step_tick s1) = log_of s" by (simp add: log_of_def s1_def fun_eq_iff)
      obtain ref s2 where i: "install_hydrated jobID r (buildRecoveredRuntimeJob ev (ev_rank ev (sc_tick s1)) r)
          (step_tick s1) = (ref, s2)" by fastforce
      have res: "res = Inr ref" "s' = s2"
        using assms(2) by (simp_all add: getJobPointer_def None st q Inr False i)
      have "sync (step_tick s1)" using assms(1) by (simp add: s1_def)
      from install_hydrated_ok [OF this _ b(2) _ i] b log res show ?thesis by (simp add: s1_def)
    qed
  qed
qed

lemma keep_existing_view: "job_view (keep_existing e job) = job_view job"
  by (simp add: keep_existing_def job_view_def job_tasks_def)

lemma refreshJobFromDurableState_ok:
  assumes "sync s" "refreshJobFromDurableState ev jobID s = (res, s')"
  shows "sync s' \<and> sc_transitionStore s' = sc_transitionStore s \<and> sc_jobQueue s' = sc_jobQueue s
    \<and> sc_queuedJobs s' = sc_queuedJobs s \<and> sc_config s' = sc_config s
    \<and> (\<forall>r. res = Some r \<longrightarrow> mget (sc_jobs s') jobID = Some r)"
proof -
  obtain st where st: "sc_transitionStore s = Some st" using assms(1) by (auto simp: sync_def durable_ok_def)
  define s1 where "s1 = step_tick s"
  obtain q where q: "replay_now ev jobID s = (q, s1)" by (simp add: replay_now_def s1_def)
  show ?thesis
  proof (cases "\<exists>r. q = Inr r \<and> \<not> replayed_nothing r \<and> trim_space jobID \<noteq> ''''")
    case False
    then have "res = None \<and> (s' = s \<or> s' = s1)"
      using assms(2) q st by (auto simp: refreshJobFromDurableState_def split: sum.splits if_splits)
    then show ?thesis using assms(1) by (auto simp: s1_def)
  next
    case True
    then obtain r where r: "q = Inr r" "\<not> replayed_nothing r" "trim_space jobID \<noteq> ''''" by blast
    note b = replay_now_rebuilt [OF st q [unfolded r]]
    define job where "job = (case mget (sc_jobs s1) jobID of
        None \<Rightarrow> buildRecoveredRuntimeJob ev (ev_rank ev (sc_tick s1)) r
      | Some existing \<Rightarrow> keep_existing (deref s1 existing) (buildRecoveredRuntimeJob ev (ev_rank ev (sc_tick s1)) r))"
    have view: "job_view job = job_view (buildRecoveredRuntimeJob ev (ev_rank ev (sc_tick s1)) r)"
      by (simp add: job_def keep_existing_view split: option.split)
    obtain ref s2 where a: "alloc_job job (step_tick s1) = (ref, s2)" by fastforce
    obtain x s3 where sd: "seedJobSequenceLocked jobID (dj_LastSequenceID (rs_Job r)) (rs_Transitions r)
        (s2\<lparr>sc_jobs := mput jobID ref (sc_jobs s2)\<rparr>) = (x, s3)" by fastforce
    have res: "res = Some ref" "s' = s3"
      using assms(2) q r st unfolding refreshJobFromDurableState_def
      by (simp_all add: job_def [symmetric] a sd Let_def)
    have log: "log_of (step_tick s1) = log_of s" by (simp add: log_of_def s1_def fun_eq_iff)
    have "sync (step_tick s1)" using assms(1) by (simp add: s1_def)
    then have "sync s3" by (rule sync_install [OF _ _ b(2) _ view a sd]) (use b log in simp_all)
    moreover have "sc_transitionStore s2 = sc_transitionStore s" "sc_jobQueue s2 = sc_jobQueue s"
      "sc_queuedJobs s2 = sc_queuedJobs s" "sc_config s2 = sc_config s"
      using a by (auto simp: alloc_job_def s1_def)
    ultimately show ?thesis
      using seed_only_registers(2) [OF sd] only_registers_frame(1-4) [OF seed_only_registers(1) [OF sd]] res
      by simp
  qed
qed

section \<open>Retention\<close>

lemma sync_forget:
  assumes "sync s" "\<And>j r. mget (sc_jobs s') j = Some r \<Longrightarrow> mget (sc_jobs s) j = Some r \<and> seq_covered s' j"
    and "sc_transitionStore s' = sc_transitionStore s" "sc_heap s' = sc_heap s" "sc_next s' = sc_next s"
  shows "sync s'"
proof -
  have d: "deref s' = deref s" using assms(4) by (simp add: deref_def fun_eq_iff)
  have log: "log_of s' = log_of s" using assms(3) by (simp add: log_of_def fun_eq_iff)
  then have "durable_ok s' = durable_ok s" using assms(3) by (simp add: durable_ok_def)
  with assms(1,2,5) d log show ?thesis unfolding sync_def by auto
qed

lemma seq_covered_same_counter:
  assumes "seq_covered s j" "sc_transitionStore s' = sc_transitionStore s"
    and "mget (sc_jobSequences s') j = mget (sc_jobSequences s) j"
  shows "seq_covered s' j"
proof -
  have "mget_or 0 (sc_jobSequences s') j = mget_or 0 (sc_jobSequences s) j"
    using assms(3) by (simp add: mget_or_def)
  then have "counter s' j = counter s j" "log_of s' j = log_of s j"
    unfolding counter_def log_of_def assms(2) by (simp_all cong: option.case_cong)
  then show ?thesis using assms(1) by (simp add: seq_covered_def)
qed

definition expired :: "time \<Rightarrow> Scheduler \<Rightarrow> job_ref \<Rightarrow> bool" where
  "expired cutoff s r \<longleftrightarrow>
     IsTerminalJobState (jb_LifecycleState (deref s r)) \<and> jb_UpdatedAt (deref s r) \<le> cutoff"

lemma prune_fold:
  assumes "fold (prune_job cutoff) entries (n, s) = (n', s')"
  shows "s' = s\<lparr>sc_jobs := sc_jobs s', sc_jobSequences := sc_jobSequences s', sc_queuedJobs := sc_queuedJobs s'\<rparr>"
    and "mget (sc_jobs s') j = (if \<exists>r. (j, r) \<in> set entries \<and> expired cutoff s r then None else mget (sc_jobs s) j)"
    and "mget (sc_jobSequences s') j =
      (if \<exists>r. (j, r) \<in> set entries \<and> expired cutoff s r then None else mget (sc_jobSequences s) j)"
    and "mget (sc_queuedJobs s') j =
      (if \<exists>r. (j, r) \<in> set entries \<and> expired cutoff s r then None else mget (sc_queuedJobs s) j)"
    and "wf_map (sc_jobs s) \<Longrightarrow> wf_map (sc_jobs s')"
proof -
  have "s' = s\<lparr>sc_jobs := sc_jobs s', sc_jobSequences := sc_jobSequences s', sc_queuedJobs := sc_queuedJobs s'\<rparr>
    \<and> mget (sc_jobs s') j = (if \<exists>r. (j, r) \<in> set entries \<and> expired cutoff s r then None else mget (sc_jobs s) j)
    \<and> mget (sc_jobSequences s') j =
      (if \<exists>r. (j, r) \<in> set entries \<and> expired cutoff s r then None else mget (sc_jobSequences s) j)
    \<and> mget (sc_queuedJobs s') j =
      (if \<exists>r. (j, r) \<in> set entries \<and> expired cutoff s r then None else mget (sc_queuedJobs s) j)
    \<and> (wf_map (sc_jobs s) \<longrightarrow> wf_map (sc_jobs s'))"
    using assms
  proof (induction entries arbitrary: n s)
    case (Cons e entries)
    obtain i r where e: "e = (i, r)" by fastforce
    obtain n1 s1 where p: "prune_job cutoff e (n, s) = (n1, s1)" by fastforce
    have s1: "s1 = (if expired cutoff s r then s\<lparr>sc_jobs := mdel i (sc_jobs s),
        sc_jobSequences := mdel i (sc_jobSequences s), sc_queuedJobs := mdel i (sc_queuedJobs s)\<rparr> else s)"
      using p by (auto simp: prune_job_def e expired_def Let_def split: if_splits)
    then have same: "expired cutoff s1 = expired cutoff s" by (auto simp: expired_def deref_def fun_eq_iff)
    have "fold (prune_job cutoff) entries (n1, s1) = (n', s')" using Cons.prems p by simp
    note IH = Cons.IH [OF this, unfolded same]
    have hit: "(\<exists>x. (j, x) \<in> set (e # entries) \<and> expired cutoff s x) \<longleftrightarrow>
        j = i \<and> expired cutoff s r \<or> (\<exists>x. (j, x) \<in> set entries \<and> expired cutoff s x)" by (auto simp: e)
    have st: "mget (sc_jobs s1) j = (if j = i \<and> expired cutoff s r then None else mget (sc_jobs s) j)"
      "mget (sc_jobSequences s1) j = (if j = i \<and> expired cutoff s r then None else mget (sc_jobSequences s) j)"
      "mget (sc_queuedJobs s1) j = (if j = i \<and> expired cutoff s r then None else mget (sc_queuedJobs s) j)"
      "wf_map (sc_jobs s) \<Longrightarrow> wf_map (sc_jobs s1)"
      by (simp_all add: s1)
    have "s' = s\<lparr>sc_jobs := sc_jobs s', sc_jobSequences := sc_jobSequences s', sc_queuedJobs := sc_queuedJobs s'\<rparr>"
      using IH [THEN conjunct1] by (cases s; cases s') (simp add: s1 split: if_splits)
    moreover define P Q where "P \<longleftrightarrow> j = i \<and> expired cutoff s r"
      and "Q \<longleftrightarrow> (\<exists>x. (j, x) \<in> set entries \<and> expired cutoff s x)"
    ultimately show ?case
      using IH st unfolding hit P_def [symmetric] Q_def [symmetric] by (cases P; cases Q) simp_all
  qed simp
  then show "s' = s\<lparr>sc_jobs := sc_jobs s', sc_jobSequences := sc_jobSequences s', sc_queuedJobs := sc_queuedJobs s'\<rparr>"
    "mget (sc_jobs s') j = (if \<exists>r. (j, r) \<in> set entries \<and> expired cutoff s r then None else mget (sc_jobs s) j)"
    "mget (sc_jobSequences s') j =
      (if \<exists>r. (j, r) \<in> set entries \<and> expired cutoff s r then None else mget (sc_jobSequences s) j)"
    "mget (sc_queuedJobs s') j =
      (if \<exists>r. (j, r) \<in> set entries \<and> expired cutoff s r then None else mget (sc_queuedJobs s) j)"
    "wf_map (sc_jobs s) \<Longrightarrow> wf_map (sc_jobs s')"
    by blast+
qed

lemma cleanupTerminalJobsOnce_ok:
  assumes "sync s" "cleanupTerminalJobsOnce now s = (n, s')"
  shows "sync s'" "sc_transitionStore s' = sc_transitionStore s" "sc_heap s' = sc_heap s"
    "sc_next s' = sc_next s" "sc_jobQueue s' = sc_jobQueue s" "sc_config s' = sc_config s"
proof -
  have "sync s' \<and> sc_transitionStore s' = sc_transitionStore s \<and> sc_heap s' = sc_heap s
    \<and> sc_next s' = sc_next s \<and> sc_jobQueue s' = sc_jobQueue s \<and> sc_config s' = sc_config s"
  proof (cases "cf_JobRetentionTTL (sc_config s) \<le> 0")
    case True
    with assms show ?thesis by (simp add: cleanupTerminalJobsOnce_def)
  next
    case False
    then have f: "fold (prune_job (now - cf_JobRetentionTTL (sc_config s))) (sc_jobs s) (0, s) = (n, s')"
      using assms(2) by (simp add: cleanupTerminalJobsOnce_def)
    note p = prune_fold [OF f]
    have fr: "sc_transitionStore s' = sc_transitionStore s" "sc_heap s' = sc_heap s" "sc_next s' = sc_next s"
      "sc_jobQueue s' = sc_jobQueue s" "sc_config s' = sc_config s"
      by (subst p(1), simp)+
    have "sync s'"
    proof (rule sync_forget [OF assms(1)])
      fix j r assume "mget (sc_jobs s') j = Some r"
      then have kept: "mget (sc_jobs s) j = Some r" "mget (sc_jobSequences s') j = mget (sc_jobSequences s) j"
        using p(2,3) [of j] by (auto split: if_splits)
      then show "mget (sc_jobs s) j = Some r \<and> seq_covered s' j"
        using seq_covered_same_counter [OF syncD(3) [OF assms(1)] fr(1)] by blast
    qed (use fr in simp_all)
    with fr show ?thesis by simp
  qed
  then show "sync s'" "sc_transitionStore s' = sc_transitionStore s" "sc_heap s' = sc_heap s"
    "sc_next s' = sc_next s" "sc_jobQueue s' = sc_jobQueue s" "sc_config s' = sc_config s" by blast+
qed

section \<open>Concurrent submissions\<close>

text \<open>Clients submitting at the same time, and the main loop receiving: every lock section is one step,
  and a client's recorder calls run between its two sections. \<open>P\<close> holds the submissions between their
  sections.\<close>

inductive admission_step :: "job_ref list \<times> Scheduler \<Rightarrow> job_ref list \<times> Scheduler \<Rightarrow> bool" where
  reserve: "submit_reserve r s = (None, s') \<Longrightarrow> admission_step (P, s) (P @ [r], s')"
| journal: "r \<in> set P \<Longrightarrow> admission_step (P, s) (P, recordInitialTransitions ev r s)"
| finish: "r \<in> set P \<Longrightarrow> submit_finish r s = (ok, s') \<Longrightarrow> admission_step (P, s) (remove1 r P, s')"
| receive: "dequeueJob s = Some (r, s') \<Longrightarrow> admission_step (P, s) (P, s')"

lemma admission_step_cases [consumes 1, case_names reserve journal finish receive]:
  assumes "admission_step (P, s) (P', s')"
  obtains r where "submit_reserve r s = (None, s')" "P' = P @ [r]"
  | ev r where "s' = recordInitialTransitions ev r s" "P' = P"
  | r ok where "r \<in> set P" "submit_finish r s = (ok, s')" "P' = remove1 r P"
  | r where "dequeueJob s = Some (r, s')" "P' = P"
  using assms by (auto elim: admission_step.cases)

definition admission_ok :: "job_ref list \<Rightarrow> Scheduler \<Rightarrow> bool" where
  "admission_ok P s \<longleftrightarrow>
     queue_ok s \<and> sc_pendingEnqueue s = int (length P)
     \<and> length (sc_jobQueue s) + length P \<le> queue_cap s
     \<and> distinct (map (\<lambda>r. jb_ID (deref s r)) (sc_jobQueue s @ P))
     \<and> (\<forall>r \<in> set (sc_jobQueue s @ P). mget (sc_jobs s) (jb_ID (deref s r)) \<noteq> None)"

lemma pending_frame [simp]:
  "deref (s\<lparr>sc_pendingEnqueue := n\<rparr>) = deref s" "queue_cap (s\<lparr>sc_pendingEnqueue := n\<rparr>) = queue_cap s"
  by (simp_all add: deref_def fun_eq_iff queue_cap_def)

lemma admission_finish:
  assumes "admission_ok P s" "r \<in> set P"
  shows "fst (submit_finish r s)"
proof -
  let ?s = "s\<lparr>sc_pendingEnqueue := sc_pendingEnqueue s - 1\<rparr>"
  have "mget (sc_queuedJobs s) (jb_ID (deref s r)) = None"
    using assms queue_ok_mirror [of s "jb_ID (deref s r)"] by (auto simp: admission_ok_def)
  moreover have "length (sc_jobQueue s) < queue_cap s"
    using assms(1) length_pos_if_in_set [OF assms(2)] unfolding admission_ok_def by linarith
  ultimately show ?thesis
    by (simp add: submit_finish_def enqueueJobLocked_def Let_def)
qed

lemma admission_reserve_ok:
  assumes "admission_ok P s" "submit_reserve r s = (None, s')"
  shows "admission_ok (P @ [r]) s'"
  using assms(2)
proof (cases rule: submit_reserve_cases)
  case accepted
  have id: "jb_ID (deref s' x) = jb_ID (deref s x)" for x by (simp add: accepted(5) deref_def upd_job_def)
  have fr: "sc_jobQueue s' = sc_jobQueue s" "sc_queuedJobs s' = sc_queuedJobs s" "queue_cap s' = queue_cap s"
    by (simp_all add: accepted(5) queue_cap_def)
  have new: "jb_ID (deref s r) \<notin> (\<lambda>r. jb_ID (deref s r)) ` set (sc_jobQueue s @ P)"
    using assms(1) accepted(2) unfolding admission_ok_def by force
  show ?thesis
    using assms(1) accepted(2,4) new unfolding admission_ok_def queue_ok_def id fr
    by (auto simp: accepted(5))
qed simp

lemma admission_finish_ok:
  assumes "admission_ok P s" "r \<in> set P" "submit_finish r s = (ok, s')"
  shows "admission_ok (remove1 r P) s'"
proof -
  let ?s = "s\<lparr>sc_pendingEnqueue := sc_pendingEnqueue s - 1\<rparr>"
  have ok: "ok" using admission_finish [OF assms(1,2)] assms(3) by simp
  have q: "queue_ok ?s" using assms(1) by (simp add: admission_ok_def queue_ok_def)
  have e: "enqueueJobLocked r ?s = (ok, s')" using assms(3) by (simp add: submit_finish_def)
  then have s': "sc_jobQueue s' = sc_jobQueue s @ [r]" "sc_jobs s' = sc_jobs s" "deref s' = deref s"
    "sc_pendingEnqueue s' = sc_pendingEnqueue s - 1" "queue_cap s' = queue_cap s"
    using ok by (cases rule: enqueueJobLocked_cases; simp)+
  have "mset (sc_jobQueue s @ r # remove1 r P) = mset (sc_jobQueue s @ P)"
    using assms(2) by simp
  then have m: "mset (map (\<lambda>r. jb_ID (deref s r)) (sc_jobQueue s @ r # remove1 r P)) =
      mset (map (\<lambda>r. jb_ID (deref s r)) (sc_jobQueue s @ P))" by (simp only: mset_map)
  have len: "length P = Suc (length (remove1 r P))"
    using length_pos_if_in_set [OF assms(2)] assms(2) by (simp add: length_remove1)
  then show ?thesis
    using assms(1) enqueueJobLocked_ok [OF q e] mset_eq_imp_distinct_iff [OF m] set_remove1_subset [of r P] assms(2)
    by (auto simp: admission_ok_def s')
qed

lemma admission_step_ok:
  assumes "admission_step (P, s) (P', s')" "admission_ok P s"
  shows "admission_ok P' s'"
  using assms(1)
proof (cases rule: admission_step_cases)
  case (reserve r)
  then show ?thesis using admission_reserve_ok [OF assms(2)] by simp
next
  case (journal ev r)
  have "only_journal s s'" by (simp add: journal(1))
  from only_journal_frame [OF this] show ?thesis
    using assms(2) unfolding admission_ok_def queue_ok_def by (simp add: journal(2) queue_cap_def)
next
  case (finish r ok)
  then show ?thesis using admission_finish_ok [OF assms(2)] by simp
next
  case (receive r)
  have q: "queue_ok s" using assms(2) by (simp add: admission_ok_def)
  note d = dequeueJob_ok [OF q receive(1)]
  have "sc_jobs s' = sc_jobs s" "sc_pendingEnqueue s' = sc_pendingEnqueue s"
    using receive(1) by (auto simp: dequeueJob_def markJobDequeued_def split: list.splits)
  then show ?thesis using assms(2) d receive(2) by (auto simp: admission_ok_def)
qed

lemma admission_steps_ok:
  assumes "admission_step\<^sup>*\<^sup>* (P, s) (P', s')" "admission_ok P s"
  shows "admission_ok P' s'"
  using assms by (induction rule: rtranclp_induct2) (auto intro: admission_step_ok)

section \<open>Properties\<close>

lemma same_progress_clone: "same_progress log old (cloneJob new) = same_progress log old new"
proof -
  have "job_tasks (cloneJob new) = map clone_task (job_tasks new)"
    by (simp add: job_tasks_def cloneJob_def clone_stage_def map_concat comp_def)
  then show ?thesis by (auto simp: same_progress_def cloneJob_def clone_task_def)
qed

lemma getJobPointer_quiet:
  assumes "sync s" "quiet ev" "jobID \<noteq> ''''" "log_of s jobID \<noteq> []"
  shows "\<exists>r. fst (getJobPointer ev jobID s) = Inr r"
proof (cases "mget (sc_jobs s) jobID")
  case None
  obtain st where st: "sc_transitionStore s = Some st" using assms(1) by (auto simp: sync_def durable_ok_def)
  have "legal_log jobID (store_log st jobID)"
    using sync_durable_ok [OF assms(1)] by (auto simp: durable_ok_def log_of_def st)
  then obtain r where r: "replay_data (\<lambda>_. None) st jobID = Inr r"
    using replay_data_complete [of jobID st "\<lambda>_. None"] by blast
  then have q: "replay_now ev jobID s = (Inr r, step_tick s)"
    using assms(2,3) st ReplayJobState_no_faults [of jobID "\<lambda>_. None" st] by (simp add: replay_now_def quiet_def)
  have "rs_Transitions r \<noteq> []" using replay_now_rebuilt(3) [OF st q] assms(4) by simp
  then show ?thesis
    by (simp add: getJobPointer_def None st q replayed_nothing_def case_prod_beta Let_def)
qed (simp add: getJobPointer_def)

lemma SubmitJobWithContext_cases:
  assumes "sync s" "queue_ok s" "fresh_job s r" "0 \<le> sc_pendingEnqueue s"
    and "SubmitJobWithContext ev r s = (err, s')"
  shows "sync s' \<and> queue_ok s' \<and> sc_pendingEnqueue s' = sc_pendingEnqueue s
    \<and> (err = None \<longleftrightarrow> \<not> sc_recovering s \<and> mget (sc_jobs s) (jb_ID (deref s r)) = None
         \<and> int (length (sc_jobQueue s)) + sc_pendingEnqueue s < int (queue_cap s))
    \<and> (err \<noteq> None \<longrightarrow> s' = s)
    \<and> (err = None \<longrightarrow> mget (sc_jobs s') (jb_ID (deref s r)) = Some r
         \<and> sc_jobQueue s' = sc_jobQueue s @
             (if jb_ID (deref s r) \<in> (\<lambda>r. jb_ID (deref s r)) ` set (sc_jobQueue s) then [] else [r]))"
proof -
  have sync: "sync s'" by (rule SubmitJobWithContext_sync [OF assms(1,3,5)])
  obtain e s1 where r: "submit_reserve r s = (e, s1)" by fastforce
  show ?thesis
    using r
  proof (cases rule: submit_reserve_cases)
    case (rejected x)
    have "err = Some x" "s' = s" using assms(5) rejected r by (simp_all add: SubmitJobWithContext_def)
    moreover have "sc_recovering s \<or> mget (sc_jobs s) (jb_ID (deref s r)) \<noteq> None
        \<or> \<not> int (length (sc_jobQueue s)) + sc_pendingEnqueue s < int (queue_cap s)"
      using r rejected(1) by (auto simp: submit_reserve_def Let_def split: if_splits)
    ultimately show ?thesis using assms(1,2) by simp
  next
    case accepted
    define s2 where "s2 = recordInitialTransitions ev r s1"
    note f = only_journal_frame [OF recordInitialTransitions_frame [of s1 ev r], folded s2_def]
    have s1: "sc_jobQueue s1 = sc_jobQueue s" "sc_queuedJobs s1 = sc_queuedJobs s" "queue_cap s1 = queue_cap s"
      "sc_pendingEnqueue s1 = sc_pendingEnqueue s + 1" "sc_jobs s1 = mput (jb_ID (deref s r)) r (sc_jobs s)"
      "\<And>x. jb_ID (deref s1 x) = jb_ID (deref s x)"
      by (simp_all add: accepted(5) queue_cap_def deref_def upd_job_def)
    let ?s2 = "s2\<lparr>sc_pendingEnqueue := sc_pendingEnqueue s2 - 1\<rparr>"
    have cap: "queue_cap s2 = queue_cap s" using f(4) s1(3) by (simp add: queue_cap_def)
    have q2: "queue_ok ?s2" using assms(2) by (simp add: queue_ok_def f s1 cap)
    obtain ok s3 where e: "enqueueJobLocked r ?s2 = (ok, s3)" by fastforce
    have res: "err = None" "s' = s3"
      using assms(5) accepted(1) r e by (simp_all add: SubmitJobWithContext_def s2_def submit_finish_def)
    have room: "length (sc_jobQueue s) < queue_cap s" using accepted(4) assms(4) by linarith
    have "sc_pendingEnqueue s' = sc_pendingEnqueue s \<and> sc_jobs s' = mput (jb_ID (deref s r)) r (sc_jobs s)
        \<and> sc_jobQueue s' = sc_jobQueue s @
            (if jb_ID (deref s r) \<in> (\<lambda>r. jb_ID (deref s r)) ` set (sc_jobQueue s) then [] else [r])"
      using e room queue_ok_mirror [OF q2, of "jb_ID (deref s r)"]
      by (cases rule: enqueueJobLocked_cases) (auto simp: res f s1 cap)
    then show ?thesis using sync enqueueJobLocked_ok [OF q2 e] res accepted by simp
  qed
qed


text \<open>C8. Concurrent submissions never admit more than the queue can hold. However the lock sections
  of any number of clients and of the main loop interleave, the queued jobs and the submissions still
  being written fit the capacity, the counter of reservations is exact, and the send that ends an
  accepted submission succeeds.\<close>

theorem admission_never_overfills:
  assumes "queue_ok s" "sc_pendingEnqueue s = 0"
    and "list_all (\<lambda>r. mget (sc_jobs s) (jb_ID (deref s r)) \<noteq> None) (sc_jobQueue s)"
    and "admission_step\<^sup>*\<^sup>* ([], s) (P, s')"
  shows "length (sc_jobQueue s') + length P \<le> queue_cap s' \<and> sc_pendingEnqueue s' = int (length P)
    \<and> list_all (\<lambda>r. fst (submit_finish r s')) P \<and> queue_ok s'"
proof -
  have "admission_ok [] s" using assms(1-3) by (auto simp: admission_ok_def queue_ok_def list_all_iff)
  from admission_steps_ok [OF assms(4) this] admission_finish show ?thesis
    by (auto simp: admission_ok_def list_all_iff)
qed


text \<open>C30. Recovery is all or nothing: one unfinished job whose history the replay refuses makes it
  return an error with no job registered, whatever the other jobs look like, and the scheduler starts
  nevertheless.\<close>

theorem corrupt_history_blocks_recovery:
  assumes "sc_transitionStore s = Some st" "store_ListUnfinishedJobs no_faults st = Inr jobs"
    and "list_ex (\<lambda>job. \<not> legal_log (dj_JobID job) (store_log st (dj_JobID job))) jobs"
    and "\<not> sc_started s" "\<not> sc_recovering s" "\<not> sc_stopRequested s"
  shows "fst (RecoverFromTransitions ev s) \<noteq> None
    \<and> sc_jobs (snd (RecoverFromTransitions ev s)) = sc_jobs s
    \<and> sc_started (Start ev False None s) \<and> sc_jobs (Start ev False None s) = sc_jobs s"
proof -
  have "\<exists>e. RecoverFromTransitions ev t = (Some e, step_tick t)" if "sc_transitionStore t = Some st" for t
  proof (cases "ReplayStateFromStore (ev_scan_ctx ev (sc_tick t)) (ev_scan_faults ev (sc_tick t)) (Some st)")
    case (Inr states)
    have "\<exists>r \<in> set states. dj_JobID (rs_Job r) = dj_JobID job" if "job \<in> set jobs" for job
      using that replayed_states_cover(2) [OF Inr assms(2)] by (metis imageE imageI)
    moreover have "legal_log (dj_JobID (rs_Job r)) (store_log st (dj_JobID (rs_Job r)))" if "r \<in> set states" for r
      using that replayed_states_cover(1) [OF Inr] by (auto simp: rebuilt_def replayed_def)
    ultimately show ?thesis using assms(3) by (fastforce simp: list_ex_iff)
  qed (simp add: RecoverFromTransitions_def that)
  from this [of s] this [of "s\<lparr>sc_recovering := True\<rparr>"] assms show ?thesis
    by (auto simp: Start_def)
qed

text \<open>A client's job with one task, on the heap of a new scheduler.\<close>

definition example_new_task :: "string \<Rightarrow> Task" where
  "example_new_task taskID =
     \<lparr>tk_ID = taskID, tk_StageID = '''', tk_JobID = '''', tk_AgentID = ''a'', tk_AgentName = ''agent'',
      tk_Input = None, tk_Output = None, tk_PartitionKey = '''', tk_Status = JobPending,
      tk_LifecycleState = TaskStateUnset, tk_Attempts = 0\<rparr>"

definition example_stage :: "string \<Rightarrow> string list \<Rightarrow> Stage" where
  "example_stage stageID taskIDs =
     \<lparr>sg_ID = stageID, sg_JobID = ''j2'', sg_Tasks = map example_new_task taskIDs, sg_Dependencies = [],
      sg_Status = JobPending\<rparr>"

definition example_client :: "Stage list \<Rightarrow> Scheduler" where
  "example_client stages =
     snd (alloc_job (fold AddStage stages (NewJob 1 1 ''j2'' ''demo'')) NewScheduler)"

abbreviation example_one :: Scheduler where
  "example_one \<equiv> example_client [example_stage ''s1'' [''t1'']]"

lemma example_one_ok:
  "sync example_one" "queue_ok example_one" "fresh_job example_one 0" "sc_pendingEnqueue example_one = 0"
proof -
  define job where "job = fold AddStage [example_stage ''s1'' [''t1'']] (NewJob 1 1 ''j2'' ''demo'')"
  have s: "example_one = NewScheduler\<lparr>sc_heap := mput 0 job (sc_heap NewScheduler), sc_next := 1\<rparr>"
    by (simp add: example_client_def alloc_job_def job_def NewScheduler_def NewSchedulerWithConfig_def
        newSchedulerWithValidatedConfig_def)
  have new: "sc_transitionStore NewScheduler = Some (MemoryStore NewInMemoryTransitionStore)"
    "sc_jobs NewScheduler = []" "sc_next NewScheduler = 0" "sc_jobQueue NewScheduler = []"
    "sc_queuedJobs NewScheduler = []" "sc_pendingEnqueue NewScheduler = 0"
    by (simp_all add: NewScheduler_def NewSchedulerWithConfig_def newSchedulerWithValidatedConfig_def)
  have log: "log_of example_one = (\<lambda>_. [])"
    by (simp add: s log_of_def new fun_eq_iff NewInMemoryTransitionStore_def mem_ListTransitionsByJob_def mget_or_def)
  have "durable_ok example_one"
    by (simp add: durable_ok_def log legal_log_def) (simp add: s new store_covered_def)
  then show "sync example_one" by (simp add: sync_def s new)
  show "queue_ok example_one" "sc_pendingEnqueue example_one = 0" by (simp_all add: s new queue_ok_def)
  have "job_tasks job = [example_new_task ''t1'']" "jb_ID job = ''j2''"
    by (simp_all add: job_def AddStage_def NewJob_def example_stage_def job_tasks_def)
  then have "job_synced [] job" by (simp add: job_synced_def task_synced_def example_new_task_def)
  then show "fresh_job example_one 0" by (simp add: fresh_job_def log) (simp add: s deref_def)
qed

abbreviation example_submitted :: "go_error option \<times> Scheduler" where
  "example_submitted \<equiv> SubmitJobWithContext (example_env 5) 0 example_one"


theorem admission_never_overfills_witness:
  "length (sc_jobQueue (snd (submit_reserve 0 example_one))) + length [0::nat]
     \<le> queue_cap (snd (submit_reserve 0 example_one))
   \<and> fst (submit_finish 0 (snd (submit_reserve 0 example_one)))"
proof -
  have "fst (submit_reserve 0 example_one) = None" by code_simp
  then have "submit_reserve 0 example_one = (None, snd (submit_reserve 0 example_one))"
    by (metis prod.collapse)
  then have "admission_step ([], example_one) ([] @ [0], snd (submit_reserve 0 example_one))"
    by (rule admission_step.reserve)
  then have run: "admission_step\<^sup>*\<^sup>* ([], example_one) ([0], snd (submit_reserve 0 example_one))" by simp
  have "sc_jobQueue example_one = []" by code_simp
  then show ?thesis
    using admission_never_overfills [OF example_one_ok(2,4) _ run] by simp
qed

text \<open>A job that has failed, in memory and in its log.\<close>

definition example_failed_log :: "TransitionRecord list" where
  "example_failed_log =
     [example_record 1 TransitionEntityJob TransitionJobSubmitted '''' '''' ''SUBMITTED'' 0,
      example_record 2 TransitionEntityJob TransitionJobQueued '''' ''SUBMITTED'' ''QUEUED'' 0,
      example_record 3 TransitionEntityJob TransitionJobFailed '''' ''QUEUED'' ''FAILED'' 0]"

definition example_failed :: Scheduler where
  "example_failed = NewScheduler
     \<lparr>sc_heap := [(0, (NewJob 1 1 ''j1'' ''demo'')\<lparr>jb_LifecycleState := JobStateFailed\<rparr>)], sc_next := 1,
      sc_jobs := [(''j1'', 0)], sc_jobSequences := [(''j1'', 3)],
      sc_transitionStore := Some (MemoryStore
        \<lparr>ms_transitions = [(''j1'', example_failed_log)], ms_jobs = [(''j1'', example_job)], ms_tasks = []\<rparr>)\<rparr>"

lemma example_failed_ok: "sync example_failed"
proof -
  let ?log = example_failed_log
  have log: "log_of example_failed j = (if j = ''j1'' then ?log else [])" for j
    by (simp add: example_failed_def log_of_def mem_ListTransitionsByJob_def mget_or_def)
  have "log_ok ''j1'' ?log" by (simp add: log_ok_def example_failed_log_def example_record_def) code_simp
  moreover have "legal_log ''j1'' ?log" by code_simp
  ultimately have "durable_ok example_failed"
    unfolding durable_ok_def log
    by (auto simp: example_failed_def mem_invar_def example_job_def wf_map_def store_covered_def legal_log_def)
  moreover have "job_synced ?log (deref example_failed 0)"
  proof -
    have "job_tasks (deref example_failed 0) = []" "jb_LifecycleState (deref example_failed 0) = JobStateFailed"
      "last (job_states ?log) = JobStateFailed" by code_simp+
    moreover have "task_states k ?log = []" for k
      by (simp add: task_states_def task_records_def example_failed_log_def example_record_def)
    ultimately show ?thesis by (simp add: job_synced_def)
  qed
  moreover have "jb_ID (deref example_failed 0) = ''j1''" "counter example_failed ''j1'' = Some 3"
    "list_all (\<lambda>r. tr_SequenceID r \<le> 3) ?log" by code_simp+
  ultimately show ?thesis
    by (auto simp: sync_def log seq_covered_def list_all_iff) (auto simp: example_failed_def split: if_splits)
qed


definition example_corrupt :: transition_store where
  "example_corrupt = MemoryStore
     \<lparr>ms_transitions = [(''j1'',
        [example_record 1 TransitionEntityJob TransitionJobSubmitted '''' '''' ''SUBMITTED'' 0,
         example_record 2 TransitionEntityJob TransitionJobRunning '''' ''SUBMITTED'' ''RUNNING'' 0])],
      ms_jobs = [(''j1'', example_job)], ms_tasks = []\<rparr>"

theorem corrupt_history_blocks_recovery_witness:
  "fst (RecoverFromTransitions (example_env 3) (NewScheduler\<lparr>sc_transitionStore := Some example_corrupt\<rparr>)) \<noteq> None
   \<and> sc_started (Start (example_env 3) False None (NewScheduler\<lparr>sc_transitionStore := Some example_corrupt\<rparr>))"
proof -
  let ?s = "NewScheduler\<lparr>sc_transitionStore := Some example_corrupt\<rparr>"
  have jobs: "store_ListUnfinishedJobs no_faults example_corrupt = Inr [example_job]" by code_simp
  have bad: "list_ex (\<lambda>job. \<not> legal_log (dj_JobID job) (store_log example_corrupt (dj_JobID job))) [example_job]"
    by code_simp
  have "\<not> sc_started ?s" "\<not> sc_recovering ?s" "\<not> sc_stopRequested ?s" by code_simp+
  from corrupt_history_blocks_recovery [OF _ jobs bad this] show ?thesis by simp
qed

end
