(* ===== verification/Task_Execution.thy ===== *)
theory Task_Execution
  imports Admission
begin

text \<open>
  Running one task, \<^verbatim>\<open>executeTask\<close> and \<^verbatim>\<open>executeTaskWithRetry\<close> of \<^verbatim>\<open>pkg/scheduler/scheduler.go\<close>,
  twice: as functions that read like the code, and as a machine whose steps are the pieces between
  which other goroutines may run (\<open>worker_step\<close>). The machine run on its own is the function, in a
  bounded number of steps.

  Properties: the equivalence and the bound; every step keeps the journal invariant; the executor is
  called only after the dispatch has been claimed in the durable log, and never by a scheduler
  that is not leader.
\<close>

section \<open>Errors\<close>

definition isHumanPauseError :: "go_error \<Rightarrow> bool" where
  "isHumanPauseError err \<longleftrightarrow>
     (let msg = to_lower (error_text err) in
      str_contains msg ''human interaction pending'' \<or> str_contains msg ''execution paused'')"

definition isDispatchCapacityConflict :: "go_error \<Rightarrow> bool" where
  "isDispatchCapacityConflict err \<longleftrightarrow>
     (let lowered = to_lower (error_text err) in
      str_contains lowered ''at capacity'' \<or> str_contains lowered ''capacity'')"

section \<open>One execution\<close>

text \<open>The pieces of \<^verbatim>\<open>executeTask\<close>: up to the record of the start, the authority check, the call, and
  what follows it.\<close>

definition start_task :: "env \<Rightarrow> task_ref \<Rightarrow> NodeInfo \<Rightarrow> Scheduler \<Rightarrow> Scheduler" where
  "start_task ev t node s =
     (let s = upd_task t (\<lambda>k. k\<lparr>tk_Status := JobRunning\<rparr>) s
      in recordTaskTransition ev t TransitionTaskRunning TaskStateRunning (ni_ID node)
           (tk_Attempts (get_task s t)) '''' s)"

definition authorize_task :: "env \<Rightarrow> Scheduler \<Rightarrow> DispatchAuthority result \<times> Scheduler" where
  "authorize_task ev s =
     (let (authority, s) = dispatchAuthority ev s in
      case authority of
        Inl e \<Rightarrow> (Inl (ErrWrap ''resolve dispatch authority before remote execution: '' e ''''), s)
      | Inr a \<Rightarrow>
          if \<not> la_IsLeader a
          then (Inl (ErrWrap '''' (ErrSentinel ErrStaleDispatchAuthority)
                       ('': leader_id='' @ la_LeaderID a @ '' epoch='' @ la_Epoch a)), s)
          else (Inr \<lparr>da_LeaderID = la_LeaderID a, da_Epoch = la_Epoch a, da_Scope = la_Scope a\<rparr>, s))"

definition call_executor ::
    "env \<Rightarrow> task_ref \<Rightarrow> NodeInfo \<Rightarrow> DispatchAuthority \<Rightarrow> Scheduler
     \<Rightarrow> AgentOutput option result \<times> Scheduler" where
  "call_executor ev t node authority s =
     (ev_exec ev (sc_tick s) authority (ni_ID node) (tk_AgentName (get_task s t)) (tk_Input (get_task s t)),
      step_tick s)"

definition finish_task ::
    "env \<Rightarrow> task_ref \<Rightarrow> NodeInfo \<Rightarrow> AgentOutput option result \<Rightarrow> Scheduler
     \<Rightarrow> go_error option \<times> Scheduler" where
  "finish_task ev t node res s =
     (case res of
        Inl err \<Rightarrow>
          if errors_as_policy err \<noteq> None
          then (Some err, upd_task t (\<lambda>k. k\<lparr>tk_Status := JobBlocked\<rparr>) s)
          else
            (let s = (if isDispatchCapacityConflict err then markDispatchCooldown ev (ni_ID node) s else s);
                 s = upd_task t (\<lambda>k. k\<lparr>tk_Status := JobFailed\<rparr>) s;
                 s = recordTaskTransition ev t TransitionTaskFailed TaskStateFailed (ni_ID node)
                       (tk_Attempts (get_task s t)) (error_text err) s
             in (Some (ErrWrap (''task '' @ tk_ID (get_task s t) @ '' failed on node '' @ ni_ID node @ '': '')
                         err ''''), s))
      | Inr output \<Rightarrow>
          (let s = upd_task t (\<lambda>k. k\<lparr>tk_Output := output, tk_Status := JobCompleted\<rparr>) s
           in (None, recordTaskTransition ev t TransitionTaskSucceeded TaskStateSucceeded (ni_ID node)
                       (tk_Attempts (get_task s t)) '''' s)))"

definition executeTask ::
    "env \<Rightarrow> task_ref \<Rightarrow> NodeInfo \<Rightarrow> Scheduler \<Rightarrow> go_error option \<times> Scheduler" where
  "executeTask ev t node s =
     (let s = start_task ev t node s;
          (authority, s) = authorize_task ev s
      in case authority of
           Inl e \<Rightarrow> (Some e, s)
         | Inr a \<Rightarrow>
             (let (res, s) = call_executor ev t node a s in finish_task ev t node res s))"

section \<open>Retries\<close>

definition max_attempts :: "Scheduler \<Rightarrow> int" where
  "max_attempts s =
     (if cf_MaxDispatchAttempts (sc_config s) \<le> 0 then 1 else cf_MaxDispatchAttempts (sc_config s))"

definition claim_attempt ::
    "env \<Rightarrow> task_ref \<Rightarrow> NodeInfo \<Rightarrow> int \<Rightarrow> Scheduler \<Rightarrow> go_error option \<times> Scheduler" where
  "claim_attempt ev t node attempt s =
     claimTaskDispatchTransition ev t (ni_ID node) attempt (upd_task t (\<lambda>k. k\<lparr>tk_Attempts := attempt\<rparr>) s)"

function retry_loop ::
    "env \<Rightarrow> NodeInfo list \<Rightarrow> int \<Rightarrow> task_ref \<Rightarrow> int \<Rightarrow> NodeInfo \<Rightarrow> Scheduler
     \<Rightarrow> go_error option \<times> Scheduler" where
  "retry_loop ev nodes maxAttempts t attempt node s =
     (if maxAttempts < attempt then (None, s)
      else
        (let (err, s) = claim_attempt ev t node attempt s in
         case err of
           Some e \<Rightarrow>
             if \<not> errors_is e ErrDispatchClaimRejected then (Some e, s)
             else if attempt = maxAttempts then (Some e, s)
             else
               (let ((sel, aff), s) = selectNodeForTask ev (get_task s t) nodes s in
                case sel of
                  None \<Rightarrow> (Some (ErrSentinel ErrNoWorkerCapacity), s)
                | Some next \<Rightarrow> retry_loop ev nodes maxAttempts t (attempt + 1) next s)
         | None \<Rightarrow>
             (let (err, s) = executeTask ev t node (reserveNodeSlot ev (ni_ID node) s);
                  s = releaseNodeSlot ev (ni_ID node) s
              in case err of
                   None \<Rightarrow> (None, s)
                 | Some e \<Rightarrow>
                     if \<not> isDispatchCapacityConflict e then (Some e, s)
                     else if attempt = maxAttempts then (Some e, s)
                     else
                       (let ((sel, aff), s) = selectNodeForTask ev (get_task s t) nodes s in
                        case sel of
                          None \<Rightarrow> (Some (ErrSentinel ErrNoWorkerCapacity), s)
                        | Some next \<Rightarrow> retry_loop ev nodes maxAttempts t (attempt + 1) next s))))"
  by pat_completeness auto
termination
  by (relation "measure (\<lambda>(ev, nodes, maxAttempts, t, attempt, node, s). nat (maxAttempts + 1 - attempt))") auto

declare retry_loop.simps [simp del]

definition executeTaskWithRetry ::
    "env \<Rightarrow> task_ref \<Rightarrow> NodeInfo \<Rightarrow> NodeInfo list \<Rightarrow> Scheduler \<Rightarrow> go_error option \<times> Scheduler" where
  "executeTaskWithRetry ev t initialNode healthyNodes s =
     retry_loop ev healthyNodes (max_attempts s) t 1 initialNode s"

section \<open>The task goroutine\<close>

text \<open>Where a goroutine stands in \<^verbatim>\<open>executeTaskWithRetry\<close>: before the claim of an attempt, before the
  reservation, before the start is recorded, before the authority check, before the call, with the
  executor's answer, before the release with the error of the execution, returned.\<close>

datatype task_pc =
    PcClaim
  | PcReserve
  | PcStart
  | PcAuthorize
  | PcCall DispatchAuthority
  | PcFinish "AgentOutput option result"
  | PcRelease "go_error option"
  | PcReturn "go_error option"

record worker =
  wk_task :: task_ref
  wk_node :: NodeInfo
  wk_attempt :: int
  wk_pc :: task_pc

definition next_attempt ::
    "env \<Rightarrow> NodeInfo list \<Rightarrow> worker \<Rightarrow> Scheduler \<Rightarrow> worker \<times> Scheduler" where
  "next_attempt ev nodes w s =
     (let ((sel, aff), s) = selectNodeForTask ev (get_task s (wk_task w)) nodes s in
      case sel of
        None \<Rightarrow> (w\<lparr>wk_pc := PcReturn (Some (ErrSentinel ErrNoWorkerCapacity))\<rparr>, s)
      | Some next \<Rightarrow> (w\<lparr>wk_node := next, wk_attempt := wk_attempt w + 1, wk_pc := PcClaim\<rparr>, s))"

definition worker_step ::
    "env \<Rightarrow> NodeInfo list \<Rightarrow> int \<Rightarrow> worker \<Rightarrow> Scheduler \<Rightarrow> worker \<times> Scheduler" where
  "worker_step ev nodes maxAttempts w s =
     (let t = wk_task w; node = wk_node w in
      case wk_pc w of
        PcClaim \<Rightarrow>
          (if maxAttempts < wk_attempt w then (w\<lparr>wk_pc := PcReturn None\<rparr>, s)
           else
             (let (err, s) = claim_attempt ev t node (wk_attempt w) s in
              case err of
                Some e \<Rightarrow>
                  if \<not> errors_is e ErrDispatchClaimRejected then (w\<lparr>wk_pc := PcReturn (Some e)\<rparr>, s)
                  else if wk_attempt w = maxAttempts then (w\<lparr>wk_pc := PcReturn (Some e)\<rparr>, s)
                  else next_attempt ev nodes w s
              | None \<Rightarrow> (w\<lparr>wk_pc := PcReserve\<rparr>, s)))
      | PcReserve \<Rightarrow> (w\<lparr>wk_pc := PcStart\<rparr>, reserveNodeSlot ev (ni_ID node) s)
      | PcStart \<Rightarrow> (w\<lparr>wk_pc := PcAuthorize\<rparr>, start_task ev t node s)
      | PcAuthorize \<Rightarrow>
          (let (authority, s) = authorize_task ev s in
           case authority of
             Inl e \<Rightarrow> (w\<lparr>wk_pc := PcRelease (Some e)\<rparr>, s)
           | Inr a \<Rightarrow> (w\<lparr>wk_pc := PcCall a\<rparr>, s))
      | PcCall a \<Rightarrow>
          (let (res, s) = call_executor ev t node a s in (w\<lparr>wk_pc := PcFinish res\<rparr>, s))
      | PcFinish res \<Rightarrow>
          (let (err, s) = finish_task ev t node res s in (w\<lparr>wk_pc := PcRelease err\<rparr>, s))
      | PcRelease err \<Rightarrow>
          (let s = releaseNodeSlot ev (ni_ID node) s in
           case err of
             None \<Rightarrow> (w\<lparr>wk_pc := PcReturn None\<rparr>, s)
           | Some e \<Rightarrow>
               if \<not> isDispatchCapacityConflict e then (w\<lparr>wk_pc := PcReturn (Some e)\<rparr>, s)
               else if wk_attempt w = maxAttempts then (w\<lparr>wk_pc := PcReturn (Some e)\<rparr>, s)
               else next_attempt ev nodes w s)
      | PcReturn err \<Rightarrow> (w, s))"

text \<open>At most so many steps are left: seven for every attempt that may follow, and those of this one.\<close>

definition work_left :: "int \<Rightarrow> worker \<Rightarrow> nat" where
  "work_left maxAttempts w =
     (case wk_pc w of
        PcReturn _ \<Rightarrow> 0
      | pc \<Rightarrow>
          7 * nat (maxAttempts - wk_attempt w) +
          (case pc of
             PcClaim \<Rightarrow> if maxAttempts < wk_attempt w then 1 else 8
           | PcReserve \<Rightarrow> 7 | PcStart \<Rightarrow> 6 | PcAuthorize \<Rightarrow> 5 | PcCall _ \<Rightarrow> 4 | PcFinish _ \<Rightarrow> 3
           | _ \<Rightarrow> 2))"

definition returned :: "worker \<Rightarrow> bool" where
  "returned w = (case wk_pc w of PcReturn _ \<Rightarrow> True | _ \<Rightarrow> False)"

lemma next_attempt_left:
  assumes "wk_attempt w \<noteq> maxAttempts" "wk_pc w = PcRelease e \<or> wk_pc w = PcClaim \<and> wk_attempt w < maxAttempts"
  shows "work_left maxAttempts (fst (next_attempt ev nodes w s)) < work_left maxAttempts w"
proof -
  have "work_left maxAttempts (w\<lparr>wk_node := n, wk_attempt := wk_attempt w + 1, wk_pc := PcClaim\<rparr>)
      < work_left maxAttempts w" for n
    using assms by (auto simp: work_left_def)
  moreover have "work_left maxAttempts (w\<lparr>wk_pc := PcReturn x\<rparr>) < work_left maxAttempts w" for x
    using assms(2) by (auto simp: work_left_def)
  ultimately show ?thesis by (auto simp: next_attempt_def Let_def split: prod.split option.split)
qed

lemma worker_step_left:
  assumes "\<not> returned w"
  shows "work_left maxAttempts (fst (worker_step ev nodes maxAttempts w s)) < work_left maxAttempts w"
proof (cases "wk_pc w")
  case PcClaim
  then show ?thesis
    using next_attempt_left [of w maxAttempts]
    by (auto simp: worker_step_def Let_def split: prod.split option.split) (auto simp: work_left_def)
next
  case (PcRelease err)
  then show ?thesis
    using next_attempt_left [of w maxAttempts err]
    by (auto simp: worker_step_def Let_def split: option.split) (auto simp: work_left_def)
qed (use assms in \<open>auto simp: worker_step_def Let_def work_left_def returned_def
    split: prod.split sum.split\<close>)

function run_worker ::
    "env \<Rightarrow> NodeInfo list \<Rightarrow> int \<Rightarrow> worker \<Rightarrow> Scheduler \<Rightarrow> worker \<times> Scheduler" where
  "run_worker ev nodes maxAttempts w s =
     (if returned w then (w, s)
      else (let (w, s) = worker_step ev nodes maxAttempts w s in run_worker ev nodes maxAttempts w s))"
  by pat_completeness auto
termination
proof (relation "measure (\<lambda>(ev, nodes, maxAttempts, w, s). work_left maxAttempts w)")
  fix ev nodes maxAttempts w s x w' s'
  assume "\<not> returned w" "x = worker_step ev nodes maxAttempts w s" "(w', s') = x"
  then show "((ev, nodes, maxAttempts, w', s'), (ev, nodes, maxAttempts, w, s)) \<in>
      measure (\<lambda>(ev, nodes, maxAttempts, w, s). work_left maxAttempts w)"
    using worker_step_left [of w maxAttempts ev nodes s] by (metis case_prod_conv fst_conv in_measure)
qed simp

declare run_worker.simps [simp del]

definition new_worker :: "task_ref \<Rightarrow> NodeInfo \<Rightarrow> worker" where
  "new_worker t node = \<lparr>wk_task = t, wk_node = node, wk_attempt = 1, wk_pc = PcClaim\<rparr>"

section \<open>The goroutine on its own is the function\<close>

lemma run_worker_step:
  "\<not> returned w \<Longrightarrow> worker_step ev nodes n w s = (w', s') \<Longrightarrow>
   run_worker ev nodes n w s = run_worker ev nodes n w' s'"
  by (simp add: run_worker.simps [of ev nodes n w s])

lemma run_worker_returned: "returned w \<Longrightarrow> run_worker ev nodes n w s = (w, s)"
  by (simp add: run_worker.simps)

lemma returned_simps [simp]:
  "returned (w\<lparr>wk_pc := PcReturn e\<rparr>)" "\<not> returned (w\<lparr>wk_pc := PcReserve\<rparr>)"
  "\<not> returned (w\<lparr>wk_pc := PcStart\<rparr>)" "\<not> returned (w\<lparr>wk_pc := PcAuthorize\<rparr>)"
  "\<not> returned (w\<lparr>wk_pc := PcCall a\<rparr>)" "\<not> returned (w\<lparr>wk_pc := PcFinish r\<rparr>)"
  "\<not> returned (w\<lparr>wk_pc := PcRelease e\<rparr>)" "\<not> returned (w\<lparr>wk_pc := PcClaim\<rparr>)"
  by (simp_all add: returned_def)

text \<open>From the reservation to the release the steps are the pieces of \<^verbatim>\<open>executeTask\<close>.\<close>

lemma run_worker_execute:
  assumes "executeTask ev (wk_task w) (wk_node w) (reserveNodeSlot ev (ni_ID (wk_node w)) s) = (err, s')"
  shows "run_worker ev nodes n (w\<lparr>wk_pc := PcReserve\<rparr>) s = run_worker ev nodes n (w\<lparr>wk_pc := PcRelease err\<rparr>) s'"
proof -
  define s1 where "s1 = start_task ev (wk_task w) (wk_node w) (reserveNodeSlot ev (ni_ID (wk_node w)) s)"
  obtain auth s2 where a: "authorize_task ev s1 = (auth, s2)" by fastforce
  have start: "run_worker ev nodes n (w\<lparr>wk_pc := PcReserve\<rparr>) s = run_worker ev nodes n (w\<lparr>wk_pc := PcAuthorize\<rparr>) s1"
    by (simp add: run_worker_step [of "w\<lparr>wk_pc := PcReserve\<rparr>"] run_worker_step [of "w\<lparr>wk_pc := PcStart\<rparr>"]
        worker_step_def s1_def)
  show ?thesis
  proof (cases auth)
    case (Inl e)
    then have "err = Some e" "s' = s2" using assms a by (simp_all add: executeTask_def s1_def [symmetric])
    then show ?thesis
      using start a Inl by (simp add: run_worker_step [of "w\<lparr>wk_pc := PcAuthorize\<rparr>"] worker_step_def)
  next
    case (Inr d)
    obtain res s3 where c: "call_executor ev (wk_task w) (wk_node w) d s2 = (res, s3)" by fastforce
    have f: "finish_task ev (wk_task w) (wk_node w) res s3 = (err, s')"
      using assms a Inr c by (simp add: executeTask_def s1_def [symmetric])
    show ?thesis
      using start a Inr c f
      by (simp add: run_worker_step [of "w\<lparr>wk_pc := PcAuthorize\<rparr>"] run_worker_step [of "w\<lparr>wk_pc := PcCall d\<rparr>"]
          run_worker_step [of "w\<lparr>wk_pc := PcFinish res\<rparr>"] worker_step_def)
  qed
qed

definition retry_next ::
    "env \<Rightarrow> NodeInfo list \<Rightarrow> int \<Rightarrow> task_ref \<Rightarrow> int \<Rightarrow> Scheduler \<Rightarrow> go_error option \<times> Scheduler" where
  "retry_next ev nodes n t attempt s =
     (let ((sel, aff), s) = selectNodeForTask ev (get_task s t) nodes s in
      case sel of
        None \<Rightarrow> (Some (ErrSentinel ErrNoWorkerCapacity), s)
      | Some next \<Rightarrow> retry_loop ev nodes n t (attempt + 1) next s)"

lemma retry_loop_unfold:
  "retry_loop ev nodes n t attempt node s =
     (if n < attempt then (None, s)
      else
        (case claim_attempt ev t node attempt s of
           (Some e, s) \<Rightarrow>
             if \<not> errors_is e ErrDispatchClaimRejected \<or> attempt = n then (Some e, s)
             else retry_next ev nodes n t attempt s
         | (None, s) \<Rightarrow>
             (case executeTask ev t node (reserveNodeSlot ev (ni_ID node) s) of
                (None, s) \<Rightarrow> (None, releaseNodeSlot ev (ni_ID node) s)
              | (Some e, s) \<Rightarrow>
                  if \<not> isDispatchCapacityConflict e \<or> attempt = n
                  then (Some e, releaseNodeSlot ev (ni_ID node) s)
                  else retry_next ev nodes n t attempt (releaseNodeSlot ev (ni_ID node) s))))"
  by (subst retry_loop.simps) (simp add: retry_next_def Let_def split: prod.split option.split)

definition returns :: "worker \<times> Scheduler \<Rightarrow> go_error option \<times> Scheduler \<Rightarrow> bool" where
  "returns ws r \<longleftrightarrow> wk_pc (fst ws) = PcReturn (fst r) \<and> snd ws = snd r"

lemma run_worker_next:
  assumes "next_attempt ev nodes w s = (w1, s1)"
    and "\<And>w s. nat (n + 1 - wk_attempt w) < m \<Longrightarrow> wk_pc w = PcClaim \<Longrightarrow>
      returns (run_worker ev nodes n w s) (retry_loop ev nodes n (wk_task w) (wk_attempt w) (wk_node w) s)"
    and "nat (n - wk_attempt w) < m"
  shows "returns (run_worker ev nodes n w1 s1) (retry_next ev nodes n (wk_task w) (wk_attempt w) s)"
proof -
  obtain sel aff s2 where sel: "selectNodeForTask ev (get_task s (wk_task w)) nodes s = ((sel, aff), s2)"
    by (metis prod.exhaust)
  show ?thesis
  proof (cases sel)
    case None
    then show ?thesis
      using assms(1) sel by (auto simp: next_attempt_def retry_next_def returns_def run_worker_returned)
  next
    case (Some node)
    then have "w1 = w\<lparr>wk_node := node, wk_attempt := wk_attempt w + 1, wk_pc := PcClaim\<rparr>" "s1 = s2"
      using assms(1) sel by (simp_all add: next_attempt_def)
    then show ?thesis
      using assms(2) [of w1 s2] assms(3) sel Some by (simp add: retry_next_def)
  qed
qed

lemma run_worker_retry:
  assumes "wk_pc w = PcClaim"
  shows "returns (run_worker ev nodes n w s) (retry_loop ev nodes n (wk_task w) (wk_attempt w) (wk_node w) s)"
  using assms
proof (induction "nat (n + 1 - wk_attempt w)" arbitrary: w s rule: less_induct)
  case less
  note nr = less.prems
  then have nret: "\<not> returned w" by (simp add: returned_def)
  show ?case
  proof (cases "n < wk_attempt w")
    case True
    then show ?thesis
      using run_worker_step [OF nret, of ev nodes n s "w\<lparr>wk_pc := PcReturn None\<rparr>" s] nr
      by (simp add: retry_loop_unfold worker_step_def returns_def run_worker_returned)
  next
    case False
    then have dec: "nat (n - wk_attempt w) < nat (n + 1 - wk_attempt w)" by simp
    note next_ok = run_worker_next [OF _ less.hyps dec]
    obtain err s1 where c: "claim_attempt ev (wk_task w) (wk_node w) (wk_attempt w) s = (err, s1)" by fastforce
    show ?thesis
    proof (cases err)
      case (Some e)
      show ?thesis
      proof (cases "\<not> errors_is e ErrDispatchClaimRejected \<or> wk_attempt w = n")
        case True
        then have "worker_step ev nodes n w s = (w\<lparr>wk_pc := PcReturn (Some e)\<rparr>, s1)"
          using False nr c Some by (auto simp: worker_step_def)
        from run_worker_step [OF nret this] show ?thesis
          using True False c Some by (simp add: retry_loop_unfold returns_def run_worker_returned)
      next
        case retry: False
        obtain w1 s2 where w1: "next_attempt ev nodes w s1 = (w1, s2)" by fastforce
        then have "worker_step ev nodes n w s = (w1, s2)"
          using retry False nr c Some by (simp add: worker_step_def)
        from run_worker_step [OF nret this] show ?thesis
          using retry False c Some next_ok [OF w1] by (simp add: retry_loop_unfold)
      qed
    next
      case None
      obtain x s2 where x: "executeTask ev (wk_task w) (wk_node w) (reserveNodeSlot ev (ni_ID (wk_node w)) s1) = (x, s2)"
        by fastforce
      let ?s3 = "releaseNodeSlot ev (ni_ID (wk_node w)) s2"
      have "worker_step ev nodes n w s = (w\<lparr>wk_pc := PcReserve\<rparr>, s1)"
        using False nr c None by (simp add: worker_step_def)
      from run_worker_step [OF nret this] run_worker_execute [OF x, of nodes n]
      have run: "run_worker ev nodes n w s = run_worker ev nodes n (w\<lparr>wk_pc := PcRelease x\<rparr>) s2" by simp
      show ?thesis
      proof (cases "\<exists>e. x = Some e \<and> isDispatchCapacityConflict e \<and> wk_attempt w \<noteq> n")
        case True
        obtain w1 s4 where w1: "next_attempt ev nodes (w\<lparr>wk_pc := PcRelease x\<rparr>) ?s3 = (w1, s4)" by fastforce
        then have "worker_step ev nodes n (w\<lparr>wk_pc := PcRelease x\<rparr>) s2 = (w1, s4)"
          using True by (auto simp: worker_step_def)
        moreover have "returns (run_worker ev nodes n w1 s4)
            (retry_next ev nodes n (wk_task (w\<lparr>wk_pc := PcRelease x\<rparr>)) (wk_attempt (w\<lparr>wk_pc := PcRelease x\<rparr>)) ?s3)"
          by (rule run_worker_next [OF w1, where m = "nat (n + 1 - wk_attempt w)"])
            (use dec less.hyps in simp_all)
        ultimately show ?thesis
          using run run_worker_step [of "w\<lparr>wk_pc := PcRelease x\<rparr>"] True False c None x
          by (auto simp: retry_loop_unfold)
      next
        case over: False
        have "worker_step ev nodes n (w\<lparr>wk_pc := PcRelease x\<rparr>) s2 = (w\<lparr>wk_pc := PcReturn x\<rparr>, ?s3)"
          using over by (cases x) (auto simp: worker_step_def Let_def)
        from run run_worker_step [OF _ this] show ?thesis
          using over False c None x
          by (cases x) (auto simp: retry_loop_unfold returns_def run_worker_returned)
      qed
    qed
  qed
qed

section \<open>Frame of an execution\<close>

declare get_task.simps [simp del] upd_task.simps [simp del] task_ok.simps [simp del]

text \<open>Running tasks changes job objects, the journal and the bookkeeping of the nodes, but no
  registration, no queue and no identity.\<close>

definition only_executes :: "Scheduler \<Rightarrow> Scheduler \<Rightarrow> bool" where
  "only_executes s s' \<longleftrightarrow>
     s\<lparr>sc_heap := sc_heap s', sc_transitionStore := sc_transitionStore s',
       sc_jobSequences := sc_jobSequences s', sc_affinityMap := sc_affinityMap s',
       sc_nodeIndex := sc_nodeIndex s', sc_nodeCapacity := sc_nodeCapacity s',
       sc_dispatchCooldowns := sc_dispatchCooldowns s', sc_tick := sc_tick s'\<rparr> = s'
     \<and> (\<forall>r. job_shape (deref s' r) = job_shape (deref s r))"

lemma only_executes_refl [simp, intro!]: "only_executes s s"
  by (simp add: only_executes_def)

lemma only_executes_trans [trans]: "only_executes s s' \<Longrightarrow> only_executes s' s'' \<Longrightarrow> only_executes s s''"
  by (cases s; cases s'; cases s'') (simp add: only_executes_def)

lemma only_journal_executes: "only_journal s s' \<Longrightarrow> only_executes s s'"
  by (cases s; cases s') (simp add: only_journal_def only_executes_def)

lemma only_selection_executes: "only_selection s s' \<Longrightarrow> only_executes s s'"
  using only_selection_frame(15) [of s s']
  by (cases s; cases s') (simp add: only_selection_def only_executes_def)

lemmas only_capacity_executes = only_selection_executes [OF only_capacity_selection]

lemma only_executes_frame:
  assumes "only_executes s s'"
  shows "sc_jobs s' = sc_jobs s" "sc_jobQueue s' = sc_jobQueue s" "sc_queuedJobs s' = sc_queuedJobs s"
    "sc_config s' = sc_config s" "sc_next s' = sc_next s" "sc_pendingEnqueue s' = sc_pendingEnqueue s"
    "jb_ID (deref s' r) = jb_ID (deref s r)"
    "length (jb_Stages (deref s' r)) = length (jb_Stages (deref s r))" "task_ok s' t = task_ok s t"
    "job_shape (deref s' r) = job_shape (deref s r)"
proof -
  show "sc_jobs s' = sc_jobs s" "sc_jobQueue s' = sc_jobQueue s" "sc_queuedJobs s' = sc_queuedJobs s"
    "sc_config s' = sc_config s" "sc_next s' = sc_next s" "sc_pendingEnqueue s' = sc_pendingEnqueue s"
    using assms by (cases s; cases s'; simp add: only_executes_def)+
  have "only_journal s (s\<lparr>sc_heap := sc_heap s'\<rparr>)" and d: "deref (s\<lparr>sc_heap := sc_heap s'\<rparr>) = deref s'"
    using assms by (cases s; cases s'; simp add: only_executes_def only_journal_def deref_def fun_eq_iff)+
  from only_journal_frame(9-11) [OF this(1)] show "jb_ID (deref s' r) = jb_ID (deref s r)"
    "length (jb_Stages (deref s' r)) = length (jb_Stages (deref s r))"
    by (simp_all add: d)
  have "task_ok s' t = task_ok (s\<lparr>sc_heap := sc_heap s'\<rparr>) t"
    by (cases t) (simp add: task_ok.simps d)
  then show "task_ok s' t = task_ok s t"
    using only_journal_frame(11) [OF \<open>only_journal s _\<close>] by simp
  show "job_shape (deref s' r) = job_shape (deref s r)" using assms by (simp add: only_executes_def)
qed

lemma only_executes_upd_task:
  "(\<And>k. tk_ID (f k) = tk_ID k) \<Longrightarrow> only_executes s (upd_task t f s)"
  by (cases t) (blast intro: only_journal_executes only_journal_upd_task)

lemma only_executes_record [simp]:
  "only_executes s (step_tick s)"
  "only_executes s (recordTaskTransition ev t transition new nodeID attempt err s)"
  "only_executes s (recordJobTransition ev r jtransition jnew err s)"
  "only_executes s (snd (claimTaskDispatchTransition ev t nodeID attempt s))"
  by (rule only_journal_executes, simp)+

lemma only_executes_capacity [simp]:
  "only_executes s (reserveNodeSlot ev n s)" "only_executes s (releaseNodeSlot ev n s)"
  "only_executes s (markDispatchCooldown ev n s)"
  "only_executes s (snd (selectNodeForTask ev task nodes s))"
  "only_executes s (snd (selectNodeForTaskWithDeferral ev es task nodes s))"
  by (rule only_capacity_executes reserve_release_frame capacity_ops_frame
      only_selection_executes selectNodeForTask_frame selectWithDeferral_frame)+

lemma claim_attempt_frame [simp]: "only_executes s (snd (claim_attempt ev t node attempt s))"
  unfolding claim_attempt_def
  by (rule only_executes_trans [OF only_executes_upd_task only_executes_record(4)]) simp

lemma start_task_frame [simp]: "only_executes s (start_task ev t node s)"
  unfolding start_task_def Let_def
  by (rule only_executes_trans [OF only_executes_upd_task only_executes_record(2)]) simp

lemma authorize_task_frame [simp]: "snd (authorize_task ev s) = step_tick s"
  by (simp add: authorize_task_def dispatchAuthority_def split: sum.split)

lemma call_executor_frame [simp]: "snd (call_executor ev t node a s) = step_tick s"
  by (simp add: call_executor_def)

lemma finish_task_frame [simp]: "only_executes s (snd (finish_task ev t node res s))"
proof -
  have *: "only_executes s (recordTaskTransition ev t transition new nodeID attempt err (upd_task t f s1))"
    if "only_executes s s1" "\<And>k. tk_ID (f k) = tk_ID k" for f s1 transition new nodeID attempt err
    using only_executes_trans [OF that(1) only_executes_trans
        [OF only_executes_upd_task [OF that(2)] only_executes_record(2)]] .
  show ?thesis
    by (auto simp: finish_task_def Let_def intro!: * only_executes_upd_task split: sum.split)
qed

lemma next_attempt_frame [simp]: "only_executes s (snd (next_attempt ev nodes w s))"
  by (simp add: next_attempt_def case_prod_beta split: option.split)

lemma worker_step_frame: "only_executes s (snd (worker_step ev nodes n w s))"
proof (cases "wk_pc w")
  case PcClaim
  obtain err s1 where c: "claim_attempt ev (wk_task w) (wk_node w) (wk_attempt w) s = (err, s1)" by fastforce
  have "only_executes s s1" using claim_attempt_frame [of s ev "wk_task w" "wk_node w" "wk_attempt w"] c by simp
  then show ?thesis
    using PcClaim c only_executes_trans [OF _ next_attempt_frame]
    by (auto simp: worker_step_def split: option.split)
next
  case (PcRelease err)
  then show ?thesis
    using only_executes_trans [OF only_executes_capacity(2) next_attempt_frame]
    by (auto simp: worker_step_def Let_def split: option.split)
qed (auto simp: worker_step_def Let_def case_prod_beta split: sum.split)

lemma worker_step_task [simp]: "wk_task (fst (worker_step ev nodes n w s)) = wk_task w"
  by (auto simp: worker_step_def next_attempt_def Let_def case_prod_beta
      split: task_pc.split option.split sum.split)


section \<open>A failed task is not claimed again\<close>

lemma get_task_upd_task:
  "task_ok s t \<Longrightarrow> get_task (upd_task t f s) t = f (get_task s t)"
  by (cases t) (simp add: get_task.simps task_ok.simps upd_task.simps upd_stage_def upd_nth_def)

lemma only_selection_task:
  assumes "only_selection s s'"
  shows "get_task s' t = get_task s t" "log_of s' = log_of s" "task_ok s' t = task_ok s t"
    "sc_transitionStore s' = sc_transitionStore s"
  using only_selection_frame [OF assms]
  by (cases t; simp add: get_task.simps task_ok.simps log_of_def fun_eq_iff)+

lemma claim_attempt_failed:
  assumes "task_ok s t" "tk_LifecycleState (get_task s t) = TaskStateFailed"
    and "tk_JobID (get_task s t) \<noteq> ''''" "sc_transitionStore s \<noteq> None"
  shows "claim_attempt ev t node attempt s =
    (Some (ErrSentinel ErrDispatchClaimRejected), upd_task t (\<lambda>k. k\<lparr>tk_Attempts := attempt\<rparr>) s)"
proof -
  have "sc_transitionStore (upd_task t f s) = sc_transitionStore s" for f
    by (cases t) (simp add: upd_task_eq)
  then show ?thesis
    using assms by (simp add: claim_attempt_def claimTaskDispatchTransition_def get_task_upd_task Let_def
        CanTransitionTaskState_iff)
qed


lemma upd_task_store [simp]:
  "sc_transitionStore (upd_task t f s) = sc_transitionStore s" "log_of (upd_task t f s) = log_of s"
  by (cases t, simp add: upd_task_eq log_of_def fun_eq_iff)+

lemma retry_loop_failed:
  assumes "task_ok s t" "tk_LifecycleState (get_task s t) = TaskStateFailed"
    and "tk_JobID (get_task s t) \<noteq> ''''" "sc_transitionStore s \<noteq> None" "attempt \<le> n"
  shows "fst (retry_loop ev nodes n t attempt node s)
      \<in> {Some (ErrSentinel ErrDispatchClaimRejected), Some (ErrSentinel ErrNoWorkerCapacity)}
    \<and> log_of (snd (retry_loop ev nodes n t attempt node s)) = log_of s"
  using assms
proof (induction "nat (n - attempt)" arbitrary: attempt node s rule: less_induct)
  case less
  let ?s = "upd_task t (\<lambda>k. k\<lparr>tk_Attempts := attempt\<rparr>) s"
  note claim = claim_attempt_failed [OF less.prems(1-4), of ev node attempt]
  show ?case
  proof (cases "attempt = n")
    case True
    then show ?thesis using claim by (simp add: retry_loop_unfold)
  next
    case False
    obtain sel aff s' where sel: "selectNodeForTask ev (get_task ?s t) nodes ?s = ((sel, aff), s')"
      by (metis prod.exhaust)
    have fr: "only_selection ?s s'" using selectNodeForTask_frame [of ?s ev "get_task ?s t" nodes] sel by simp
    have ok: "task_ok ?s t"
      using less.prems(1) only_executes_frame(9) [OF only_executes_upd_task] by simp
    have loop: "retry_loop ev nodes n t attempt node s = retry_next ev nodes n t attempt ?s"
      using claim False less.prems(5) by (subst retry_loop_unfold) simp
    show ?thesis
    proof (cases sel)
      case None
      then show ?thesis
        using sel only_selection_task(2) [OF fr] by (simp add: loop retry_next_def)
    next
      case (Some succ)
      have "nat (n - (attempt + 1)) < nat (n - attempt)" using False less.prems(5) by simp
      from less.hyps [OF this, of s' succ] show ?thesis
        using sel Some only_selection_task [OF fr] ok False less.prems
        by (simp add: loop retry_next_def get_task_upd_task)
    qed
  qed
qed


section \<open>Properties\<close>


lemma worker_steps_left:
  "work_left n (fold (\<lambda>s w. fst (worker_step ev nodes n w s)) states w) \<le> work_left n w - length states"
proof (induction states arbitrary: w)
  case (Cons s states)
  have "work_left n (fst (worker_step ev nodes n w s)) \<le> work_left n w - 1"
  proof (cases "returned w")
    case True
    then obtain e where "wk_pc w = PcReturn e" by (auto simp: returned_def split: task_pc.splits)
    then show ?thesis by (simp add: worker_step_def work_left_def)
  next
    case False
    then show ?thesis using worker_step_left [of w n ev nodes s] by simp
  qed
  then show ?case using Cons.IH [of "fst (worker_step ev nodes n w s)"] by simp
qed simp

lemma work_left_returned: "work_left n w = 0 \<Longrightarrow> returned w"
  by (auto simp: work_left_def returned_def split: task_pc.splits if_splits)

text \<open>C38. A task goroutine always returns, whatever the rest of the system does: with \<open>n\<close> attempts
  allowed it is over after at most \<open>7 * n + 1\<close> of its own steps, although each step may find any
  state of the scheduler, and any answer of stores, executor and leadership.\<close>

theorem task_goroutine_terminates:
  assumes "7 * nat n + 1 \<le> length states"
  shows "returned (fold (\<lambda>s w. fst (worker_step ev nodes n w s)) states (new_worker t node))"
proof (rule work_left_returned [of n])
  have "work_left n (new_worker t node) \<le> 7 * nat n + 1" by (auto simp: work_left_def new_worker_def)
  then show "work_left n (fold (\<lambda>s w. fst (worker_step ev nodes n w s)) states (new_worker t node)) = 0"
    using worker_steps_left [of n ev nodes states "new_worker t node"] assms by simp
qed

theorem task_goroutine_terminates_witness:
  "length (replicate 8 example_one) = 8
   \<and> returned (fold (\<lambda>s w. fst (worker_step (example_env 5) [] 1 w s)) (replicate 8 example_one)
       (new_worker (0, 0, 0) (example_node ''n1'')))"
  using task_goroutine_terminates [of 1 "replicate 8 example_one"] by simp

text \<open>C29. A task that is recorded as failed is never dispatched again by the retry loop: whatever
  attempts are left, every further claim is rejected, nothing is written to the journal, and the
  loop returns the rejection, or that there is no capacity. So the retries meant for a worker
  that answered with a capacity conflict never reach another worker, because the conflict has been
  recorded as a failure of the task.\<close>

theorem failed_task_not_retried:
  assumes "task_ok s t" "tk_LifecycleState (get_task s t) = TaskStateFailed"
    and "tk_JobID (get_task s t) \<noteq> ''''" "sc_transitionStore s \<noteq> None" "attempt \<le> n"
    and "retry_loop ev nodes n t attempt node s = (err, s')"
  shows "err \<in> {Some (ErrSentinel ErrDispatchClaimRejected), Some (ErrSentinel ErrNoWorkerCapacity)}
    \<and> log_of s' = log_of s"
  using retry_loop_failed [OF assms(1-5), of ev nodes node] assms(6) by simp

definition example_conflict :: Scheduler where
  "example_conflict = NewScheduler
     \<lparr>sc_heap := [(0, (NewJob 1 1 ''j2'' ''demo'')\<lparr>jb_Stages := [(example_stage ''s1'' [])\<lparr>sg_Tasks :=
        [(example_new_task ''t1'')\<lparr>tk_JobID := ''j2'', tk_LifecycleState := TaskStateFailed\<rparr>]\<rparr>]\<rparr>)],
      sc_next := 1, sc_jobs := [(''j2'', 0)]\<rparr>"

theorem failed_task_not_retried_witness:
  "fst (retry_loop (example_env 5) [example_node ''n1''] 3 (0, 0, 0) 2 (example_node ''n1'') example_conflict)
     \<in> {Some (ErrSentinel ErrDispatchClaimRejected), Some (ErrSentinel ErrNoWorkerCapacity)}"
proof -
  have "task_ok example_conflict (0, 0, 0)"
    "tk_LifecycleState (get_task example_conflict (0, 0, 0)) = TaskStateFailed"
    "tk_JobID (get_task example_conflict (0, 0, 0)) = ''j2''" "sc_transitionStore example_conflict \<noteq> None"
    by (simp_all add: example_conflict_def task_ok.simps get_task.simps deref_def mget_or_def
        NewScheduler_def NewSchedulerWithConfig_def newSchedulerWithValidatedConfig_def)
  from failed_task_not_retried [OF this(1,2) _ this(4), of 2 3 "example_env 5" "[example_node ''n1'']"
      "example_node ''n1''", OF _ _ prod.collapse [symmetric]] this(3)
  show ?thesis by simp
qed

end
