(* ===== verification/Stage_Execution.thy ===== *)
theory Stage_Execution
  imports Task_Execution
begin

text \<open>
  Running a stage and a job, \<^verbatim>\<open>executeStage\<close>, \<^verbatim>\<open>executeJob\<close>, \<^verbatim>\<open>ResumeAwaitingHumanJob\<close> and one turn of
  the main loop \<^verbatim>\<open>run\<close> of \<^verbatim>\<open>pkg/scheduler/scheduler.go\<close>.

  A stage is a machine of goroutines: the one that selects nodes and starts tasks, and one for each
  started task. A schedule, a list of goroutine numbers, says who moves next, so the schedules are the
  interleavings; what is left when a schedule ends is run to its end. Number 0 is the selecting
  goroutine.

  The selecting goroutine takes the steps of \<^verbatim>\<open>selectNodeForTaskWithDeferral\<close>: one selection, then one for
  each poll of the deferral, whose timer is bounded by a timeout.

  Property: a stage always ends.
\<close>

section \<open>A stage\<close>

text \<open>The selecting goroutine: in the loop over the tasks, waiting for capacity, or in \<^verbatim>\<open>wg.Wait\<close>.\<close>

datatype stage_pc =
    StSelect
  | StDefer "deferral_event list" AffinityResult
  | StWait

record goroutine =
  go_worker :: worker
  go_done :: bool

record stage_run =
  sr_ref :: "job_ref \<times> nat"
  sr_nodes :: "NodeInfo list"
  sr_todo :: "task_ref list"
  sr_pc :: stage_pc
  sr_selectionErr :: "go_error option"
  sr_goroutines :: "goroutine list"
  sr_errChan :: "go_error list"

definition stage_task_refs :: "job_ref \<Rightarrow> nat \<Rightarrow> Scheduler \<Rightarrow> task_ref list" where
  "stage_task_refs r i s = map (\<lambda>k. (r, i, k)) [0..<length (sg_Tasks (jb_Stages (deref s r) ! i))]"

definition begin_stage :: "env \<Rightarrow> job_ref \<Rightarrow> nat \<Rightarrow> Scheduler \<Rightarrow> stage_run result \<times> Scheduler" where
  "begin_stage ev r i s =
     (let s = upd_stage r i (\<lambda>g. g\<lparr>sg_Status := JobRunning\<rparr>) s;
          (healthy, s) = GetHealthyNodes ev s;
          nodes = dispatchEligibleNodes healthy
      in if nodes = [] then (Inl (ErrNew ''no healthy nodes available for execution''), s)
         else (Inr \<lparr>sr_ref = (r, i), sr_nodes = nodes, sr_todo = stage_task_refs r i s, sr_pc = StSelect,
                    sr_selectionErr = None, sr_goroutines = [], sr_errChan = []\<rparr>, s))"

definition spawn :: "task_ref \<Rightarrow> NodeInfo \<Rightarrow> stage_run \<Rightarrow> stage_run" where
  "spawn t node sr =
     sr\<lparr>sr_goroutines := sr_goroutines sr @ [\<lparr>go_worker = new_worker t node, go_done = False\<rparr>],
        sr_todo := tl (sr_todo sr), sr_pc := StSelect\<rparr>"

definition stop_selecting :: "go_error \<Rightarrow> stage_run \<Rightarrow> stage_run" where
  "stop_selecting e sr = sr\<lparr>sr_selectionErr := Some e, sr_pc := StWait\<rparr>"

definition main_step :: "env \<Rightarrow> stage_run \<Rightarrow> Scheduler \<Rightarrow> stage_run \<times> Scheduler" where
  "main_step ev sr s =
     (case sr_todo sr of
        [] \<Rightarrow> (sr\<lparr>sr_pc := StWait\<rparr>, s)
      | t # _ \<Rightarrow>
          (case sr_pc sr of
             StSelect \<Rightarrow>
               (let (err, s) = read_ctx ev s in
                case err of
                  Some e \<Rightarrow> (stop_selecting e sr, s)
                | None \<Rightarrow>
                    (let ((sel, aff), s) = selectNodeForTask ev (get_task s t) (sr_nodes sr) s in
                     case sel of
                       Some node \<Rightarrow> (spawn t node sr, s)
                     | None \<Rightarrow>
                         if \<not> cf_EnableStageCapacityDeferral (sc_config s)
                            \<or> cf_StageCapacityDeferralTimeout (sc_config s) \<le> 0
                            \<or> cf_StageCapacityDeferralPollInterval (sc_config s) \<le> 0
                         then (stop_selecting (ErrSentinel ErrNoWorkerCapacity) sr, s)
                         else (sr\<lparr>sr_pc := StDefer (ev_deferral ev (sc_tick s)) aff\<rparr>, s)))
           | StDefer events aff \<Rightarrow>
               (case events of
                  [] \<Rightarrow> (stop_selecting (ErrSentinel ErrNoWorkerCapacity) sr, s)
                | DeferDone e # _ \<Rightarrow> (stop_selecting e sr, s)
                | DeferTimeout # _ \<Rightarrow> (stop_selecting (ErrSentinel ErrNoWorkerCapacity) sr, s)
                | DeferPoll # events \<Rightarrow>
                    (let (healthy, s) = GetHealthyNodes ev s;
                         nodes = dispatchEligibleNodes healthy
                     in if nodes = [] then (sr\<lparr>sr_pc := StDefer events aff\<rparr>, s)
                        else (let ((sel, aff), s) = selectNodeForTask ev (get_task s t) nodes s in
                              case sel of
                                Some node \<Rightarrow> (spawn t node sr, s)
                              | None \<Rightarrow> (sr\<lparr>sr_pc := StDefer events aff\<rparr>, s))))
           | StWait \<Rightarrow> (sr, s)))"

text \<open>A task goroutine with an error tells the stage, unless the context is done and the \<^verbatim>\<open>select\<close>
  chooses that case.\<close>

definition goroutine_step ::
    "env \<Rightarrow> NodeInfo list \<Rightarrow> goroutine \<Rightarrow> Scheduler \<Rightarrow> goroutine \<times> go_error list \<times> Scheduler" where
  "goroutine_step ev nodes g s =
     (if go_done g then (g, [], s)
      else
        (case wk_pc (go_worker g) of
           PcReturn None \<Rightarrow> (g\<lparr>go_done := True\<rparr>, [], s)
         | PcReturn (Some e) \<Rightarrow>
             (g\<lparr>go_done := True\<rparr>,
              if ev_ctx ev (sc_tick s) \<noteq> None \<and> ev_choice ev (sc_tick s) then [] else [e], step_tick s)
         | _ \<Rightarrow>
             (let (w, s) = worker_step ev nodes (max_attempts s) (go_worker g) s
              in (g\<lparr>go_worker := w\<rparr>, [], s))))"

fun stage_step :: "env \<Rightarrow> nat \<Rightarrow> stage_run \<Rightarrow> Scheduler \<Rightarrow> stage_run \<times> Scheduler" where
  "stage_step ev 0 sr s = (if sr_pc sr = StWait then (sr, s) else main_step ev sr s)"
| "stage_step ev (Suc j) sr s =
     (if j < length (sr_goroutines sr)
      then (let (g, errs, s) = goroutine_step ev (sr_nodes sr) (sr_goroutines sr ! j) s
            in (sr\<lparr>sr_goroutines := (sr_goroutines sr)[j := g], sr_errChan := sr_errChan sr @ errs\<rparr>, s))
      else (sr, s))"

definition stage_idle :: "stage_run \<Rightarrow> bool" where
  "stage_idle sr \<longleftrightarrow> sr_pc sr = StWait \<and> list_all go_done (sr_goroutines sr)"

section \<open>A stage ends\<close>

definition goroutine_left :: "int \<Rightarrow> goroutine \<Rightarrow> nat" where
  "goroutine_left n g = (if go_done g then 0 else Suc (work_left n (go_worker g)))"

definition select_left :: "stage_run \<Rightarrow> nat \<times> nat \<times> nat" where
  "select_left sr =
     (case sr_pc sr of
        StWait \<Rightarrow> (0, 0, 0)
      | StSelect \<Rightarrow> (Suc (length (sr_todo sr)), 1, 0)
      | StDefer events _ \<Rightarrow> (Suc (length (sr_todo sr)), 0, length events))"

definition stage_left :: "int \<Rightarrow> stage_run \<Rightarrow> nat \<times> nat \<times> nat \<times> nat" where
  "stage_left n sr =
     (case select_left sr of (a, b, c) \<Rightarrow> (a, b, c, sum_list (map (goroutine_left n) (sr_goroutines sr))))"

definition stage_order :: "((nat \<times> nat \<times> nat \<times> nat) \<times> (nat \<times> nat \<times> nat \<times> nat)) set" where
  "stage_order = less_than <*lex*> less_than <*lex*> less_than <*lex*> less_than"

lemma wf_stage_order: "wf stage_order"
  by (simp add: stage_order_def wf_lex_prod)



lemma goroutine_step_left:
  assumes "\<not> go_done g" "goroutine_step ev nodes g s = (g', errs, s')"
  shows "goroutine_left (max_attempts s) g' < goroutine_left (max_attempts s) g"
proof (cases "returned (go_worker g)")
  case True
  then obtain e where "wk_pc (go_worker g) = PcReturn e" by (auto simp: returned_def split: task_pc.splits)
  with assms show ?thesis by (cases e) (auto simp: goroutine_step_def goroutine_left_def)
next
  case False
  obtain w s1 where w: "worker_step ev nodes (max_attempts s) (go_worker g) s = (w, s1)" by fastforce
  then have "g' = g\<lparr>go_worker := w\<rparr>"
    using assms False by (auto simp: goroutine_step_def returned_def split: task_pc.splits)
  moreover have "work_left (max_attempts s) w < work_left (max_attempts s) (go_worker g)"
    using worker_step_left [OF False, of "max_attempts s" ev nodes s] w by simp
  ultimately show ?thesis using assms(1) by (simp add: goroutine_left_def)
qed

lemma main_step_left:
  assumes "sr_pc sr \<noteq> StWait" "main_step ev sr s = (sr', s')"
  shows "(stage_left n sr', stage_left n sr) \<in> stage_order"
proof -
  have "(select_left sr', select_left sr) \<in> less_than <*lex*> less_than <*lex*> less_than"
    using assms
    by (auto simp: main_step_def select_left_def spawn_def stop_selecting_def Let_def
        split: list.splits stage_pc.splits option.splits prod.splits if_splits deferral_event.splits)
  then show ?thesis by (auto simp: stage_left_def stage_order_def split: prod.splits)
qed


fun can_move :: "nat \<Rightarrow> stage_run \<Rightarrow> bool" where
  "can_move 0 sr \<longleftrightarrow> sr_pc sr \<noteq> StWait"
| "can_move (Suc j) sr \<longleftrightarrow> j < length (sr_goroutines sr) \<and> \<not> go_done (sr_goroutines sr ! j)"

lemma stage_step_left:
  assumes "can_move j sr" "stage_step ev j sr s = (sr', s')"
  shows "(stage_left (max_attempts s) sr', stage_left (max_attempts s) sr) \<in> stage_order"
proof (cases j)
  case 0
  then show ?thesis using main_step_left assms by simp
next
  case (Suc i)
  obtain g errs s1 where g: "goroutine_step ev (sr_nodes sr) (sr_goroutines sr ! i) s = (g, errs, s1)"
    by (metis prod_cases3)
  have i: "i < length (sr_goroutines sr)" "\<not> go_done (sr_goroutines sr ! i)" using assms(1) Suc by simp_all
  have sr': "sr' = sr\<lparr>sr_goroutines := (sr_goroutines sr)[i := g], sr_errChan := sr_errChan sr @ errs\<rparr>"
    using assms(2) i(1) by (simp add: Suc g)
  let ?left = "goroutine_left (max_attempts s)"
  have "?left g < ?left (sr_goroutines sr ! i)" using goroutine_step_left [OF i(2) g] .
  then have "sum_list (map ?left ((sr_goroutines sr)[i := g])) < sum_list (map ?left (sr_goroutines sr))"
    using i(1) elem_le_sum_list [of i "map ?left (sr_goroutines sr)"]
    by (simp add: map_update sum_list_update)
  moreover have "select_left sr' = select_left sr" by (simp add: sr' select_left_def split: stage_pc.split)
  ultimately show ?thesis by (auto simp: stage_left_def stage_order_def sr' split: prod.splits)
qed

lemma main_step_frame: "only_executes s (snd (main_step ev sr s))"
proof -
  have ctx: "only_executes s (step_tick s)" by simp
  have sel: "only_executes s (snd (selectNodeForTask ev task nodes (step_tick s)))" for task nodes
    by (rule only_executes_trans [OF ctx]) simp
  show ?thesis
    using ctx sel
    by (simp add: main_step_def read_ctx_def GetHealthyNodes_def Let_def case_prod_beta
        split: list.split stage_pc.split option.split deferral_event.split)
qed

lemma goroutine_step_frame: "only_executes s (snd (snd (goroutine_step ev nodes g s)))"
  using worker_step_frame [of s ev nodes "max_attempts s" "go_worker g"]
  by (auto simp: goroutine_step_def Let_def case_prod_beta split: task_pc.split option.split)

lemma stage_step_frame: "only_executes s (snd (stage_step ev j sr s))"
  using main_step_frame goroutine_step_frame
  by (cases j) (simp_all add: case_prod_beta Let_def)

lemma max_attempts_executes: "only_executes s s' \<Longrightarrow> max_attempts s' = max_attempts s"
  using only_executes_frame(4) [of s s'] by (simp add: max_attempts_def)

definition next_mover :: "stage_run \<Rightarrow> nat" where
  "next_mover sr =
     (if sr_pc sr \<noteq> StWait then 0 else Suc (length (takeWhile go_done (sr_goroutines sr))))"

lemma next_mover_can_move: "\<not> stage_idle sr \<Longrightarrow> can_move (next_mover sr) sr"
proof (cases "sr_pc sr = StWait")
  case True
  assume "\<not> stage_idle sr"
  then have "takeWhile go_done (sr_goroutines sr) \<noteq> sr_goroutines sr"
    using True by (simp add: stage_idle_def list_all_iff)
  then have "length (takeWhile go_done (sr_goroutines sr)) < length (sr_goroutines sr)"
    by (metis length_takeWhile_le nat_less_le takeWhile_eq_take take_all_iff le_refl)
  then show ?thesis using True nth_length_takeWhile by (fastforce simp: next_mover_def)
qed (simp add: next_mover_def)

text \<open>What is left when a schedule ends: the selection, then the goroutines one by one.\<close>

function drain_stage :: "env \<Rightarrow> stage_run \<Rightarrow> Scheduler \<Rightarrow> stage_run \<times> Scheduler" where
  "drain_stage ev sr s =
     (if stage_idle sr then (sr, s)
      else (let (sr, s) = stage_step ev (next_mover sr) sr s in drain_stage ev sr s))"
  by pat_completeness auto
termination
proof (relation "inv_image stage_order (\<lambda>(ev, sr, s). stage_left (max_attempts s) sr)")
  fix ev sr s x sr' s'
  assume "\<not> stage_idle sr" "x = stage_step ev (next_mover sr) sr s" "(sr', s') = x"
  then have step: "stage_step ev (next_mover sr) sr s = (sr', s')" by simp
  have "only_executes s s'" using stage_step_frame [of s ev "next_mover sr" sr] step by simp
  from max_attempts_executes [OF this] stage_step_left [OF next_mover_can_move step] \<open>\<not> stage_idle sr\<close>
  show "((ev, sr', s'), (ev, sr, s)) \<in> inv_image stage_order (\<lambda>(ev, sr, s). stage_left (max_attempts s) sr)"
    by simp
qed (simp add: wf_stage_order)

declare drain_stage.simps [simp del]

fun run_schedule :: "env \<Rightarrow> nat list \<Rightarrow> stage_run \<Rightarrow> Scheduler \<Rightarrow> stage_run \<times> Scheduler" where
  "run_schedule ev [] sr s = drain_stage ev sr s"
| "run_schedule ev (j # js) sr s = (let (sr, s) = stage_step ev j sr s in run_schedule ev js sr s)"


section \<open>Results of a stage\<close>

definition stage_failed :: "job_ref \<Rightarrow> nat \<Rightarrow> go_error \<Rightarrow> JobStatus \<Rightarrow> Scheduler \<Rightarrow> go_error option \<times> Scheduler" where
  "stage_failed r i e status s =
     (Some (ErrWrap (''stage '' @ sg_ID (jb_Stages (deref s r) ! i) @ '' failed: '') e ''''),
      upd_stage r i (\<lambda>g. g\<lparr>sg_Status := status\<rparr>) s)"

definition finish_stage :: "stage_run \<Rightarrow> Scheduler \<Rightarrow> go_error option \<times> Scheduler" where
  "finish_stage sr s =
     (let (r, i) = sr_ref sr in
      case sr_selectionErr sr of
        Some e \<Rightarrow> stage_failed r i e JobFailed s
      | None \<Rightarrow>
          (case sr_errChan sr of
             e # _ \<Rightarrow> stage_failed r i e (if errors_as_policy e \<noteq> None then JobBlocked else JobFailed) s
           | [] \<Rightarrow> (None, upd_stage r i (\<lambda>g. g\<lparr>sg_Status := JobCompleted\<rparr>) s)))"

definition executeStage ::
    "env \<Rightarrow> nat list \<Rightarrow> job_ref \<Rightarrow> nat \<Rightarrow> Scheduler \<Rightarrow> go_error option \<times> Scheduler" where
  "executeStage ev sched r i s =
     (let (begun, s) = begin_stage ev r i s in
      case begun of
        Inl e \<Rightarrow> (Some e, s)
      | Inr sr \<Rightarrow> (let (sr, s) = run_schedule ev sched sr s in finish_stage sr s))"

section \<open>A job\<close>

text \<open>\<^verbatim>\<open>executeJob\<close> up to the loop over the stages; the job object used is the registered one.\<close>

definition register_job :: "job_ref \<Rightarrow> Scheduler \<Rightarrow> job_ref \<times> Scheduler" where
  "register_job r s =
     (let jobID = jb_ID (deref s r) in
      case mget (sc_jobs s) jobID of
        Some existing \<Rightarrow> (existing, s)
      | None \<Rightarrow> (r, s\<lparr>sc_jobs := mput jobID r (sc_jobs s)\<rparr>))"

definition start_job :: "env \<Rightarrow> job_ref \<Rightarrow> Scheduler \<Rightarrow> Scheduler" where
  "start_job ev r s =
     (let s = updateJobStatus ev r JobRunning s;
          s = (if jb_LifecycleState (deref s r) = JobStateSubmitted
               then recordJobTransition ev r TransitionJobQueued JobStateQueued '''' s else s);
          hasTasks = list_ex (\<lambda>g. sg_Tasks g \<noteq> []) (jb_Stages (deref s r))
      in if hasTasks then s
         else recordJobTransition ev r
                (if jb_LifecycleState (deref s r) = JobStateAwaitingHuman then TransitionJobResumed
                 else TransitionJobRunning) JobStateRunning '''' s)"

definition finish_job :: "env \<Rightarrow> job_ref \<Rightarrow> go_error option \<Rightarrow> Scheduler \<Rightarrow> Scheduler" where
  "finish_job ev r err s =
     (case err of
        None \<Rightarrow>
          recordJobTransition ev r TransitionJobSucceeded JobStateSucceeded ''''
            (updateJobStatus ev r JobCompleted s)
      | Some e \<Rightarrow>
          if errors_as_policy e \<noteq> None
          then recordJobTransition ev r TransitionJobFailed JobStateFailed (error_text e)
                 (updateJobStatus ev r JobBlocked s)
          else if isHumanPauseError e
          then recordJobTransition ev r TransitionJobAwaitingHuman JobStateAwaitingHuman (error_text e)
                 (updateJobStatus ev r JobAwaitingHuman s)
          else recordJobTransition ev r TransitionJobFailed JobStateFailed (error_text e)
                 (updateJobStatus ev r JobFailed s))"

text \<open>The stages run one after the other; \<open>scheds\<close> gives the interleaving of each.\<close>

fun execute_stages ::
    "env \<Rightarrow> (nat \<Rightarrow> nat list) \<Rightarrow> job_ref \<Rightarrow> nat list \<Rightarrow> Scheduler \<Rightarrow> go_error option \<times> Scheduler" where
  "execute_stages ev scheds r [] s = (None, s)"
| "execute_stages ev scheds r (i # is) s =
     (let (err, s) = executeStage ev (scheds i) r i s in
      case err of Some e \<Rightarrow> (Some e, s) | None \<Rightarrow> execute_stages ev scheds r is s)"

definition executeJob :: "env \<Rightarrow> (nat \<Rightarrow> nat list) \<Rightarrow> job_ref \<Rightarrow> Scheduler \<Rightarrow> Scheduler" where
  "executeJob ev scheds r s =
     (let (r, s) = register_job r s;
          s = start_job ev r s;
          (err, s) = execute_stages ev scheds r [0..<length (jb_Stages (deref s r))] s
      in finish_job ev r err s)"

section \<open>The main loop\<close>

text \<open>From the receive of a job to the decision to execute it: \<open>None\<close> when this turn executes nothing.\<close>

definition run_receive :: "env \<Rightarrow> Scheduler \<Rightarrow> job_ref option \<times> Scheduler" where
  "run_receive ev s =
     (case dequeueJob s of
        None \<Rightarrow> (None, s)
      | Some (r, s) \<Rightarrow>
          if \<not> isExecutableDequeuedJob r s then (None, s)
          else
            (let (authority, s) = dispatchAuthority ev s in
             case authority of
               Inl e \<Rightarrow> (None, requeueJob r s)
             | Inr a \<Rightarrow>
                 if \<not> la_IsLeader a then (None, requeueJob r s)
                 else
                   (let (refreshed, s) = refreshJobFromDurableState ev (jb_ID (deref s r)) s;
                        r = (case refreshed of Some r' \<Rightarrow> r' | None \<Rightarrow> r)
                    in if \<not> isExecutableDequeuedJob r s then (None, s) else (Some r, s))))"

definition run_turn :: "env \<Rightarrow> (nat \<Rightarrow> nat list) \<Rightarrow> Scheduler \<Rightarrow> Scheduler" where
  "run_turn ev scheds s =
     (let (job, s) = run_receive ev s in case job of None \<Rightarrow> s | Some r \<Rightarrow> executeJob ev scheds r s)"

section \<open>Resuming after human input\<close>

definition resume_task :: "(string, go_value) gomap \<Rightarrow> Task \<Rightarrow> Task" where
  "resume_task resumeContext t =
     (let input = (case tk_Input t of
                     Some i \<Rightarrow> i
                   | None \<Rightarrow> \<lparr>ai_TaskID = '''', ai_Instruction = '''', ai_Context = [], ai_Tools = [],
                              ai_Model = '''', ai_MaxRetries = 0, ai_Timeout = 0\<rparr>)
      in t\<lparr>tk_Input := Some (input\<lparr>ai_Context := fold (\<lambda>(k, v) m. mput k v m) resumeContext (ai_Context input)\<rparr>),
           tk_Status := JobPending, tk_LifecycleState := TaskStatePending, tk_Output := None\<rparr>)"

definition resume_job :: "(string, go_value) gomap \<Rightarrow> Job \<Rightarrow> Job" where
  "resume_job resumeContext j =
     (if resumeContext = [] then j
      else j\<lparr>jb_Stages := map (\<lambda>g. g\<lparr>sg_Status := JobPending, sg_Tasks := map (resume_task resumeContext) (sg_Tasks g)\<rparr>)
               (jb_Stages j)\<rparr>)"

definition ResumeAwaitingHumanJob ::
    "env \<Rightarrow> (nat \<Rightarrow> nat list) \<Rightarrow> string \<Rightarrow> (string, go_value) gomap \<Rightarrow> Scheduler
     \<Rightarrow> go_error option \<times> Scheduler" where
  "ResumeAwaitingHumanJob ev scheds jobID resumeContext s =
     (let (found, s) = getJobPointer ev jobID s in
      case found of
        Inl e \<Rightarrow> (Some e, s)
      | Inr r \<Rightarrow>
          (let state = jb_LifecycleState (deref s r);
               (r, s) =
                 (if state \<noteq> JobStateAwaitingHuman \<and> \<not> IsTerminalJobState state
                  then (let (refreshed, s) = refreshJobFromDurableState ev jobID s
                        in (case refreshed of Some r' \<Rightarrow> r' | None \<Rightarrow> r, s))
                  else (r, s));
               state = jb_LifecycleState (deref s r)
           in if IsTerminalJobState state then (None, s)
              else if state \<noteq> JobStateAwaitingHuman
              then (Some (ErrNew (''job '' @ jobID @ '' is not awaiting human input (state=''
                      @ job_state_string state @ '')'')), s)
              else
                (let (authority, s) = dispatchAuthority ev s in
                 case authority of
                   Inl e \<Rightarrow>
                     (Some (ErrWrap (''resolve dispatch authority before resuming job '' @ jobID @ '': '') e ''''), s)
                 | Inr a \<Rightarrow>
                     if \<not> la_IsLeader a
                     then (Some (ErrWrap '''' (ErrSentinel ErrStaleDispatchAuthority)
                             ('': leader_id='' @ la_LeaderID a @ '' epoch='' @ la_Epoch a)), s)
                     else (None, executeJob ev scheds r (upd_job r (resume_job resumeContext) s)))))"


section \<open>Property\<close>

text \<open>C14. A stage always ends. Every sequence of moves of its goroutines is finite, whatever the
  environment answers and in whatever order they move, and as long as the stage is not over some
  goroutine can move, so there is no deadlock.\<close>

theorem stage_always_ends:
  "wf {(c', c). \<exists>ev j. can_move j (fst c) \<and> c' = stage_step ev j (fst c) (snd c)}
   \<and> (stage_idle sr \<longleftrightarrow> (\<forall>j. \<not> can_move j sr))"
proof
  let ?moves = "{(c', c). \<exists>ev j. can_move j (fst c) \<and> c' = stage_step ev j (fst c) (snd c)}"
  have "?moves \<subseteq> inv_image stage_order (\<lambda>(sr, s). stage_left (max_attempts s) sr)"
  proof
    fix x
    assume "x \<in> ?moves"
    then obtain sr s ev j where x: "x = (stage_step ev j sr s, (sr, s))" "can_move j sr" by auto
    obtain sr' s' where step: "stage_step ev j sr s = (sr', s')" by fastforce
    have "only_executes s s'" using stage_step_frame [of s ev j sr] step by simp
    from max_attempts_executes [OF this] stage_step_left [OF x(2) step]
    show "x \<in> inv_image stage_order (\<lambda>(sr, s). stage_left (max_attempts s) sr)" by (simp add: x(1) step)
  qed
  then show "wf ?moves" by (rule wf_subset [OF wf_inv_image [OF wf_stage_order]])
  have "stage_idle sr \<Longrightarrow> \<not> can_move j sr" for j
    by (cases j) (auto simp: stage_idle_def list_all_length)
  then show "stage_idle sr \<longleftrightarrow> (\<forall>j. \<not> can_move j sr)" using next_mover_can_move by blast
qed

end
