(* ===== verification/Run_Safety.thy ===== *)
theory Run_Safety
  imports Stage_Execution
begin

text \<open>
  What the pieces of a running job keep, whatever runs between them: the journal invariant \<open>sync\<close>,
  what has been written to the logs, the reservations of the nodes, and that a job under execution
  is not in a terminal state.
\<close>

section \<open>The journal invariant\<close>

text \<open>A task of a registered job.\<close>

definition live :: "Scheduler \<Rightarrow> task_ref \<Rightarrow> bool" where
  "live s t \<longleftrightarrow> task_ok s t \<and> mget (sc_jobs s) (jb_ID (deref s (fst t))) = Some (fst t)"

lemma live_executes: "only_executes s s' \<Longrightarrow> live s' t = live s t"
  using only_executes_frame(1,7,9) [of s s'] by (simp add: live_def)

lemma liveD:
  assumes "live s (r, i, k)"
  shows "mget (sc_jobs s) (jb_ID (deref s r)) = Some r" "task_ok s (r, i, k)"
  using assms by (simp_all add: live_def)

lemma sync_upd_task_unseen:
  "(\<And>k. task_view (f k) = task_view k) \<Longrightarrow> sync (upd_task t f s) = sync s"
  by (cases t) (simp only: upd_task_eq sync_unseen [OF set_task_view])

lemma only_selection_sync:
  assumes "only_selection s s'"
  shows "sync s' = sync s"
proof -
  note f = only_selection_frame [OF assms]
  note d = durable_cong [OF f(7) f(8)]
  show ?thesis by (simp add: sync_def d f(2,3,15))
qed

lemma sync_capacity [simp]:
  "sync (reserveNodeSlot ev n s) = sync s" "sync (releaseNodeSlot ev n s) = sync s"
  "sync (markDispatchCooldown ev n s) = sync s"
  "sync (snd (selectNodeForTask ev task nodes s)) = sync s"
  by (rule only_selection_sync, rule only_capacity_selection reserve_release_frame capacity_ops_frame
      selectNodeForTask_frame, (rule reserve_release_frame capacity_ops_frame)?)+

lemma recordTask_live_sync:
  "sync s \<Longrightarrow> live s t \<Longrightarrow> known_task_state new \<Longrightarrow>
   sync (recordTaskTransition ev t transition new nodeID attempt err s)"
  by (cases t) (auto intro: recordTaskTransition_sync dest: liveD)

lemma live_upd_task: "(\<And>k. tk_ID (f k) = tk_ID k) \<Longrightarrow> live (upd_task t' f s) t = live s t"
  by (rule live_executes [OF only_executes_upd_task])

lemma claim_attempt_sync:
  assumes "sync s" "live s t"
  shows "sync (snd (claim_attempt ev t node attempt s))"
proof -
  let ?s = "upd_task t (\<lambda>k. k\<lparr>tk_Attempts := attempt\<rparr>) s"
  have "sync ?s" using assms(1) by (subst sync_upd_task_unseen) (simp_all add: task_view_def)
  moreover have "live ?s t" using assms(2) by (subst live_upd_task) simp_all
  ultimately show ?thesis
    unfolding claim_attempt_def by (cases t) (auto intro: claimTaskDispatchTransition_sync dest: liveD)
qed

lemma recorded_after_unseen:
  assumes "sync s" "live s t" "known_task_state new"
    and "\<And>k. task_view (f k) = task_view k"
  shows "sync (recordTaskTransition ev t transition new nodeID attempt err (upd_task t f s))"
proof (rule recordTask_live_sync [OF _ _ assms(3)])
  show "sync (upd_task t f s)" using assms(1,4) by (simp add: sync_upd_task_unseen)
  have "tk_ID (f k) = tk_ID k" for k using assms(4) [of k] by (simp add: task_view_def)
  then show "live (upd_task t f s) t" using assms(2) by (simp add: live_upd_task)
qed

lemma start_task_sync: "sync s \<Longrightarrow> live s t \<Longrightarrow> sync (start_task ev t node s)"
  unfolding start_task_def Let_def by (rule recorded_after_unseen) (simp_all add: task_view_def)

lemma finish_task_sync:
  assumes "sync s" "live s t"
  shows "sync (snd (finish_task ev t node res s))"
proof -
  have *: "sync (recordTaskTransition ev t transition new nodeID attempt err (upd_task t f s1))"
    if "sync s1" "only_executes s s1" "known_task_state new" "\<And>k. task_view (f k) = task_view k"
    for f s1 transition new nodeID attempt err
    by (rule recorded_after_unseen) (use that assms live_executes [OF that(2)] in auto)
  have v: "sync (upd_task t (\<lambda>k. k\<lparr>tk_Status := JobBlocked\<rparr>) s)"
    using assms(1) by (subst sync_upd_task_unseen) (simp_all add: task_view_def)
  show ?thesis
    using assms(1) v
    by (auto simp: finish_task_def Let_def task_view_def intro!: * split: sum.split)
qed

lemma next_attempt_sync: "sync s \<Longrightarrow> sync (snd (next_attempt ev nodes w s))"
  by (simp add: next_attempt_def case_prod_beta split: option.split)

lemma worker_step_sync:
  assumes "sync s" "live s (wk_task w)"
  shows "sync (snd (worker_step ev nodes n w s))"
  using assms claim_attempt_sync [OF assms] start_task_sync [OF assms] finish_task_sync [OF assms]
  by (simp add: worker_step_def Let_def case_prod_beta next_attempt_sync
      split: task_pc.split option.split sum.split)

lemma main_step_sync: "sync s \<Longrightarrow> sync (snd (main_step ev sr s))"
  by (simp add: main_step_def read_ctx_def GetHealthyNodes_def Let_def case_prod_beta
      split: list.split stage_pc.split option.split deferral_event.split)

lemma goroutine_step_sync:
  "sync s \<Longrightarrow> live s (wk_task (go_worker g)) \<Longrightarrow> sync (snd (snd (goroutine_step ev nodes g s)))"
  using worker_step_sync [of s "go_worker g" ev nodes "max_attempts s"]
  by (auto simp: goroutine_step_def Let_def case_prod_beta split: task_pc.split option.split)

definition stage_live :: "stage_run \<Rightarrow> Scheduler \<Rightarrow> bool" where
  "stage_live sr s \<longleftrightarrow>
     (\<forall>g \<in> set (sr_goroutines sr). live s (wk_task (go_worker g))) \<and> (\<forall>t \<in> set (sr_todo sr). live s t)"

lemma stage_live_executes: "only_executes s s' \<Longrightarrow> stage_live sr s' = stage_live sr s"
  by (simp add: stage_live_def live_executes)

lemma goroutine_step_task [simp]:
  "wk_task (go_worker (fst (goroutine_step ev nodes g s))) = wk_task (go_worker g)"
  by (auto simp: goroutine_step_def Let_def case_prod_beta split: task_pc.split option.split)

lemma main_step_live: "stage_live sr s \<Longrightarrow> stage_live (fst (main_step ev sr s')) s"
  by (auto simp: main_step_def Let_def case_prod_beta stage_live_def spawn_def stop_selecting_def
      new_worker_def
      split: list.split stage_pc.split option.split deferral_event.split)

lemma stage_step_ok:
  assumes "sync s" "stage_live sr s"
  shows "sync (snd (stage_step ev j sr s))" "stage_live (fst (stage_step ev j sr s)) (snd (stage_step ev j sr s))"
proof -
  show "sync (snd (stage_step ev j sr s))"
    using assms main_step_sync goroutine_step_sync
    by (cases j) (auto simp: Let_def case_prod_beta stage_live_def)
  have "stage_live (fst (stage_step ev j sr s)) s"
  proof (cases j)
    case 0
    then show ?thesis using main_step_live assms(2) by simp
  next
    case (Suc i)
    then show ?thesis
      using assms(2)
      by (auto simp: stage_live_def Let_def case_prod_beta dest!: set_mp [OF set_update_subset_insert])
  qed
  then show "stage_live (fst (stage_step ev j sr s)) (snd (stage_step ev j sr s))"
    using stage_live_executes [OF stage_step_frame] by simp
qed


section \<open>Logs only grow\<close>

definition grows :: "Scheduler \<Rightarrow> Scheduler \<Rightarrow> bool" where
  "grows s s' \<longleftrightarrow> (\<forall>jobID. mset (log_of s jobID) \<subseteq># mset (log_of s' jobID))"

lemma grows_set: "grows s s' \<Longrightarrow> set (log_of s jobID) \<subseteq> set (log_of s' jobID)"
  using set_mset_mono [of "mset (log_of s jobID)" "mset (log_of s' jobID)"] by (simp add: grows_def)

lemma grows_refl [simp, intro!]: "grows s s"
  by (simp add: grows_def)

lemma grows_trans: "grows s s' \<Longrightarrow> grows s' s'' \<Longrightarrow> grows s s''"
  unfolding grows_def using subset_mset.order_trans by blast

lemma grows_same: "log_of s' = log_of s \<Longrightarrow> grows s s'"
  by (simp add: grows_def)

lemma grows_upd [simp]:
  "grows s (upd_task t f s') = grows s s'" "grows s (upd_job r g s') = grows s s'"
  "grows s (step_tick s') = grows s s'"
  by (simp_all add: grows_def)

text \<open>A write either leaves the logs alone or adds its record.\<close>

lemma written_grows:
  assumes "durable_ok s" "nextSequenceIDWithContext ev jobID s = (Inr n, s1)"
    and "appends tr fn" "persistTransitionWrite ev fn (step_tick s1) = (x, s2)"
  shows "only_records s s2" "grows s s2"
    "x = None \<Longrightarrow> mset (log_of s2 (tr_JobID tr)) = add_mset tr (mset (log_of s (tr_JobID tr)))"
proof -
  note n = nextSequence_Inr [OF assms(1,2)]
  show "only_records s s2"
    using n(4) persist_only [OF assms(4)] by (blast intro: only_records_trans only_records_tick)
  have "grows s s2 \<and> (x = None \<longrightarrow> mset (log_of s2 (tr_JobID tr)) = add_mset tr (mset (log_of s (tr_JobID tr))))"
  proof (cases x)
    case None
    have d: "durable_ok (step_tick s1)" using n(1) by simp
    obtain st st' where st: "sc_transitionStore (step_tick s1) = Some st"
      "s2 = (step_tick (step_tick s1))\<lparr>sc_transitionStore := Some st'\<rparr>"
      "fn (ev_faults ev (sc_tick (step_tick s1))) st = Inr st'"
      by (rule persist_None [OF d assms(4) [unfolded None]]) blast
    have "log_of s1 j = store_log st j" "log_of s2 j = store_log st' j" for j
      using st(1,2) by (simp_all add: log_of_def)
    then show ?thesis
      using appendsD(4) [OF assms(3) st(3)] n(3) by (auto simp: grows_def fun_eq_iff)
  next
    case (Some e)
    then have "s2 = step_tick (step_tick s1)" using persist_error assms(4) by blast
    then show ?thesis using n(3) Some by (simp add: grows_same)
  qed
  then show "grows s s2"
    "x = None \<Longrightarrow> mset (log_of s2 (tr_JobID tr)) = add_mset tr (mset (log_of s (tr_JobID tr)))" by blast+
qed


lemma recordJobTransition_effect:
  assumes "durable_ok s"
  shows "\<exists>s1. only_records s s1 \<and> grows s s1 \<and>
    recordJobTransition ev r transition new err s \<in> {s1, upd_job r (\<lambda>j. j\<lparr>jb_LifecycleState := new\<rparr>) s1}"
    (is "\<exists>s1. ?P s1")
proof -
  define job where "job = deref s r"
  obtain q s1 where q: "nextSequenceIDWithContext ev (jb_ID job) s = (q, s1)" by fastforce
  show ?thesis
  proof (cases q)
    case (Inl e)
    then have "only_records s s1 \<and> grows s s1" using nextSequence_Inl q by fastforce
    moreover have "recordJobTransition ev r transition new err s \<in> {s, s1}"
      unfolding recordJobTransition_def Let_def job_def [symmetric] q Inl prod.case sum.case by simp
    ultimately show ?thesis by auto
  next
    case (Inr n)
    define tr where "tr = \<lparr>tr_SequenceID = n, tr_EntityType = TransitionEntityJob,
      tr_Transition = transition, tr_JobID = jb_ID job, tr_TaskID = '''',
      tr_PreviousState = job_state_string (jb_LifecycleState job),
      tr_NewState = job_state_string new, tr_NodeID = '''', tr_Attempt = 0,
      tr_ErrorSummary = normalizeTransitionErrorSummary err, tr_OccurredAt = ev_now ev (sc_tick s1)\<rparr>"
    define row where "row = \<lparr>dj_JobID = jb_ID job, dj_Name = jb_Name job,
      dj_CurrentState = new, dj_LastSequenceID = n, dj_CreatedAt = jb_CreatedAt job,
      dj_UpdatedAt = ev_now ev (sc_tick s1)\<rparr>"
    obtain x s2 where x: "persistTransitionWrite ev (job_write tr row) (step_tick s1) = (x, s2)" by fastforce
    note q = q [unfolded Inr]
    note w = written_grows(1,2) [OF assms q job_write_appends x]
    have "recordJobTransition ev r transition new err s
        \<in> {s, s2, upd_job r (\<lambda>j. j\<lparr>jb_LifecycleState := new\<rparr>) s2}"
      unfolding recordJobTransition_def Let_def time_Now_def job_def [symmetric] q prod.case sum.case
        tr_def [symmetric] row_def [symmetric] x
      by (cases x) auto
    then show ?thesis using w by auto
  qed
qed

lemma recordTaskTransition_effect:
  assumes "durable_ok s"
  shows "\<exists>s1. only_records s s1 \<and> grows s s1 \<and>
    recordTaskTransition ev t transition new nodeID attempt err s
      \<in> {s1, upd_task t (\<lambda>k. k\<lparr>tk_LifecycleState := new\<rparr>) s1}"
proof -
  define task where "task = get_task s t"
  obtain q s1 where q: "nextSequenceIDWithContext ev (tk_JobID task) s = (q, s1)" by fastforce
  show ?thesis
  proof (cases q)
    case (Inl e)
    then have "only_records s s1 \<and> grows s s1" using nextSequence_Inl q by fastforce
    moreover have "recordTaskTransition ev t transition new nodeID attempt err s \<in> {s, s1}"
      unfolding recordTaskTransition_def Let_def task_def [symmetric] q Inl prod.case sum.case by simp
    ultimately show ?thesis by auto
  next
    case (Inr n)
    define tr where "tr = \<lparr>tr_SequenceID = n, tr_EntityType = TransitionEntityTask,
      tr_Transition = transition, tr_JobID = tk_JobID task, tr_TaskID = tk_ID task,
      tr_PreviousState = task_state_string (tk_LifecycleState task),
      tr_NewState = task_state_string new, tr_NodeID = nodeID, tr_Attempt = attempt,
      tr_ErrorSummary = normalizeTransitionErrorSummary err, tr_OccurredAt = ev_now ev (sc_tick s1)\<rparr>"
    define row where "row = task_row ev task nodeID new attempt (ev_now ev (sc_tick s1))"
    define snap where "snap = durableJobSnapshot (step_tick s1) (tk_JobID task) n (ev_now ev (sc_tick s1))"
    obtain x s2 where x: "persistTransitionWrite ev (task_write tr row snap) (step_tick s1) = (x, s2)"
      by fastforce
    note q = q [unfolded Inr]
    note w = written_grows(1,2) [OF assms q task_write_appends x]
    have "recordTaskTransition ev t transition new nodeID attempt err s
        \<in> {s, s2, upd_task t (\<lambda>k. k\<lparr>tk_LifecycleState := new\<rparr>) s2}"
      unfolding recordTaskTransition_def Let_def time_Now_def task_def [symmetric] q prod.case sum.case
        tr_def [symmetric] row_def [symmetric] snap_def [symmetric] x
      by (cases x) auto
    then show ?thesis using w by auto
  qed
qed

definition dispatch_of :: "string \<Rightarrow> string \<Rightarrow> int \<Rightarrow> TransitionRecord \<Rightarrow> bool" where
  "dispatch_of taskID nodeID attempt tr \<longleftrightarrow>
     tr_EntityType tr = TransitionEntityTask \<and> tr_Transition tr = TransitionTaskDispatched
     \<and> tr_TaskID tr = taskID \<and> tr_NodeID tr = nodeID \<and> tr_Attempt tr = attempt"

lemma claim_effect:
  assumes "sync s" "live s t" "claimTaskDispatchTransition ev t nodeID attempt s = (res, s')"
    and "tk_JobID (get_task s t) \<noteq> ''''"
  shows "\<exists>s1. only_records s s1 \<and> grows s s1 \<and>
    (if res = None
     then s' = recordJobRunningOnFirstDispatch ev (tk_JobID (get_task s t))
                 (upd_task t (\<lambda>k. k\<lparr>tk_LifecycleState := TaskStateDispatched\<rparr>) s1)
       \<and> sync (upd_task t (\<lambda>k. k\<lparr>tk_LifecycleState := TaskStateDispatched\<rparr>) s1)
       \<and> (\<exists>tr. dispatch_of (tk_ID (get_task s t)) nodeID attempt tr
            \<and> mset (log_of s1 (tk_JobID (get_task s t))) = add_mset tr (mset (log_of s (tk_JobID (get_task s t)))))
     else s' = s1)"
proof -
  define task where "task = get_task s t"
  define prev where "prev = (if tk_LifecycleState task = TaskStateUnset then TaskStatePending
    else tk_LifecycleState task)"
  note d = sync_durable_ok [OF assms(1)]
  then have stored: "sc_transitionStore s \<noteq> None" by (auto simp: durable_ok_def)
  obtain q s1 where q: "nextSequenceIDWithContext ev (tk_JobID task) s = (q, s1)" by fastforce
  show ?thesis
  proof (cases q)
    case (Inl e)
    then have "s1 = step_tick s" using nextSequence_Inl q by blast
    moreover have "res \<noteq> None \<and> s' \<in> {s, s1}"
      using assms(3,4) stored unfolding claimTaskDispatchTransition_def Let_def task_def [symmetric] q Inl
        prod.case sum.case by (auto split: if_splits)
    ultimately show ?thesis by (intro exI [of _ s']) auto
  next
    case (Inr n)
    define tr where "tr = \<lparr>tr_SequenceID = n, tr_EntityType = TransitionEntityTask,
      tr_Transition = TransitionTaskDispatched, tr_JobID = tk_JobID task, tr_TaskID = tk_ID task,
      tr_PreviousState = task_state_string prev,
      tr_NewState = task_state_string TaskStateDispatched, tr_NodeID = nodeID, tr_Attempt = attempt,
      tr_ErrorSummary = '''', tr_OccurredAt = ev_now ev (sc_tick s1)\<rparr>"
    define claim where "claim = \<lparr>cl_TaskID = tk_ID task, cl_JobID = tk_JobID task,
      cl_StageID = tk_StageID task, cl_NodeID = nodeID, cl_Attempt = attempt,
      cl_UpdatedAt = ev_now ev (sc_tick s1)\<rparr>"
    define snap where "snap = durableJobSnapshot (step_tick s1) (tk_JobID task) n (ev_now ev (sc_tick s1))"
    obtain x s2 where x: "persistTransitionWrite ev (claim_write claim tr snap) (step_tick s1) = (x, s2)"
      by fastforce
    note q = q [unfolded Inr]
    note w = written_grows [OF d q claim_write_appends x]
    have synced: "sync (upd_task t (\<lambda>k. k\<lparr>tk_LifecycleState := TaskStateDispatched\<rparr>) s2)"
      if "x = None" "CanTransitionTaskState prev TaskStateDispatched"
    proof -
      obtain r i k where t: "t = (r, i, k)" by (rule prod_cases3)
      show ?thesis
        unfolding t
        by (rule sync_task_record [OF assms(1) liveD [OF assms(2) [unfolded t]] q [unfolded task_def t]
            claim_write_appends x [unfolded that(1)]])
          (use that(2) in \<open>simp_all add: tr_def task_def t prev_def\<close>)
    qed
    have "(res \<noteq> None \<and> s' \<in> {s, s2}) \<or> (res = None \<and> x = None \<and>
        CanTransitionTaskState prev TaskStateDispatched \<and>
        s' = recordJobRunningOnFirstDispatch ev (tk_JobID task)
               (upd_task t (\<lambda>k. k\<lparr>tk_LifecycleState := TaskStateDispatched\<rparr>) s2))"
      using assms(3,4) stored
      unfolding claimTaskDispatchTransition_def Let_def time_Now_def task_def [symmetric]
        prev_def [symmetric] q prod.case sum.case tr_def [symmetric] claim_def [symmetric]
        snap_def [symmetric] x
      by (cases x) (auto split: if_splits)
    then show ?thesis
    proof
      assume "res \<noteq> None \<and> s' \<in> {s, s2}"
      then show ?thesis using w(1,2) by (intro exI [of _ s']) auto
    next
      assume *: "res = None \<and> x = None \<and> CanTransitionTaskState prev TaskStateDispatched
        \<and> s' = recordJobRunningOnFirstDispatch ev (tk_JobID task)
          (upd_task t (\<lambda>k. k\<lparr>tk_LifecycleState := TaskStateDispatched\<rparr>) s2)"
      then have "mset (log_of s2 (tk_JobID task)) = add_mset tr (mset (log_of s (tk_JobID task)))"
        using w(3) by (simp add: tr_def)
      moreover have "dispatch_of (tk_ID task) nodeID attempt tr" by (simp add: tr_def dispatch_of_def)
      ultimately show ?thesis
        using w(1,2) * synced unfolding task_def by (intro exI [of _ s2]) auto
    qed
  qed
qed


section \<open>Frame of a running job\<close>

definition open_job :: "Scheduler \<Rightarrow> job_ref \<Rightarrow> bool" where
  "open_job s r \<longleftrightarrow> \<not> IsTerminalJobState (jb_LifecycleState (deref s r))"

text \<open>Logs grow, no job gets terminal, no task changes its identity.\<close>

definition runs :: "Scheduler \<Rightarrow> Scheduler \<Rightarrow> bool" where
  "runs s s' \<longleftrightarrow>
     only_executes s s' \<and> grows s s' \<and> (\<forall>r. open_job s r \<longrightarrow> open_job s' r)
     \<and> (\<forall>t. task_ok s t \<longrightarrow> tk_ID (get_task s' t) = tk_ID (get_task s t)
          \<and> tk_JobID (get_task s' t) = tk_JobID (get_task s t))"

lemma runs_refl [simp, intro!]: "runs s s"
  by (simp add: runs_def)

lemma runs_trans: "runs s s' \<Longrightarrow> runs s' s'' \<Longrightarrow> runs s s''"
  using only_executes_frame(9) [of s s'] unfolding runs_def
  by (auto intro: only_executes_trans grows_trans)

lemma runs_frame: "runs s s' \<Longrightarrow> only_executes s s'" "runs s s' \<Longrightarrow> grows s s'"
  "runs s s' \<Longrightarrow> open_job s r \<Longrightarrow> open_job s' r"
  by (simp_all add: runs_def)

lemma runs_task:
  assumes "runs s s'" "task_ok s t"
  shows "tk_ID (get_task s' t) = tk_ID (get_task s t)" "tk_JobID (get_task s' t) = tk_JobID (get_task s t)"
  using assms unfolding runs_def by (cases t, blast)+

lemma runs_same_jobs:
  assumes "only_executes s s'" "grows s s'" "deref s' = deref s"
  shows "runs s s'"
  using assms unfolding runs_def open_job_def by (auto simp: get_task.simps)

lemma only_selection_runs: "only_selection s s' \<Longrightarrow> runs s s'"
  using only_selection_frame(15) only_selection_task(2)
  by (intro runs_same_jobs) (simp_all add: only_selection_executes grows_same)

lemma only_records_runs: "only_records s s' \<Longrightarrow> grows s s' \<Longrightarrow> runs s s'"
  using only_records_frame(2) by (intro runs_same_jobs) (simp_all add: only_journal_executes only_records_journal)

lemma runs_tick [simp]: "runs s (step_tick s)"
  by (rule only_records_runs) simp_all

lemma runs_capacity [simp]:
  "runs s (reserveNodeSlot ev n s)" "runs s (releaseNodeSlot ev n s)" "runs s (markDispatchCooldown ev n s)"
  "runs s (snd (selectNodeForTask ev task nodes s))"
  by (rule only_selection_runs, rule only_capacity_selection reserve_release_frame capacity_ops_frame
      selectNodeForTask_frame, (rule reserve_release_frame capacity_ops_frame)?)+

lemma get_task_upd_other:
  assumes "task_ok s t'"
  shows "get_task (upd_task t f s) t' = (if t' = t then f (get_task s t) else get_task s t')"
proof -
  obtain r i k r' i' k' where t: "t = (r, i, k)" "t' = (r', i', k')" by (metis prod_cases3)
  then show ?thesis
    using assms
    by (auto simp: get_task.simps upd_task.simps task_ok.simps upd_stage_def nth_upd_nth)
qed

lemma upd_task_runs:
  assumes "\<And>k. tk_ID (f k) = tk_ID k \<and> tk_JobID (f k) = tk_JobID k"
  shows "runs s (upd_task t f s)"
proof -
  have "jb_LifecycleState (deref (upd_task t f s) r) = jb_LifecycleState (deref s r)" for r
    by (cases t) (simp add: upd_task_eq)
  then show ?thesis
    using assms unfolding runs_def open_job_def
    by (auto intro: only_executes_upd_task simp: get_task_upd_other)
qed

lemma upd_job_runs:
  assumes "\<And>j. jb_Stages (f j) = jb_Stages j \<and> jb_ID (f j) = jb_ID j"
    and "open_job s r \<Longrightarrow> \<not> IsTerminalJobState (jb_LifecycleState (f (deref s r)))"
  shows "runs s (upd_job r f s)"
proof -
  have "get_task (upd_job r f s) t = get_task s t" for t
    using assms(1) by (cases t) (simp add: get_task.simps)
  moreover have "only_executes s (upd_job r f s)"
    using assms(1) by (intro only_journal_executes only_journal_upd_job) (simp add: job_shape_def)
  ultimately show ?thesis using assms(2) by (simp add: runs_def open_job_def)
qed

lemma recordTaskTransition_runs:
  assumes "sync s"
  shows "runs s (recordTaskTransition ev t transition new nodeID attempt err s)"
proof -
  obtain s1 where "only_records s s1" "grows s s1" and
    eq: "recordTaskTransition ev t transition new nodeID attempt err s
      \<in> {s1, upd_task t (\<lambda>k. k\<lparr>tk_LifecycleState := new\<rparr>) s1}"
    using recordTaskTransition_effect [OF sync_durable_ok [OF assms]] by blast
  then have "runs s s1" by (blast intro: only_records_runs)
  moreover have "runs s1 (upd_task t (\<lambda>k. k\<lparr>tk_LifecycleState := new\<rparr>) s1)" by (rule upd_task_runs) simp
  ultimately show ?thesis using eq by (auto intro: runs_trans)
qed

lemma recordJobTransition_runs:
  assumes "sync s" "\<not> IsTerminalJobState new"
  shows "runs s (recordJobTransition ev r transition new err s)"
proof -
  obtain s1 where "only_records s s1" "grows s s1" and
    eq: "recordJobTransition ev r transition new err s
      \<in> {s1, upd_job r (\<lambda>j. j\<lparr>jb_LifecycleState := new\<rparr>) s1}"
    using recordJobTransition_effect [OF sync_durable_ok [OF assms(1)]] by blast
  then have "runs s s1" by (blast intro: only_records_runs)
  moreover have "runs s1 (upd_job r (\<lambda>j. j\<lparr>jb_LifecycleState := new\<rparr>) s1)"
    using assms(2) by (intro upd_job_runs) simp_all
  ultimately show ?thesis using eq by (auto intro: runs_trans)
qed

lemma recordJobRunningOnFirstDispatch_runs:
  assumes "sync s"
  shows "runs s (recordJobRunningOnFirstDispatch ev jobID s)"
proof -
  have *: "runs s (recordJobTransition ev r transition JobStateRunning err s)"
    "runs s (recordJobTransition ev r transition JobStateQueued err s)" for r transition err
    using recordJobTransition_runs [OF assms] by simp_all
  have "runs s (recordJobTransition ev r TransitionJobRunning JobStateRunning ''''
      (recordJobTransition ev r TransitionJobQueued JobStateQueued '''' s))"
    if "mget (sc_jobs s) jobID = Some r" for r
    using runs_trans [OF *(2) recordJobTransition_runs [OF recordJobTransition_sync [OF assms that]]] by simp
  then show ?thesis
    using * by (auto simp: recordJobRunningOnFirstDispatch_def split: option.split JobLifecycleState.split)
qed


text \<open>The journal shows the dispatch a goroutine holds.\<close>

definition in_flight :: "worker \<Rightarrow> bool" where
  "in_flight w =
     (case wk_pc w of PcClaim \<Rightarrow> False | PcReserve \<Rightarrow> True | PcReturn _ \<Rightarrow> False | _ \<Rightarrow> True)"

definition claimed :: "Scheduler \<Rightarrow> task_ref \<Rightarrow> NodeInfo \<Rightarrow> int \<Rightarrow> bool" where
  "claimed s t node attempt \<longleftrightarrow>
     tk_JobID (get_task s t) = ''''
     \<or> (\<exists>tr \<in> set (log_of s (jb_ID (deref s (fst t)))).
          dispatch_of (tk_ID (get_task s t)) (ni_ID node) attempt tr)"

lemma claimed_runs:
  assumes "runs s s'" "task_ok s t" "claimed s t node attempt"
  shows "claimed s' t node attempt"
proof -
  have "jb_ID (deref s' (fst t)) = jb_ID (deref s (fst t))"
    using only_executes_frame(7) [OF runs_frame(1) [OF assms(1)]] by simp
  then show ?thesis
    using assms(3) runs_task [OF assms(1,2)] grows_set [OF runs_frame(2) [OF assms(1)]] unfolding claimed_def by auto
qed

text \<open>A new record of that dispatch.\<close>

definition recorded :: "Scheduler \<Rightarrow> Scheduler \<Rightarrow> task_ref \<Rightarrow> NodeInfo \<Rightarrow> int \<Rightarrow> bool" where
  "recorded s s' t node attempt \<longleftrightarrow>
     (\<exists>tr. dispatch_of (tk_ID (get_task s t)) (ni_ID node) attempt tr
        \<and> add_mset tr (mset (log_of s (jb_ID (deref s (fst t))))) \<subseteq># mset (log_of s' (jb_ID (deref s (fst t)))))"

lemma claim_attempt_runs:
  assumes "sync s" "live s t" "claim_attempt ev t node attempt s = (res, s')"
  shows "runs s s' \<and> (res = None \<longrightarrow> claimed s' t node attempt \<and> (tk_JobID (get_task s t) = '''' \<or> recorded s s' t node attempt))"
proof -
  define s0 where "s0 = upd_task t (\<lambda>k. k\<lparr>tk_Attempts := attempt\<rparr>) s"
  have r0: "runs s s0" unfolding s0_def by (rule upd_task_runs) simp
  have ok: "sync s0" "live s0 t"
    using assms(1,2) live_executes [OF runs_frame(1) [OF r0]]
    by (simp_all add: s0_def sync_upd_task_unseen task_view_def)
  have c: "claimTaskDispatchTransition ev t (ni_ID node) attempt s0 = (res, s')"
    using assms(3) by (simp add: claim_attempt_def s0_def)
  have same: "tk_ID (get_task s0 t) = tk_ID (get_task s t)" "tk_JobID (get_task s0 t) = tk_JobID (get_task s t)"
    "log_of s0 = log_of s" "jb_ID (deref s0 x) = jb_ID (deref s x)" for x
    using runs_task [OF r0] only_executes_frame(7) [OF runs_frame(1) [OF r0]] assms(2)
    by (simp_all add: live_def) (simp add: s0_def)
  show ?thesis
  proof (cases "tk_JobID (get_task s0 t) = ''''")
    case True
    then have s': "s' = upd_task t (\<lambda>k. k\<lparr>tk_LifecycleState := TaskStateDispatched\<rparr>) s0"
      using c by (auto simp: claimTaskDispatchTransition_def Let_def)
    have "runs s0 s'" unfolding s' by (rule upd_task_runs) simp
    then show ?thesis
      using True ok(2) runs_trans [OF r0] runs_task(2) same(2) by (auto simp: claimed_def live_def)
  next
    case False
    let ?upd = "upd_task t (\<lambda>k. k\<lparr>tk_LifecycleState := TaskStateDispatched\<rparr>)"
    obtain s1 where s1: "only_records s0 s1" "grows s0 s1" and
      res: "res \<noteq> None \<Longrightarrow> s' = s1"
        "res = None \<Longrightarrow> s' = recordJobRunningOnFirstDispatch ev (tk_JobID (get_task s0 t)) (?upd s1)"
        "res = None \<Longrightarrow> sync (?upd s1)"
        "res = None \<Longrightarrow> \<exists>tr. dispatch_of (tk_ID (get_task s0 t)) (ni_ID node) attempt tr
           \<and> mset (log_of s1 (tk_JobID (get_task s0 t))) = add_mset tr (mset (log_of s0 (tk_JobID (get_task s0 t))))"
      using claim_effect [OF ok c False] by (auto split: if_splits)
    note r1 = runs_trans [OF r0 only_records_runs [OF s1]]
    show ?thesis
    proof (cases res)
      case None
      obtain r i k where t: "t = (r, i, k)" by (rule prod_cases3)
      have id: "tk_JobID (get_task s0 t) = jb_ID (deref s0 r)"
        using sync_task_synced [OF ok(1) liveD [OF ok(2) [unfolded t]]] False by (auto simp: task_synced_def t)
      have u: "runs s1 (?upd s1)" by (rule upd_task_runs) simp
      have r2: "runs s1 s'"
        using runs_trans [OF u recordJobRunningOnFirstDispatch_runs [OF res(3) [OF None]]] res(2) [OF None] by simp
      have "task_ok s1 t" "get_task s1 t = get_task s0 t" "deref s1 = deref s0"
        using only_records_frame(2-4) [OF s1(1)] ok(2) by (simp_all add: live_def)
      obtain tr where tr: "dispatch_of (tk_ID (get_task s0 t)) (ni_ID node) attempt tr"
        "mset (log_of s1 (jb_ID (deref s0 r))) = add_mset tr (mset (log_of s0 (jb_ID (deref s0 r))))"
        using res(4) [OF None] id by auto
      then have "tr \<in> set (log_of s1 (jb_ID (deref s0 r)))" by (metis set_mset_mset union_single_eq_member)
      then have "claimed s1 t node attempt"
        using tr(1) \<open>get_task s1 t = _\<close> \<open>deref s1 = _\<close> by (auto simp: claimed_def t)
      moreover have "mset (log_of s1 (jb_ID (deref s r))) \<subseteq># mset (log_of s' (jb_ID (deref s r)))"
        using runs_frame(2) [OF r2] by (simp add: grows_def)
      then have "recorded s s' t node attempt"
        unfolding recorded_def using tr same by (intro exI [of _ tr]) (simp add: t)
      ultimately show ?thesis using runs_trans [OF r1 r2] claimed_runs [OF r2 \<open>task_ok s1 t\<close>] by simp
    qed (use r1 res(1) in auto)
  qed
qed


section \<open>Reservations\<close>

text \<open>Only \<^verbatim>\<open>reserveNodeSlot\<close> and \<^verbatim>\<open>releaseNodeSlot\<close> change what is reserved.\<close>

lemma reserved_of_cong: "sc_nodeCapacity s' = sc_nodeCapacity s \<Longrightarrow> reserved_of s' = reserved_of s"
  by (simp add: reserved_of_def fun_eq_iff)

lemma reserved_journal: "only_journal s s' \<Longrightarrow> reserved_of s' = reserved_of s"
  using only_journal_frame(5) by (blast intro: reserved_of_cong)

lemma reserved_capacity_ops [simp]:
  "reserved_of (step_tick s) = reserved_of s" "reserved_of (with_affinity f s) = reserved_of s"
  "reserved_of (s\<lparr>sc_nodeIndex := i\<rparr>) = reserved_of s"
  "reserved_of (snd (getOrCreateNodeCapacityLocked ev n s)) = reserved_of s"
  "reserved_of (snd (isCapacityFreshLocked ev c s)) = reserved_of s"
  "reserved_of (snd (isInDispatchCooldownLocked ev n s)) = reserved_of s"
  "reserved_of (markDispatchCooldown ev n s) = reserved_of s"
  by (auto simp: fun_eq_iff reserved_of_def with_affinity_def getOrCreateNodeCapacityLocked_def time_Now_def
      isCapacityFreshLocked_def isInDispatchCooldownLocked_def markDispatchCooldown_def Let_def
      split: option.splits)

lemma reserved_nodeHasAvailableCapacity [simp]:
  "reserved_of (snd (nodeHasAvailableCapacity ev n s)) = reserved_of s"
  by (simp add: nodeHasAvailableCapacity_def case_prod_beta)

lemma reserved_select_loop [simp]: "reserved_of (snd (select_loop ev i nodes fr st s)) = reserved_of s"
  by (induction nodes arbitrary: i fr st s) (simp_all add: case_prod_beta Let_def)

lemma reserved_selectNodeByCapacity [simp]: "reserved_of (snd (selectNodeByCapacity ev nodes s)) = reserved_of s"
  by (simp add: selectNodeByCapacity_def case_prod_beta)

lemma reserved_select_miss [simp]: "reserved_of (snd (select_miss ev task nodes r s)) = reserved_of s"
  by (simp add: select_miss_def case_prod_beta time_Now_def Let_def split: option.split)

lemma reserved_selectNodeForTask [simp]: "reserved_of (snd (selectNodeForTask ev task nodes s)) = reserved_of s"
  by (simp add: selectNodeForTask_def case_prod_beta time_Now_def Let_def split: option.split)

lemma reserved_upd_task [simp]: "reserved_of (upd_task t f s) = reserved_of s"
  by (cases t) (rule reserved_of_cong, simp add: upd_task_eq)

lemma reserved_record [simp]:
  "reserved_of (recordTaskTransition ev t transition new nodeID attempt err s) = reserved_of s"
  "reserved_of (recordJobTransition ev r jtransition jnew err s) = reserved_of s"
  "reserved_of (snd (claimTaskDispatchTransition ev t nodeID attempt s)) = reserved_of s"
  by (rule reserved_journal, simp)+

lemma reserved_task_pieces [simp]:
  "reserved_of (snd (claim_attempt ev t node attempt s)) = reserved_of s"
  "reserved_of (start_task ev t node s) = reserved_of s"
  "reserved_of (snd (finish_task ev t node res s)) = reserved_of s"
  "reserved_of (snd (next_attempt ev nodes w s)) = reserved_of s"
  by (simp_all add: claim_attempt_def start_task_def finish_task_def next_attempt_def Let_def case_prod_beta
      split: sum.split option.split)

text \<open>The slot a goroutine holds.\<close>

definition holds_slot :: "string \<Rightarrow> worker \<Rightarrow> bool" where
  "holds_slot n w \<longleftrightarrow>
     ni_ID (wk_node w) = n
     \<and> (case wk_pc w of PcClaim \<Rightarrow> False | PcReserve \<Rightarrow> False | PcReturn _ \<Rightarrow> False | _ \<Rightarrow> True)"

lemma next_attempt_holds [simp]: "\<not> holds_slot n (fst (next_attempt ev nodes w s))"
  by (simp add: next_attempt_def holds_slot_def case_prod_beta split: option.split)

lemma worker_step_reserved:
  assumes "of_bool (holds_slot n w) \<le> reserved_of s n"
  shows "reserved_of (snd (worker_step ev nodes m w s)) n
    = reserved_of s n + of_bool (holds_slot n (fst (worker_step ev nodes m w s))) - of_bool (holds_slot n w)"
proof (cases "wk_pc w")
  case PcClaim
  then show ?thesis
    by (simp add: worker_step_def holds_slot_def [of n w] Let_def case_prod_beta split: option.split)
       (simp add: holds_slot_def)
next
  case (PcRelease err)
  then show ?thesis
    using assms
    by (auto simp: worker_step_def holds_slot_def [of n w] Let_def release_reserved split: option.split)
       (simp_all add: holds_slot_def)
qed (simp_all add: worker_step_def holds_slot_def Let_def case_prod_beta reserve_reserved split: sum.split)


section \<open>Steps of a stage\<close>

lemma recorded_runs:
  assumes "sync s" "\<And>k. task_view (f k) = task_view k"
  shows "runs s (recordTaskTransition ev t transition new nodeID attempt err (upd_task t f s))"
proof -
  have "tk_ID (f k) = tk_ID k \<and> tk_JobID (f k) = tk_JobID k" for k using assms(2) [of k] by (simp add: task_view_def)
  then have "runs s (upd_task t f s)" by (rule upd_task_runs)
  moreover have "sync (upd_task t f s)" using assms by (simp add: sync_upd_task_unseen)
  ultimately show ?thesis by (blast intro: runs_trans recordTaskTransition_runs)
qed

lemma start_task_runs: "sync s \<Longrightarrow> runs s (start_task ev t node s)"
  unfolding start_task_def Let_def by (rule recorded_runs) (simp_all add: task_view_def)

lemma finish_task_runs:
  assumes "sync s"
  shows "runs s (snd (finish_task ev t node res s))"
proof -
  have cool: "runs s (recordTaskTransition ev t transition new nodeID attempt err
      (upd_task t f (markDispatchCooldown ev n s)))"
    if "\<And>k. task_view (f k) = task_view k" for f transition new nodeID attempt err n
    by (rule runs_trans [OF runs_capacity(3) recorded_runs]) (use assms that in simp_all)
  have blocked: "runs s (upd_task t (\<lambda>k. k\<lparr>tk_Status := JobBlocked\<rparr>) s)" by (rule upd_task_runs) simp
  show ?thesis
    using assms blocked
    by (auto simp: finish_task_def Let_def task_view_def intro!: cool recorded_runs split: sum.split)
qed

lemma next_attempt_runs: "runs s (snd (next_attempt ev nodes w s))"
  by (simp add: next_attempt_def case_prod_beta split: option.split)

text \<open>An authority the leadership provider confirmed.\<close>

definition confirmed :: "env \<Rightarrow> DispatchAuthority \<Rightarrow> bool" where
  "confirmed ev a \<longleftrightarrow>
     (\<exists>tick la. ev_authority ev tick = Inr la \<and> la_IsLeader la
        \<and> a = \<lparr>da_LeaderID = la_LeaderID la, da_Epoch = la_Epoch la, da_Scope = la_Scope la\<rparr>)"

lemma authorize_confirmed: "fst (authorize_task ev s) = Inr a \<Longrightarrow> confirmed ev a"
  by (auto simp: authorize_task_def dispatchAuthority_def confirmed_def split: sum.splits if_splits)

definition worker_ok :: "env \<Rightarrow> Scheduler \<Rightarrow> worker \<Rightarrow> bool" where
  "worker_ok ev s w \<longleftrightarrow>
     live s (wk_task w)
     \<and> (in_flight w \<longrightarrow> claimed s (wk_task w) (wk_node w) (wk_attempt w))
     \<and> (\<forall>a. wk_pc w = PcCall a \<longrightarrow> confirmed ev a)"

lemma worker_ok_runs: "runs s s' \<Longrightarrow> worker_ok ev s w \<Longrightarrow> worker_ok ev s' w"
  using claimed_runs live_executes [OF runs_frame(1)] by (auto simp: worker_ok_def live_def)

lemma worker_step_runs:
  assumes "sync s" "live s (wk_task w)"
  shows "runs s (snd (worker_step ev nodes n w s))"
proof (cases "wk_pc w")
  case PcClaim
  obtain res s1 where c: "claim_attempt ev (wk_task w) (wk_node w) (wk_attempt w) s = (res, s1)" by fastforce
  have r: "runs s s1" using claim_attempt_runs [OF assms c] by blast
  then show ?thesis
    using PcClaim c runs_trans [OF r next_attempt_runs] by (auto simp: worker_step_def split: option.split)
next
  case (PcRelease err)
  then show ?thesis
    using runs_trans [OF runs_capacity(2) next_attempt_runs]
    by (auto simp: worker_step_def Let_def split: option.split)
qed (use start_task_runs [OF assms(1)] finish_task_runs [OF assms(1)]
    in \<open>simp_all add: worker_step_def Let_def case_prod_beta split: sum.split\<close>)

lemma next_attempt_ok:
  assumes "live s (wk_task w)"
  shows "worker_ok ev s' (fst (next_attempt ev nodes w s)) \<longleftrightarrow> live s' (wk_task w)"
  using assms by (simp add: next_attempt_def worker_ok_def in_flight_def case_prod_beta split: option.split)

lemma worker_step_ok:
  assumes "sync s" "worker_ok ev s w"
  shows "worker_ok ev (snd (worker_step ev nodes n w s)) (fst (worker_step ev nodes n w s))"
proof -
  have live: "live s (wk_task w)" using assms(2) by (simp add: worker_ok_def)
  define s' where "s' = snd (worker_step ev nodes n w s)"
  have r: "runs s s'" unfolding s'_def by (rule worker_step_runs [OF assms(1) live])
  have live': "live s' (wk_task w)" using live_executes [OF runs_frame(1) [OF r]] live by simp
  have kept: "claimed s' (wk_task w) (wk_node w) (wk_attempt w)" if "in_flight w"
    using worker_ok_runs [OF r assms(2)] that by (simp add: worker_ok_def)
  have new: "claimed s' (wk_task w) (wk_node w) (wk_attempt w)"
    if "claim_attempt ev (wk_task w) (wk_node w) (wk_attempt w) s = (None, s')"
    using claim_attempt_runs [OF assms(1) live that] by blast
  have "worker_ok ev s' (fst (worker_step ev nodes n w s))"
  proof (cases "wk_pc w")
    case PcClaim
    obtain res s1 where c: "claim_attempt ev (wk_task w) (wk_node w) (wk_attempt w) s = (res, s1)" by fastforce
    have "live s1 (wk_task w)"
      using claim_attempt_runs [OF assms(1) live c] live live_executes runs_frame(1) by blast
    moreover have "s1 = s'" if "res = None" "\<not> n < wk_attempt w"
      using that PcClaim c by (simp add: s'_def worker_step_def)
    ultimately show ?thesis
      using PcClaim c live' new next_attempt_ok [of s1 w]
      by (auto simp: worker_step_def worker_ok_def in_flight_def split: option.split)
  next
    case (PcRelease err)
    then show ?thesis
      using live' next_attempt_ok [of "releaseNodeSlot ev (ni_ID (wk_node w)) s" w]
        live live_executes [OF runs_frame(1) [OF runs_capacity(2)]]
      by (auto simp: worker_step_def Let_def worker_ok_def in_flight_def split: option.split)
  next
    case PcAuthorize
    then show ?thesis
      using live' kept authorize_confirmed
      by (auto simp: worker_step_def Let_def case_prod_beta worker_ok_def in_flight_def split: sum.split)
  qed (use live' kept in \<open>simp_all add: worker_step_def Let_def case_prod_beta worker_ok_def in_flight_def\<close>)
  then show ?thesis by (simp add: s'_def)
qed


definition slots :: "stage_run \<Rightarrow> string \<Rightarrow> nat" where
  "slots sr n = length (filter (\<lambda>g. holds_slot n (go_worker g)) (sr_goroutines sr))"

text \<open>Every goroutine has its dispatch in the journal, and the reservations are the slots in use.\<close>

definition stage_ok :: "env \<Rightarrow> stage_run \<Rightarrow> Scheduler \<Rightarrow> bool" where
  "stage_ok ev sr s \<longleftrightarrow>
     (\<forall>t \<in> set (sr_todo sr). live s t)
     \<and> (\<forall>g \<in> set (sr_goroutines sr). worker_ok ev s (go_worker g) \<and> (go_done g \<longrightarrow> returned (go_worker g)))
     \<and> (\<forall>n. reserved_of s n = int (slots sr n))"

lemma stage_ok_runs:
  assumes "runs s s'" "stage_ok ev sr s" "reserved_of s' = reserved_of s"
  shows "stage_ok ev sr s'"
  using assms worker_ok_runs [OF assms(1)] live_executes [OF runs_frame(1) [OF assms(1)]]
  by (simp add: stage_ok_def)

lemma main_step_runs:
  "runs s (snd (main_step ev sr s)) \<and> reserved_of (snd (main_step ev sr s)) = reserved_of s"
  using runs_trans [OF runs_tick runs_capacity(4)]
  by (simp add: main_step_def read_ctx_def GetHealthyNodes_def Let_def case_prod_beta
      split: list.split stage_pc.split option.split deferral_event.split)

lemma main_step_goroutines:
  "set (sr_todo (fst (main_step ev sr s))) \<subseteq> set (sr_todo sr)
   \<and> (sr_goroutines (fst (main_step ev sr s)) = sr_goroutines sr
      \<or> (\<exists>t \<in> set (sr_todo sr). \<exists>node. sr_goroutines (fst (main_step ev sr s))
           = sr_goroutines sr @ [\<lparr>go_worker = new_worker t node, go_done = False\<rparr>]))"
  by (auto simp: main_step_def Let_def case_prod_beta spawn_def stop_selecting_def
      split: list.split stage_pc.split option.split deferral_event.split)

lemma main_step_ok:
  assumes "stage_ok ev sr s"
  shows "stage_ok ev (fst (main_step ev sr s)) (snd (main_step ev sr s))"
proof -
  have old: "stage_ok ev sr (snd (main_step ev sr s))"
    using stage_ok_runs assms main_step_runs by blast
  have new: "worker_ok ev s' (new_worker t node)" if "live s' t" for t node s'
    using that by (simp add: worker_ok_def new_worker_def in_flight_def)
  have none: "\<not> holds_slot n (new_worker t node)" for n t node by (simp add: holds_slot_def new_worker_def)
  show ?thesis
    using old main_step_goroutines [of ev sr s] new none
    unfolding stage_ok_def slots_def by (elim conjE disjE) auto
qed

lemma goroutine_step_cases:
  assumes "goroutine_step ev nodes g s = (g', errs, s')"
  obtains (step) "\<not> returned (go_worker g)" "\<not> go_done g'" "go_worker g' = fst (worker_step ev nodes (max_attempts s) (go_worker g) s)"
      "s' = snd (worker_step ev nodes (max_attempts s) (go_worker g) s)"
  | (rest) "go_worker g' = go_worker g" "s' = s \<or> s' = step_tick s" "go_done g \<or> returned (go_worker g)"
proof (cases "go_done g \<or> returned (go_worker g)")
  case True
  have "go_worker g' = go_worker g \<and> (s' = s \<or> s' = step_tick s)"
  proof (cases "go_done g")
    case False
    then obtain e where "wk_pc (go_worker g) = PcReturn e"
      using True by (auto simp: returned_def split: task_pc.splits)
    then show ?thesis using assms False by (cases e) (auto simp: goroutine_step_def)
  qed (use assms in \<open>simp add: goroutine_step_def\<close>)
  then show ?thesis using rest True by blast
next
  case False
  then have "goroutine_step ev nodes g s =
      (let (w, s) = worker_step ev nodes (max_attempts s) (go_worker g) s in (g\<lparr>go_worker := w\<rparr>, [], s))"
    by (cases "wk_pc (go_worker g)") (simp_all add: goroutine_step_def returned_def)
  then show ?thesis using False assms step by (auto simp: case_prod_beta)
qed

lemma slots_update:
  assumes "i < length gs"
  shows "int (length (filter P (gs[i := g]))) = int (length (filter P gs)) + of_bool (P g) - of_bool (P (gs ! i))"
proof -
  have gs: "gs = take i gs @ gs ! i # drop (Suc i) gs" using assms by (rule id_take_nth_drop)
  have "gs[i := g] = take i gs @ g # drop (Suc i) gs" using assms by (rule upd_conv_take_nth_drop)
  moreover have "length (filter P gs) = length (filter P (take i gs @ gs ! i # drop (Suc i) gs))"
    using gs by simp
  ultimately show ?thesis by simp
qed

lemma goroutine_move_ok:
  assumes "sync s" "stage_ok ev sr s" "i < length (sr_goroutines sr)"
    and "goroutine_step ev nodes (sr_goroutines sr ! i) s = (g, errs, s')"
  shows "runs s s'" "stage_ok ev (sr\<lparr>sr_goroutines := (sr_goroutines sr)[i := g], sr_errChan := e\<rparr>) s'"
proof -
  let ?g = "sr_goroutines sr ! i"
  have mem: "?g \<in> set (sr_goroutines sr)" using assms(3) by simp
  have ok: "worker_ok ev s (go_worker ?g)" using assms(2) mem by (simp add: stage_ok_def)
  have bound: "of_bool (holds_slot n (go_worker ?g)) \<le> reserved_of s n" for n
    using assms(2) mem
    by (auto simp: stage_ok_def slots_def Suc_le_eq length_greater_0_conv filter_empty_conv)
  have fin: "go_done ?g \<longrightarrow> returned (go_worker ?g)" using assms(2) mem by (simp add: stage_ok_def)
  have step: "runs s s' \<and> worker_ok ev s' (go_worker g) \<and> (go_done g \<longrightarrow> returned (go_worker g))
    \<and> (\<forall>n. reserved_of s' n = reserved_of s n + of_bool (holds_slot n (go_worker g)) - of_bool (holds_slot n (go_worker ?g)))"
    using assms(4)
  proof (cases rule: goroutine_step_cases)
    case step
    then show ?thesis
      using worker_step_runs [OF assms(1)] worker_step_ok [OF assms(1) ok] worker_step_reserved [OF bound] ok
      by (simp add: worker_ok_def)
  next
    case rest
    then show ?thesis using ok worker_ok_runs [OF runs_tick] fin by auto
  qed
  then show r: "runs s s'" by blast
  have "worker_ok ev s' (go_worker h) \<and> (go_done h \<longrightarrow> returned (go_worker h))"
    if "h \<in> set ((sr_goroutines sr)[i := g])" for h
    using that step assms(2) worker_ok_runs [OF r]
    by (auto simp: stage_ok_def dest!: set_mp [OF set_update_subset_insert])
  moreover have "live s' t" if "t \<in> set (sr_todo sr)" for t
    using that assms(2) live_executes [OF runs_frame(1) [OF r]] by (simp add: stage_ok_def)
  ultimately show "stage_ok ev (sr\<lparr>sr_goroutines := (sr_goroutines sr)[i := g], sr_errChan := e\<rparr>) s'"
    using assms(2,3) step slots_update [OF assms(3), of "\<lambda>g. holds_slot _ (go_worker g)"]
    by (simp add: stage_ok_def slots_def)
qed

lemma stage_step_safe:
  assumes "sync s" "stage_ok ev sr s"
  shows "runs s (snd (stage_step ev j sr s))" "sync (snd (stage_step ev j sr s))"
    "stage_ok ev (fst (stage_step ev j sr s)) (snd (stage_step ev j sr s))"
proof -
  have "stage_live sr s" using assms(2) by (auto simp: stage_live_def stage_ok_def worker_ok_def)
  then show "sync (snd (stage_step ev j sr s))" using stage_step_ok(1) [OF assms(1)] by blast
  have "runs s (snd (stage_step ev j sr s))
    \<and> stage_ok ev (fst (stage_step ev j sr s)) (snd (stage_step ev j sr s))"
  proof (cases j)
    case 0
    then show ?thesis using main_step_ok main_step_runs assms(2) by simp
  next
    case (Suc i)
    obtain g errs s' where g: "goroutine_step ev (sr_nodes sr) (sr_goroutines sr ! i) s = (g, errs, s')"
      by (metis prod_cases3)
    then show ?thesis using Suc goroutine_move_ok [OF assms _ g] assms(2) by simp
  qed
  then show "runs s (snd (stage_step ev j sr s))"
    "stage_ok ev (fst (stage_step ev j sr s)) (snd (stage_step ev j sr s))" by blast+
qed

end
