(* ===== verification/Clients.thy ===== *)
theory Clients
  imports Run_Safety
begin

text \<open>
  What clients of the scheduler do while a job runs: submitting and looking up jobs, the retention
  cleanup and capacity reports. Each of them keeps the journal invariant and the queue, lets the
  logs grow, and leaves the registered jobs that are not terminal as they are (\<open>beside\<close>).
\<close>

section \<open>Activity beside a running job\<close>

text \<open>Logs grow, and the jobs that are registered and not terminal stay as they are.\<close>

definition beside :: "Scheduler \<Rightarrow> Scheduler \<Rightarrow> bool" where
  "beside s s' \<longleftrightarrow>
     grows s s' \<and> reserved_of s' = reserved_of s
     \<and> (\<forall>r. registered s r \<longrightarrow> open_job s r \<longrightarrow> registered s' r \<and> deref s' r = deref s r)"

lemma beside_refl [simp, intro!]: "beside s s"
  by (simp add: beside_def)

lemma beside_trans:
  assumes "beside s s'" "beside s' s''"
  shows "beside s s''"
proof -
  have "grows s s''" "reserved_of s'' = reserved_of s"
    using assms grows_trans by (auto simp: beside_def)
  moreover have "registered s'' r \<and> deref s'' r = deref s r" if "registered s r" "open_job s r" for r
  proof -
    have 1: "registered s' r" "deref s' r = deref s r" using assms(1) that by (simp_all add: beside_def)
    then have "open_job s' r" using that(2) by (simp add: open_job_def)
    with 1 show ?thesis using assms(2) by (simp add: beside_def)
  qed
  ultimately show ?thesis by (simp add: beside_def)
qed

lemma besideD:
  assumes "beside s s'" "registered s r" "open_job s r"
  shows "registered s' r" "deref s' r = deref s r" "open_job s' r"
  using assms by (simp_all add: beside_def open_job_def)

lemma only_registers_beside: 
  assumes "only_registers s s'"
  shows "beside s s'"
proof -
  note f = only_registers_frame [OF assms]
  have "sc_nodeCapacity s' = sc_nodeCapacity s"
    using assms by (cases s; cases s') (simp add: only_registers_def)
  then have "reserved_of s' = reserved_of s" by (rule reserved_of_cong)
  moreover have "log_of s' = log_of s" using f(1) by (simp add: log_of_def fun_eq_iff)
  moreover have "registered s' r \<and> deref s' r = deref s r" if "registered s r" for r
    using that f(5) registered_mono [OF assms] by (simp add: registered_def)
  ultimately show ?thesis by (simp add: beside_def grows_same)
qed

lemma same_jobs_beside:
  assumes "sc_jobs s' = sc_jobs s" "sc_next s' = sc_next s" "deref s' = deref s"
    and "log_of s' = log_of s" "reserved_of s' = reserved_of s"
  shows "beside s s'"
  using assms by (simp add: beside_def grows_same registered_def)

lemma live_registered: "sync s \<Longrightarrow> live s t \<Longrightarrow> registered s (fst t)"
  using syncD(4) by (auto simp: live_def registered_def)

lemma worker_ok_beside:
  assumes "beside s s'" "sync s" "open_job s (fst (wk_task w))" "worker_ok ev s w"
  shows "worker_ok ev s' w"
proof -
  obtain r i k where t: "wk_task w = (r, i, k)" by (rule prod_cases3)
  have live: "live s (r, i, k)" using assms(4) by (simp add: worker_ok_def t)
  note d = besideD [OF assms(1) live_registered [OF assms(2) live]]
  have dr: "deref s' r = deref s r" "registered s' r" using d assms(3) by (simp_all add: t)
  then have "live s' (r, i, k)" using live by (simp add: live_def task_ok.simps registered_def)
  moreover have "set (log_of s (jb_ID (deref s r))) \<subseteq> set (log_of s' (jb_ID (deref s r)))"
    using assms(1) grows_set by (simp add: beside_def)
  then have "claimed s' (r, i, k) (wk_node w) (wk_attempt w)" if "claimed s (r, i, k) (wk_node w) (wk_attempt w)"
    using that dr(1) unfolding claimed_def by (auto simp: get_task.simps)
  ultimately show ?thesis using assms(4) by (simp add: worker_ok_def t)
qed

text \<open>Recording for one job leaves the others alone.\<close>

definition touches :: "job_ref \<Rightarrow> Scheduler \<Rightarrow> Scheduler \<Rightarrow> bool" where
  "touches r s s' \<longleftrightarrow>
     (\<forall>r'. r' \<noteq> r \<longrightarrow> deref s' r' = deref s r') \<and> grows s s' \<and> (open_job s r \<longrightarrow> open_job s' r)"

lemma touches_refl [simp, intro!]: "touches r s s"
  by (simp add: touches_def)

lemma touches_trans: "touches r s s' \<Longrightarrow> touches r s' s'' \<Longrightarrow> touches r s s''"
  by (auto simp: touches_def intro: grows_trans)

lemma only_records_touches: "only_records s s' \<Longrightarrow> grows s s' \<Longrightarrow> touches r s s'"
  using only_records_frame(2) [of s s'] by (simp add: touches_def open_job_def)

lemma upd_task_touches: "touches r s (upd_task (r, i, k) f s)"
  by (simp add: touches_def upd_task_eq open_job_def)

lemma recordJobTransition_touches:
  assumes "sync s" "\<not> IsTerminalJobState new"
  shows "touches r s (recordJobTransition ev r transition new err s)"
proof -
  obtain s1 where "only_records s s1" "grows s s1" and
    eq: "recordJobTransition ev r transition new err s
      \<in> {s1, upd_job r (\<lambda>j. j\<lparr>jb_LifecycleState := new\<rparr>) s1}"
    using recordJobTransition_effect [OF sync_durable_ok [OF assms(1)]] by blast
  then have "touches r s s1" by (blast intro: only_records_touches)
  moreover have "touches r s1 (upd_job r (\<lambda>j. j\<lparr>jb_LifecycleState := new\<rparr>) s1)"
    using assms(2) by (simp add: touches_def open_job_def)
  ultimately show ?thesis using eq by (auto intro: touches_trans)
qed

lemma recordTaskTransition_touches:
  assumes "sync s"
  shows "touches r s (recordTaskTransition ev (r, i, k) transition new nodeID attempt err s)"
proof -
  obtain s1 where "only_records s s1" "grows s s1" and
    eq: "recordTaskTransition ev (r, i, k) transition new nodeID attempt err s
      \<in> {s1, upd_task (r, i, k) (\<lambda>k. k\<lparr>tk_LifecycleState := new\<rparr>) s1}"
    using recordTaskTransition_effect [OF sync_durable_ok [OF assms]] by blast
  then have "touches r s s1" by (blast intro: only_records_touches)
  then show ?thesis using eq touches_trans [OF _ upd_task_touches] by auto
qed


lemma record_initial_task_touches:
  assumes "sync s" "mget (sc_jobs s) jobID = Some r" "task_ok s (r, i, k)"
  shows "touches r s (record_initial_task ev r i k s)"
  unfolding record_initial_task_def Let_def
  by (rule touches_trans [OF upd_task_touches recordTaskTransition_touches [OF attach_task_sync [OF assms]]])

lemma record_initial_tasks_touches:
  assumes "sync s" "mget (sc_jobs s) jobID = Some r" "\<forall>t \<in> set ts. fst t = r \<and> task_ok s t"
  shows "touches r s (record_initial_tasks ev ts s) \<and> sync (record_initial_tasks ev ts s)"
  using assms
proof (induction ts arbitrary: s)
  case (Cons t ts)
  obtain i k where t: "t = (r, i, k)" using Cons.prems(3) by (cases t) auto
  let ?s = "record_initial_task ev r i k s"
  have ok: "task_ok s (r, i, k)" using Cons.prems(3) t by simp
  have "sc_jobs ?s = sc_jobs s" "task_ok ?s x = task_ok s x" for x
    using only_journal_frame(1,11) [OF record_initial_task_frame] by simp_all
  then have "touches r ?s (record_initial_tasks ev ts ?s) \<and> sync (record_initial_tasks ev ts ?s)"
    by (intro Cons.IH) (use Cons.prems ok record_initial_task_sync [OF Cons.prems(1,2) ok] in auto)
  then show ?case
    unfolding t record_initial_tasks.simps
    using touches_trans [OF record_initial_task_touches [OF Cons.prems(1,2) ok]] by blast
qed simp

lemma recordInitialTransitions_touches:
  assumes "sync s" "mget (sc_jobs s) jobID = Some r"
  shows "touches r s (recordInitialTransitions ev r s)"
proof -
  define s1 where "s1 = recordJobTransition ev r TransitionJobSubmitted JobStateSubmitted '''' s"
  define s2 where "s2 = record_initial_tasks ev (task_refs r (deref s1 r)) s1"
  have 1: "touches r s s1" unfolding s1_def by (rule recordJobTransition_touches [OF assms(1)]) simp
  have s1: "sync s1" "mget (sc_jobs s1) jobID = Some r"
    using recordJobTransition_sync [OF assms] assms(2) only_journal_frame(1) [OF recordJobTransition_frame]
    by (simp_all add: s1_def)
  have 2: "touches r s1 s2 \<and> sync s2"
    unfolding s2_def by (rule record_initial_tasks_touches [OF s1]) (auto simp: task_refs_def task_ok.simps)
  then have "touches r s2 (recordJobTransition ev r TransitionJobQueued JobStateQueued '''' s2)"
    by (intro recordJobTransition_touches) simp_all
  then show ?thesis
    using touches_trans [OF touches_trans [OF 1]] 2
    unfolding recordInitialTransitions_def Let_def s1_def [symmetric] s2_def [symmetric] by blast
qed

section \<open>Clients\<close>

text \<open>A client hands in a new job.\<close>

definition submit_new :: "env \<Rightarrow> Job \<Rightarrow> Scheduler \<Rightarrow> go_error option \<times> Scheduler" where
  "submit_new ev job s = (let (r, s) = alloc_job job s in SubmitJobWithContext ev r s)"

definition new_job :: "Job \<Rightarrow> Scheduler \<Rightarrow> bool" where
  "new_job job s \<longleftrightarrow>
     jb_LifecycleState job = JobStateSubmitted \<and> job_synced [] job \<and> log_of s (jb_ID job) = []"

definition queued_ok :: "Scheduler \<Rightarrow> bool" where
  "queued_ok s \<longleftrightarrow>
     queue_ok s \<and> 0 \<le> sc_pendingEnqueue s \<and> wf_map (sc_jobs s)
     \<and> (\<forall>r \<in> set (sc_jobQueue s). registered s r \<and> open_job s r)"

lemma alloc_job_ok:
  assumes "alloc_job job s = (r, s1)" "sync s"
  shows "r = sc_next s" "only_registers s s1" "sync s1" "deref s1 r = job" "sc_jobs s1 = sc_jobs s"
    "sc_jobQueue s1 = sc_jobQueue s" "sc_pendingEnqueue s1 = sc_pendingEnqueue s" "log_of s1 = log_of s"
    "r < sc_next s1"
proof -
  have s1: "s1 = s\<lparr>sc_heap := mput (sc_next s) job (sc_heap s), sc_next := Suc (sc_next s)\<rparr>" and r: "r = sc_next s"
    using assms(1) by (auto simp: alloc_job_def)
  show "r = sc_next s" "deref s1 r = job" "sc_jobs s1 = sc_jobs s" "sc_jobQueue s1 = sc_jobQueue s"
    "sc_pendingEnqueue s1 = sc_pendingEnqueue s" "r < sc_next s1"
    by (simp_all add: s1 r deref_def)
  show fr: "only_registers s s1" by (simp add: only_registers_def s1 deref_def)
  note d = durable_cong [of s1 s]
  have c: "log_of s1 = log_of s" "durable_ok s1 = durable_ok s" "seq_covered s1 = seq_covered s"
    by (rule d; simp add: s1)+
  then show "log_of s1 = log_of s" by simp
  show "sync s1"
    using assms(2) syncD(4) [OF assms(2)] unfolding sync_def c
    by (auto simp: s1 deref_def less_Suc_eq)
qed


lemma submit_frame:
  assumes "sync s" "fresh_job s r" "SubmitJobWithContext ev r s = (None, s')"
  shows "touches r s s'" "sc_jobs s' = mput (jb_ID (deref s r)) r (sc_jobs s)" "sc_next s' = sc_next s"
    "reserved_of s' = reserved_of s" "jb_ID (deref s' r) = jb_ID (deref s r)"
    "mget (sc_jobs s) (jb_ID (deref s r)) = None"
proof -
  define s1 where "s1 = snd (submit_reserve r s)"
  obtain e where e: "submit_reserve r s = (e, s1)" unfolding s1_def by (metis prod.collapse)
  have none: "e = None" using assms(3) e by (cases e) (simp_all add: SubmitJobWithContext_def)
  note ok = submit_reserve_sync [OF assms(1,2) e [unfolded none]]
  define s2 where "s2 = recordInitialTransitions ev r s1"
  have s': "s' = snd (submit_finish r s2)"
    using assms(3) e none by (simp add: SubmitJobWithContext_def s2_def)
  note q = only_queue_frame [OF submit_finish_only_queue [of s2 r], folded s']
  note j = only_journal_frame [OF recordInitialTransitions_frame [of s1 ev r], folded s2_def]
  have acc: "mget (sc_jobs s) (jb_ID (deref s r)) = None"
    "s1 = (upd_job r (\<lambda>j. j\<lparr>jb_Status := JobPending\<rparr>) s)
       \<lparr>sc_pendingEnqueue := sc_pendingEnqueue s + 1, sc_jobs := mput (jb_ID (deref s r)) r (sc_jobs s)\<rparr>"
    using e none by (cases rule: submit_reserve_cases, simp, simp)+
  have d: "deref s1 x = (if x = r then (deref s r)\<lparr>jb_Status := JobPending\<rparr> else deref s x)" for x
    by (simp add: acc(2) deref_def upd_job_def)
  have "log_of s1 = log_of s" by (simp add: acc(2) log_of_def fun_eq_iff)
  then have 1: "touches r s s1" by (simp add: touches_def d grows_same open_job_def)
  have 2: "touches r s1 s2" unfolding s2_def by (rule recordInitialTransitions_touches [OF ok])
  have "log_of s' = log_of s2" using q(3) by (simp add: log_of_def fun_eq_iff)
  then have 3: "touches r s2 s'" by (simp add: touches_def q(1) grows_same open_job_def)
  show "touches r s s'" using 1 2 3 by (blast intro: touches_trans)
  show "sc_jobs s' = mput (jb_ID (deref s r)) r (sc_jobs s)" "sc_next s' = sc_next s"
    "jb_ID (deref s' r) = jb_ID (deref s r)" "mget (sc_jobs s) (jb_ID (deref s r)) = None"
    using acc(1) by (simp_all add: q j d) (simp_all add: acc(2))
  have "sc_nodeCapacity s' = sc_nodeCapacity s2"
    using submit_finish_only_queue [of s2 r, folded s'] by (cases s2; cases s') (simp add: only_queue_def)
  then have "sc_nodeCapacity s' = sc_nodeCapacity s" by (simp add: j) (simp add: acc(2))
  then show "reserved_of s' = reserved_of s" by (rule reserved_of_cong)
qed

text \<open>What every activity of a client keeps, with the references that are not queued.\<close>

definition client_ok :: "Scheduler \<Rightarrow> Scheduler \<Rightarrow> bool" where
  "client_ok s s' \<longleftrightarrow>
     sync s' \<and> queued_ok s' \<and> beside s s' \<and> (\<forall>r < sc_next s. r \<in> set (sc_jobQueue s') \<longrightarrow> r \<in> set (sc_jobQueue s))"

lemma same_queue_client_ok:
  assumes "sync s" "queued_ok s" "sync s'" "beside s s'" "wf_map (sc_jobs s')" "queue_ok s'"
    and "sc_jobQueue s' = sc_jobQueue s" "sc_pendingEnqueue s' = sc_pendingEnqueue s"
  shows "client_ok s s'"
  using assms besideD [OF assms(4)] by (auto simp: client_ok_def queued_ok_def)

lemma queued_live: "queued_ok s \<Longrightarrow> queue_live s"
  by (simp add: queued_ok_def queue_live_def registered_def)

lemma only_registers_client_ok:
  assumes "sync s" "queued_ok s" "sync s'" "only_registers s s'" "wf_map (sc_jobs s')"
  shows "client_ok s s'"
proof (rule same_queue_client_ok [OF assms(1-3) only_registers_beside [OF assms(4)] assms(5)])
  show "queue_ok s'"
    using only_registers_queue(2) [OF assms(4) queued_live [OF assms(2)]] assms(2) by (simp add: queued_ok_def)
  show "sc_jobQueue s' = sc_jobQueue s" using only_registers_frame(2) [OF assms(4)] .
  show "sc_pendingEnqueue s' = sc_pendingEnqueue s"
    using assms(4) by (cases s; cases s') (simp add: only_registers_def)
qed

lemma submit_beside:
  assumes "sync s" "fresh_job s r" "SubmitJobWithContext ev r s = (None, s')"
  shows "beside s s'"
proof -
  note f = submit_frame [OF assms]
  have "registered s' x \<and> deref s' x = deref s x" if "registered s x" for x
  proof -
    have "x \<noteq> r" using that f(6) by (auto simp: registered_def)
    then show ?thesis using that f by (auto simp: registered_def touches_def)
  qed
  then show ?thesis using f(1,4) by (simp add: beside_def touches_def)
qed

lemma submit_new_ok:
  assumes "sync s" "queued_ok s" "new_job job s"
  shows "client_ok s (snd (submit_new ev job s))"
proof -
  obtain r s1 where a: "alloc_job job s = (r, s1)" by fastforce
  note al = alloc_job_ok [OF a assms(1)]
  have c1: "client_ok s s1"
    by (rule only_registers_client_ok [OF assms(1,2) al(3,2)]) (use assms(2) al(5) in \<open>simp add: queued_ok_def\<close>)
  then have q1: "queued_ok s1" by (simp add: client_ok_def)
  have fresh: "fresh_job s1 r" using assms(3) al by (simp add: fresh_job_def new_job_def)
  obtain err s' where sub: "SubmitJobWithContext ev r s1 = (err, s')" by fastforce
  have eq: "snd (submit_new ev job s) = s'" by (simp add: submit_new_def a sub)
  have q: "queue_ok s1" "0 \<le> sc_pendingEnqueue s1" using q1 by (simp_all add: queued_ok_def)
  note out = SubmitJobWithContext_cases [OF al(3) q(1) fresh q(2) sub]
  show ?thesis
  proof (cases err)
    case (Some e)
    then show ?thesis using out c1 eq by simp
  next
    case None
    note f = submit_frame [OF al(3) fresh sub [unfolded None]]
    have "open_job s1 r" using assms(3) al(4) by (simp add: new_job_def open_job_def)
    then have r: "registered s' r" "open_job s' r" using f al(9) by (simp_all add: registered_def touches_def)
    have b: "beside s1 s'" by (rule submit_beside [OF al(3) fresh sub [unfolded None]])
    have "wf_map (sc_jobs s')" using f(2) q1 by (simp add: queued_ok_def wf_map_mput)
    moreover have "\<forall>x \<in> set (sc_jobQueue s'). x \<in> set (sc_jobQueue s) \<or> x = r"
      using out None al(6) by auto
    ultimately show ?thesis
      unfolding eq client_ok_def queued_ok_def
      using out c1 q1 r besideD [OF b] beside_trans [OF _ b] al(1,6) None
      by (auto simp: client_ok_def queued_ok_def)
  qed
qed


lemma installed_registers:
  assumes "mget (sc_jobs s) jobID = None" "install_hydrated jobID r job s = (ref, s')"
  shows "only_registers s s'" "wf_map (sc_jobs s) \<Longrightarrow> wf_map (sc_jobs s')"
proof -
  define s1 where "s1 = s\<lparr>sc_heap := mput (sc_next s) job (sc_heap s), sc_next := Suc (sc_next s),
    sc_jobs := mput jobID (sc_next s) (sc_jobs s)\<rparr>"
  obtain x where sd: "seedJobSequenceLocked jobID (dj_LastSequenceID (rs_Job r)) (rs_Transitions r) s1 = (x, s')"
    using assms by (auto simp: install_hydrated_def alloc_job_def s1_def) (metis prod.collapse)
  have "only_registers s s1" using assms(1) by (auto simp: only_registers_def s1_def deref_def)
  then show "only_registers s s'" using seed_only_registers(1) [OF sd] only_registers_trans by blast
  show "wf_map (sc_jobs s) \<Longrightarrow> wf_map (sc_jobs s')"
    using seed_only_registers(2) [OF sd] by (simp add: s1_def)
qed

lemma getJobPointer_registers:
  "only_registers s (snd (getJobPointer ev jobID s))
   \<and> (wf_map (sc_jobs s) \<longrightarrow> wf_map (sc_jobs (snd (getJobPointer ev jobID s))))"
proof (cases "mget (sc_jobs s) jobID")
  case None
  have "only_registers s s' \<and> (wf_map (sc_jobs s) \<longrightarrow> wf_map (sc_jobs s'))"
    if "install_hydrated jobID r job (step_tick (step_tick s)) = (ref, s')" for r job ref s'
    using installed_registers [OF _ that] None only_registers_trans [OF only_registers_trans] by fastforce
  then show ?thesis
    using None by (simp add: getJobPointer_def replay_now_def Let_def split: sum.split prod.split)
qed (simp add: getJobPointer_def)

lemma getJobPointer_client_ok:
  assumes "sync s" "queued_ok s"
  shows "client_ok s (snd (getJobPointer ev jobID s))"
  using getJobPointer_registers [of s ev jobID] getJobPointer_ok [OF assms(1) prod.collapse [symmetric]] assms(2)
  by (intro only_registers_client_ok [OF assms]) (auto simp: queued_ok_def)

lemma UpdateNodeCapacityAt_client_ok:
  assumes "sync s" "queued_ok s"
  shows "client_ok s (UpdateNodeCapacityAt ev n i m at s)"
proof -
  let ?s = "UpdateNodeCapacityAt ev n i m at s"
  note fr = only_capacity_selection [OF reserve_release_frame(3) [of s ev n i m at]]
  note f = only_selection_frame [OF fr]
  have "reserved_of ?s = reserved_of s"
    by (auto simp: fun_eq_iff reserved_of_def UpdateNodeCapacityAt_def getOrCreateNodeCapacityLocked_def
        time_Now_def Let_def split: option.split)
  then have "beside s ?s" by (intro same_jobs_beside) (use f only_selection_task(2) [OF fr] in simp_all)
  moreover have "queue_ok ?s" using assms(2) by (simp add: queued_ok_def queue_ok_def queue_cap_def f)
  ultimately show ?thesis
    using assms only_selection_sync [OF fr] f by (intro same_queue_client_ok) (simp_all add: queued_ok_def)
qed

lemma cleanup_client_ok:
  assumes "sync s" "queued_ok s"
  shows "client_ok s (snd (cleanupTerminalJobsOnce now s))"
proof (cases "cf_JobRetentionTTL (sc_config s) \<le> 0")
  case True
  then show ?thesis using assms by (simp add: cleanupTerminalJobsOnce_def client_ok_def)
next
  case False
  obtain n s' where c: "cleanupTerminalJobsOnce now s = (n, s')" by fastforce
  define cut where "cut = now - cf_JobRetentionTTL (sc_config s)"
  have f: "fold (prune_job cut) (sc_jobs s) (0, s) = (n, s')"
    using c False by (simp add: cleanupTerminalJobsOnce_def cut_def)
  note p = prune_fold [OF f] and ok = cleanupTerminalJobsOnce_ok [OF assms(1) c]
  have wf: "wf_map (sc_jobs s)" using assms(2) by (simp add: queued_ok_def)
  have d: "deref s' = deref s" using ok(3) by (simp add: deref_def fun_eq_iff)
  have kept: "\<not> (\<exists>x. (jb_ID (deref s r), x) \<in> set (sc_jobs s) \<and> expired cut s x)"
    if "registered s r" "open_job s r" for r
  proof
    assume "\<exists>x. (jb_ID (deref s r), x) \<in> set (sc_jobs s) \<and> expired cut s x"
    then obtain x where "(jb_ID (deref s r), x) \<in> set (sc_jobs s)" "expired cut s x" by blast
    moreover from this(1) have "mget (sc_jobs s) (jb_ID (deref s r)) = Some x" by (simp only: wf_map_mget_iff [OF wf])
    ultimately show False using that by (simp add: registered_def expired_def open_job_def)
  qed
  have "registered s' r \<and> deref s' r = deref s r" if "registered s r" "open_job s r" for r
    using kept [OF that] that p(2) ok(4) by (simp add: registered_def d)
  moreover have "sc_nodeCapacity s' = sc_nodeCapacity s" by (subst p(1)) simp
  then have "reserved_of s' = reserved_of s" by (rule reserved_of_cong)
  moreover have "log_of s' = log_of s" using ok(2) by (simp add: log_of_def fun_eq_iff)
  ultimately have b: "beside s s'" by (simp add: beside_def grows_same)
  have "mget (sc_queuedJobs s') j = None \<longleftrightarrow> mget (sc_queuedJobs s) j = None" for j
  proof (cases "mget (sc_queuedJobs s) j")
    case (Some u)
    have "j \<in> (\<lambda>r. jb_ID (deref s r)) ` set (sc_jobQueue s)"
      using assms(2) Some queue_ok_mirror [of s j] by (simp add: queued_ok_def)
    then obtain r where "r \<in> set (sc_jobQueue s)" "jb_ID (deref s r) = j" by blast
    then show ?thesis using kept [of r] assms(2) p(4) [of j] Some by (simp add: queued_ok_def)
  qed (simp add: p(4))
  then have "queue_ok s'" using assms(2) ok(5,6) by (simp add: queued_ok_def queue_ok_def queue_cap_def d)
  moreover have "sc_pendingEnqueue s' = sc_pendingEnqueue s" by (subst p(1)) simp
  ultimately show ?thesis
    using assms ok b p(5) [OF wf] c by (auto intro!: same_queue_client_ok)
qed


section \<open>A step of a client\<close>

text \<open>Every call has an environment of its own: the clients run beside the loop, with contexts of their
  own.\<close>

inductive client_step :: "Scheduler \<Rightarrow> Scheduler \<Rightarrow> bool" where
  submit: "new_job job s \<Longrightarrow> client_step s (snd (submit_new ev job s))"
| lookup: "client_step s (snd (getJobPointer ev jobID s))"
| cleanup: "client_step s (snd (cleanupTerminalJobsOnce now s))"
| report: "client_step s (UpdateNodeCapacityAt ev n inFlight limit at s)"

lemma client_step_ok: "client_step s s' \<Longrightarrow> sync s \<Longrightarrow> queued_ok s \<Longrightarrow> client_ok s s'"
  by (induction rule: client_step.induct)
    (blast intro: submit_new_ok getJobPointer_client_ok cleanup_client_ok UpdateNodeCapacityAt_client_ok)+

end
