(* ===== verification/Scheduler_System.thy ===== *)
theory Scheduler_System
  imports Clients
begin

text \<open>
  The scheduler as a running system: the main loop with the goroutines of the stage it executes, and
  beside it clients that submit and look up jobs, the retention cleanup and capacity reports. Every
  step of any of them may come next.

  Properties, for every reachable state: the journal invariant; that a worker is called only for a
  dispatch that is in the durable log, under an authority the leadership provider confirmed; and
  that the reservations of a node are the executions under way.
\<close>

section \<open>The main loop\<close>

text \<open>Where the main loop stands: waiting for a job, before the next stage of a job, or in a stage.\<close>

datatype loop_pc =
    LoopIdle
  | LoopStages job_ref "nat list"
  | LoopStage job_ref "nat list" stage_run

definition begin_job :: "env \<Rightarrow> job_ref \<Rightarrow> Scheduler \<Rightarrow> loop_pc \<times> Scheduler" where
  "begin_job ev r s =
     (let (r, s) = register_job r s;
          s = start_job ev r s
      in (LoopStages r [0..<length (jb_Stages (deref s r))], s))"

fun loop_step :: "env \<Rightarrow> nat \<Rightarrow> loop_pc \<Rightarrow> Scheduler \<Rightarrow> loop_pc \<times> Scheduler" where
  "loop_step ev j LoopIdle s =
     (let (job, s) = run_receive ev s in
      case job of None \<Rightarrow> (LoopIdle, s) | Some r \<Rightarrow> begin_job ev r s)"
| "loop_step ev j (LoopStages r []) s = (LoopIdle, finish_job ev r None s)"
| "loop_step ev j (LoopStages r (i # is)) s =
     (let (begun, s) = begin_stage ev r i s in
      case begun of
        Inl e \<Rightarrow> (LoopIdle, finish_job ev r (Some e) s)
      | Inr sr \<Rightarrow> (LoopStage r is sr, s))"
| "loop_step ev j (LoopStage r is sr) s =
     (if stage_idle sr
      then (let (err, s) = finish_stage sr s in
            case err of
              None \<Rightarrow> (LoopStages r is, s)
            | Some e \<Rightarrow> (LoopIdle, finish_job ev r (Some e) s))
      else (let (sr, s) = stage_step ev j sr s in (LoopStage r is sr, s)))"

definition running :: "Scheduler \<Rightarrow> job_ref \<Rightarrow> bool" where
  "running s r \<longleftrightarrow> registered s r \<and> open_job s r \<and> r \<notin> set (sc_jobQueue s)"

definition of_job :: "job_ref \<Rightarrow> stage_run \<Rightarrow> bool" where
  "of_job r sr \<longleftrightarrow>
     fst (sr_ref sr) = r \<and> (\<forall>t \<in> set (sr_todo sr). fst t = r)
     \<and> (\<forall>g \<in> set (sr_goroutines sr). fst (wk_task (go_worker g)) = r)"

definition stages_ok :: "Scheduler \<Rightarrow> job_ref \<Rightarrow> nat list \<Rightarrow> bool" where
  "stages_ok s r is \<longleftrightarrow> list_all (\<lambda>i. i < length (jb_Stages (deref s r))) is"

fun loop_ok :: "env \<Rightarrow> loop_pc \<Rightarrow> Scheduler \<Rightarrow> bool" where
  "loop_ok ev LoopIdle s \<longleftrightarrow> reserved_of s = (\<lambda>_. 0)"
| "loop_ok ev (LoopStages r is) s \<longleftrightarrow> running s r \<and> stages_ok s r is \<and> reserved_of s = (\<lambda>_. 0)"
| "loop_ok ev (LoopStage r is sr) s \<longleftrightarrow> running s r \<and> stages_ok s r is \<and> of_job r sr \<and> stage_ok ev sr s"

definition system_ok :: "env \<Rightarrow> loop_pc \<Rightarrow> Scheduler \<Rightarrow> bool" where
  "system_ok ev l s \<longleftrightarrow> sync s \<and> queued_ok s \<and> loop_ok ev l s"

lemma runs_registered: "runs s s' \<Longrightarrow> registered s' r = registered s r"
  using only_executes_frame(1,5,7) [OF runs_frame(1)] by (simp add: registered_def)

lemma runs_queued_ok:
  assumes "runs s s'" "queued_ok s"
  shows "queued_ok s'"
proof -
  note f = only_executes_frame [OF runs_frame(1) [OF assms(1)]]
  show ?thesis
    using assms(2) runs_registered [OF assms(1)] runs_frame(3) [OF assms(1)]
    by (auto simp: queued_ok_def queue_ok_def queue_cap_def f)
qed

lemma runs_running: "runs s s' \<Longrightarrow> running s r \<Longrightarrow> running s' r"
  using runs_registered runs_frame(3) only_executes_frame(2) [OF runs_frame(1)] by (simp add: running_def)

lemma runs_stages_ok: "runs s s' \<Longrightarrow> stages_ok s' r is = stages_ok s r is"
  using only_executes_frame(8) [OF runs_frame(1)] by (simp add: stages_ok_def)

lemma of_job_step:
  assumes "of_job r sr"
  shows "of_job r (fst (stage_step ev j sr s))"
proof (cases j)
  case 0
  have "sr_ref (fst (main_step ev sr s)) = sr_ref sr"
    by (simp add: main_step_def Let_def case_prod_beta spawn_def stop_selecting_def
        split: list.split stage_pc.split option.split deferral_event.split)
  moreover have "fst (wk_task (go_worker g)) = r" if mem: "g \<in> set (sr_goroutines (fst (main_step ev sr s)))" for g
  proof (cases "g \<in> set (sr_goroutines sr)")
    case True
    then show ?thesis using assms by (simp add: of_job_def)
  next
    case False
    then obtain t node where "t \<in> set (sr_todo sr)" "g = \<lparr>go_worker = new_worker t node, go_done = False\<rparr>"
      using mem main_step_goroutines [of ev sr s] by auto
    then show ?thesis using assms by (simp add: of_job_def new_worker_def)
  qed
  ultimately show ?thesis
    using 0 assms main_step_goroutines [of ev sr s, THEN conjunct1] by (auto simp: of_job_def)
next
  case (Suc i)
  then show ?thesis
    using assms by (auto simp: of_job_def Let_def case_prod_beta dest!: set_mp [OF set_update_subset_insert])
qed

text \<open>What clients do beside the loop keeps its invariant.\<close>

lemma client_system_ok:
  assumes "system_ok ev l s" "client_ok s s'"
  shows "system_ok ev l s'"
proof -
  have s: "sync s" "queued_ok s" "loop_ok ev l s" using assms(1) by (simp_all add: system_ok_def)
  have b: "beside s s'" and ok: "sync s'" "queued_ok s'" using assms(2) by (simp_all add: client_ok_def)
  have res: "reserved_of s' = reserved_of s" using b by (simp add: beside_def)
  have run: "running s' r \<and> deref s' r = deref s r" if "running s r" for r
    using that besideD [OF b] assms(2) by (auto simp: running_def client_ok_def registered_def)
  have "loop_ok ev l s'"
  proof (cases l)
    case (LoopStage r "is" sr)
    then have r: "running s r" "of_job r sr" "stage_ok ev sr s" using s(3) by simp_all
    note d = run [OF r(1)]
    have "worker_ok ev s' (go_worker g)" if "g \<in> set (sr_goroutines sr)" for g
      using that r worker_ok_beside [OF b s(1)] by (auto simp: stage_ok_def of_job_def running_def)
    moreover have "live s' t" if "t \<in> set (sr_todo sr)" for t
    proof -
      have "live s t" "fst t = r" using that r(2,3) by (simp_all add: stage_ok_def of_job_def)
      then show ?thesis using d by (cases t) (auto simp: live_def task_ok.simps running_def registered_def)
    qed
    ultimately have "stage_ok ev sr s'" using r(3) by (simp add: stage_ok_def res)
    then show ?thesis using LoopStage s(3) d by (simp add: stages_ok_def)
  qed (use s(3) run res in \<open>auto simp: stages_ok_def\<close>)
  then show ?thesis using ok by (simp add: system_ok_def)
qed


section \<open>Steps of the main loop\<close>

lemma upd_stage_status:
  fixes r :: job_ref and st :: JobStatus
  defines "f \<equiv> \<lambda>g. g\<lparr>sg_Status := st\<rparr>"
  shows "runs s (upd_stage r i f s)" "sync (upd_stage r i f s) = sync s"
    "reserved_of (upd_stage r i f s) = reserved_of s"
proof -
  let ?f = "\<lambda>j. j\<lparr>jb_Stages := upd_nth i f (jb_Stages j)\<rparr>"
  have tasks: "map sg_Tasks (upd_nth i f gs) = map sg_Tasks gs" for gs
    by (rule nth_equalityI) (simp_all add: nth_upd_nth f_def)
  have view: "job_view (?f j) = job_view j" for j by (simp add: job_view_def job_tasks_def tasks)
  have "map (\<lambda>g. map tk_ID (sg_Tasks g)) (upd_nth i f gs) = map (\<lambda>g. map tk_ID (sg_Tasks g)) gs" for gs
    using arg_cong [OF tasks [of gs], of "map (map tk_ID)"] by (simp add: comp_def)
  then have shape: "job_shape (?f j) = job_shape j" for j by (simp add: job_shape_def)
  have "get_task (upd_job r ?f s) t = get_task s t" if "task_ok s t" for t
    using that by (cases t) (auto simp: get_task.simps task_ok.simps nth_upd_nth f_def)
  then show "runs s (upd_stage r i f s)"
    using only_journal_executes [OF only_journal_upd_job [OF shape]]
    by (auto simp: upd_stage_def runs_def open_job_def)
  show "sync (upd_stage r i f s) = sync s" unfolding upd_stage_def by (rule sync_unseen [OF view])
  show "reserved_of (upd_stage r i f s) = reserved_of s"
    unfolding upd_stage_def by (rule reserved_of_cong) simp
qed

lemma updateJobStatus_ok:
  "runs s (updateJobStatus ev r status s)" "sync (updateJobStatus ev r status s) = sync s"
  "reserved_of (updateJobStatus ev r status s) = reserved_of s"
proof -
  let ?f = "\<lambda>j. j\<lparr>jb_Status := status, jb_UpdatedAt := ev_now ev (sc_tick s)\<rparr>"
  have eq: "updateJobStatus ev r status s = upd_job r ?f (step_tick s)"
    by (simp add: updateJobStatus_def time_Now_def)
  have "runs (step_tick s) (upd_job r ?f (step_tick s))" by (rule upd_job_runs) (simp_all add: open_job_def)
  then show "runs s (updateJobStatus ev r status s)" unfolding eq by (rule runs_trans [OF runs_tick])
  have "job_view (?f j) = job_view j" for j by (simp add: job_view_def job_tasks_def)
  from sync_unseen [OF this] show "sync (updateJobStatus ev r status s) = sync s" unfolding eq by simp
  show "reserved_of (updateJobStatus ev r status s) = reserved_of s"
    unfolding eq by (rule reserved_of_cong) simp
qed

lemma registered_runs_sync:
  assumes "sync s" "registered s r" "known_job_state new" "\<not> IsTerminalJobState new"
  shows "sync (recordJobTransition ev r transition new err s)" "runs s (recordJobTransition ev r transition new err s)"
    "registered (recordJobTransition ev r transition new err s) r"
proof -
  show r: "runs s (recordJobTransition ev r transition new err s)"
    by (rule recordJobTransition_runs [OF assms(1,4)])
  show "sync (recordJobTransition ev r transition new err s)"
    using recordJobTransition_sync [OF assms(1)] assms(2,3) by (auto simp: registered_def)
  show "registered (recordJobTransition ev r transition new err s) r"
    using assms(2) runs_registered [OF r] by simp
qed

lemma start_job_ok:
  assumes "sync s" "registered s r"
  shows "sync (start_job ev r s) \<and> runs s (start_job ev r s) \<and> reserved_of (start_job ev r s) = reserved_of s"
proof -
  define s1 where "s1 = updateJobStatus ev r JobRunning s"
  define s2 where "s2 = (if jb_LifecycleState (deref s1 r) = JobStateSubmitted
    then recordJobTransition ev r TransitionJobQueued JobStateQueued '''' s1 else s1)"
  note u = updateJobStatus_ok [where s = s and ev = ev and r = r and status = JobRunning, folded s1_def]
  have s1: "sync s1" "registered s1 r" using assms u(2) runs_registered [OF u(1)] by simp_all
  have s2: "sync s2" "runs s1 s2" "registered s2 r" "reserved_of s2 = reserved_of s"
    using s1 u(3) registered_runs_sync [OF s1] by (simp_all add: s2_def)
  have "sync (start_job ev r s) \<and> runs s2 (start_job ev r s) \<and> reserved_of (start_job ev r s) = reserved_of s2"
    unfolding start_job_def Let_def s1_def [symmetric] s2_def [symmetric]
    using s2 registered_runs_sync [OF s2(1,3)] by simp
  then show ?thesis using runs_trans [OF runs_trans [OF u(1) s2(2)]] s2(4) by simp
qed

lemma begin_stage_ok:
  assumes "sync s" "running s r" "i < length (jb_Stages (deref s r))" "reserved_of s = (\<lambda>_. 0)"
    and "begin_stage ev r i s = (begun, s')"
  shows "sync s'" "runs s s'" "reserved_of s' = (\<lambda>_. 0)"
    "begun = Inr sr \<Longrightarrow> of_job r sr \<and> stage_ok ev sr s'"
proof -
  let ?s = "upd_stage r i (\<lambda>g. g\<lparr>sg_Status := JobRunning\<rparr>) s"
  note u = upd_stage_status [where s = s and r = r and i = i and st = JobRunning]
  have s': "s' = step_tick ?s" and sr: "begun = Inr sr \<Longrightarrow> sr_ref sr = (r, i) \<and> sr_goroutines sr = []
      \<and> sr_todo sr = stage_task_refs r i s'"
    using assms(5) by (auto simp: begin_stage_def GetHealthyNodes_def Let_def split: if_splits)
  show "sync s'" "reserved_of s' = (\<lambda>_. 0)" using assms(1,4) u by (simp_all add: s')
  show run: "runs s s'" unfolding s' by (rule runs_trans [OF u(1) runs_tick])
  have live: "live s' t \<and> fst t = r" if "t \<in> set (stage_task_refs r i s')" for t
    using that runs_running [OF run assms(2)] only_executes_frame(8) [OF runs_frame(1) [OF run], of r] assms(3)
    by (auto simp: stage_task_refs_def live_def task_ok.simps running_def registered_def)
  show "of_job r sr \<and> stage_ok ev sr s'" if "begun = Inr sr"
    using sr [OF that] live \<open>reserved_of s' = _\<close> by (simp add: of_job_def stage_ok_def slots_def)
qed

lemma finish_stage_ok:
  assumes "sync s" "finish_stage sr s = (err, s')"
  shows "sync s'" "runs s s'" "reserved_of s' = reserved_of s"
  using assms upd_stage_status [where s = s and r = "fst (sr_ref sr)" and i = "snd (sr_ref sr)"]
  by (auto simp: finish_stage_def stage_failed_def case_prod_beta split: option.splits list.splits if_splits)

lemma idle_slots:
  assumes "stage_ok ev sr s" "stage_idle sr"
  shows "reserved_of s = (\<lambda>_. 0)"
proof -
  have "\<not> holds_slot n (go_worker g)" if "g \<in> set (sr_goroutines sr)" for g n
    using that assms by (auto simp: stage_ok_def stage_idle_def list_all_iff returned_def holds_slot_def split: task_pc.splits)
  then have "slots sr n = 0" for n by (simp add: slots_def filter_empty_conv)
  then show ?thesis using assms(1) by (simp add: stage_ok_def fun_eq_iff)
qed


lemma finish_job_record:
  assumes "sync s" "running s r" "known_job_state new"
  shows "sync (recordJobTransition ev r transition new err (updateJobStatus ev r status s))
    \<and> (queued_ok s \<longrightarrow> queued_ok (recordJobTransition ev r transition new err (updateJobStatus ev r status s)))
    \<and> reserved_of (recordJobTransition ev r transition new err (updateJobStatus ev r status s)) = reserved_of s"
proof -
  define s1 where "s1 = updateJobStatus ev r status s"
  define s2 where "s2 = recordJobTransition ev r transition new err s1"
  note u = updateJobStatus_ok [where s = s and ev = ev and r = r and status = status, folded s1_def]
  have s1: "sync s1" "running s1 r" using assms(1,2) u(2) runs_running [OF u(1)] by simp_all
  have sync: "sync s2"
    unfolding s2_def by (rule recordJobTransition_sync [OF s1(1) _ assms(3)])
      (use s1(2) in \<open>simp add: running_def registered_def, blast\<close>)
  note j = only_journal_frame [OF recordJobTransition_frame [of s1 ev r transition new err], folded s2_def]
  have other: "deref s2 x = deref s1 x" if "x \<noteq> r" for x
    using recordJobTransition_effect [OF sync_durable_ok [OF s1(1)], of ev r transition new err] that
      only_records_frame(2) by (auto simp: s2_def)
  have "queued_ok s2" if "queued_ok s"
  proof -
    have q: "queued_ok s1" using runs_queued_ok [OF u(1) that] .
    have "x \<noteq> r" if "x \<in> set (sc_jobQueue s1)" for x using that s1(2) by (auto simp: running_def)
    with q other show ?thesis
      by (auto simp: queued_ok_def queue_ok_def queue_cap_def j registered_def open_job_def)
  qed
  then show ?thesis using sync u(3) unfolding s1_def [symmetric] s2_def [symmetric] by (simp add: s2_def)
qed

lemma finish_job_ok:
  assumes "sync s" "queued_ok s" "running s r" "reserved_of s = (\<lambda>_. 0)"
  shows "system_ok ev LoopIdle (finish_job ev' r err s)"
  using finish_job_record [OF assms(1,3)] assms(2,4)
  by (simp add: system_ok_def finish_job_def updateJobStatus_ok(3) split: option.split)

lemma refresh_effect:
  assumes "sync s" "refreshJobFromDurableState ev jobID s = (res, s')"
  obtains (unchanged) "res = None" "s' = s \<or> s' = step_tick s"
  | (rebuilt) "res = Some (sc_next s)" "sc_jobs s' = mput jobID (sc_next s) (sc_jobs s)"
      "sc_next s' = Suc (sc_next s)" "\<And>x. x < sc_next s \<Longrightarrow> deref s' x = deref s x"
      "sc_pendingEnqueue s' = sc_pendingEnqueue s" "reserved_of s' = reserved_of s"
proof -
  obtain st where st: "sc_transitionStore s = Some st" using assms(1) by (auto simp: sync_def durable_ok_def)
  define s1 where "s1 = step_tick s"
  obtain q where q: "replay_now ev jobID s = (q, s1)" by (simp add: replay_now_def s1_def)
  show thesis
  proof (cases "\<exists>r. q = Inr r \<and> \<not> replayed_nothing r \<and> trim_space jobID \<noteq> ''''")
    case False
    then have "res = None \<and> (s' = s \<or> s' = s1)"
      using assms(2) q st by (auto simp: refreshJobFromDurableState_def split: sum.splits if_splits)
    then show thesis using unchanged unfolding s1_def by blast
  next
    case True
    then obtain r where r: "q = Inr r" "\<not> replayed_nothing r" "trim_space jobID \<noteq> ''''" by blast
    obtain job ref s2 where a: "alloc_job job (step_tick s1) = (ref, s2)"
      and s': "res = Some ref" "s' = snd (seedJobSequenceLocked jobID (dj_LastSequenceID (rs_Job r)) (rs_Transitions r)
        (s2\<lparr>sc_jobs := mput jobID ref (sc_jobs s2)\<rparr>))"
      using assms(2) q r st by (auto simp: refreshJobFromDurableState_def Let_def case_prod_beta) (metis prod.collapse)
    let ?s2 = "s2\<lparr>sc_jobs := mput jobID ref (sc_jobs s2)\<rparr>"
    obtain x where sd: "seedJobSequenceLocked jobID (dj_LastSequenceID (rs_Job r)) (rs_Transitions r) ?s2 = (x, s')"
      using s'(2) by (metis prod.collapse)
    have s2: "s2 = (step_tick (step_tick s))\<lparr>sc_heap := mput (sc_next s) job (sc_heap s), sc_next := Suc (sc_next s)\<rparr>"
      "ref = sc_next s" using a by (auto simp: alloc_job_def s1_def)
    note f = seed_only_registers [OF sd]
    note e = f(1) [unfolded only_registers_def, THEN conjunct1, symmetric]
    have cap: "sc_nodeCapacity s' = sc_nodeCapacity s" "sc_pendingEnqueue s' = sc_pendingEnqueue s"
      by (subst e, simp add: s2)+
    show thesis
    proof (rule rebuilt)
      show "reserved_of s' = reserved_of s" using cap(1) by (rule reserved_of_cong)
      show "deref s' y = deref s y" if "y < sc_next s" for y using that by (simp add: f s2 deref_def)
    qed (use f cap s'(1) in \<open>simp_all add: s2\<close>)
  qed
qed


lemma dequeue_ok:
  assumes "sync s" "queued_ok s" "dequeueJob s = Some (r, s')"
  shows "sync s'" "queued_ok s'" "running s' r" "reserved_of s' = reserved_of s"
proof -
  have q: "queue_ok s" using assms(2) by (simp add: queued_ok_def)
  note d = dequeueJob_ok [OF q assms(3)]
  have fr: "only_queue s s'"
    using assms(3) by (cases s) (auto simp: dequeueJob_def markJobDequeued_def only_queue_def split: list.splits)
  note f = only_queue_frame [OF fr]
  show "sync s'" using only_queue_sync [OF fr] assms(1) by simp
  have "sc_pendingEnqueue s' = sc_pendingEnqueue s" "sc_nodeCapacity s' = sc_nodeCapacity s"
    using fr by (cases s; cases s'; simp add: only_queue_def)+
  then show "queued_ok s'" "reserved_of s' = reserved_of s"
    using assms(2) d by (auto simp: queued_ok_def registered_def open_job_def f intro: reserved_of_cong)
  have "r \<notin> set (sc_jobQueue s')" using q d(2) by (auto simp: queue_ok_def)
  then show "running s' r"
    using assms(2) d(2,3) f by (simp add: running_def queued_ok_def registered_def open_job_def)
qed

lemma requeue_ok:
  assumes "sync s" "queued_ok s" "running s r"
  shows "sync (requeueJob r s) \<and> queued_ok (requeueJob r s) \<and> reserved_of (requeueJob r s) = reserved_of s"
proof (cases "sc_stopRequested s")
  case False
  obtain ok s' where e: "enqueueJobLocked r s = (ok, s')" by fastforce
  note fr = enqueue_only_queue [OF e] and f = only_queue_frame [OF enqueue_only_queue [OF e]]
  have q: "queue_ok s'" using enqueueJobLocked_ok [OF _ e] assms(2) by (simp add: queued_ok_def)
  have "sc_pendingEnqueue s' = sc_pendingEnqueue s" "sc_nodeCapacity s' = sc_nodeCapacity s"
    using fr by (cases s; cases s'; simp add: only_queue_def)+
  moreover have "set (sc_jobQueue s') \<subseteq> insert r (set (sc_jobQueue s))"
    using e by (cases rule: enqueueJobLocked_cases) auto
  ultimately show ?thesis
    using assms q only_queue_sync [OF fr] False e
    by (auto simp: requeueJob_def queued_ok_def running_def registered_def open_job_def f intro: reserved_of_cong)
qed (use assms in \<open>simp add: requeueJob_def\<close>)

lemma executable_open:
  assumes "registered s r" "isExecutableDequeuedJob r s"
  shows "open_job s r"
  using assms by (auto simp: isExecutableDequeuedJob_def registered_def open_job_def split: JobLifecycleState.splits)

lemma refresh_ok:
  assumes "sync s" "queued_ok s" "running s r" "refreshJobFromDurableState ev (jb_ID (deref s r)) s = (res, s')"
  shows "sync s'" "queued_ok s'" "reserved_of s' = reserved_of s"
    "registered s' (case res of Some r' \<Rightarrow> r' | None \<Rightarrow> r)"
    "(case res of Some r' \<Rightarrow> r' | None \<Rightarrow> r) \<notin> set (sc_jobQueue s')"
proof -
  note ok = refreshJobFromDurableState_ok [OF assms(1,4)]
  then show sync: "sync s'" by blast
  have "queued_ok s' \<and> reserved_of s' = reserved_of s \<and> registered s' (case res of Some r' \<Rightarrow> r' | None \<Rightarrow> r)
    \<and> (case res of Some r' \<Rightarrow> r' | None \<Rightarrow> r) \<notin> set (sc_jobQueue s')"
    using assms(1,4)
  proof (cases rule: refresh_effect)
    case unchanged
    have "queued_ok (step_tick s)" using runs_queued_ok [OF runs_tick assms(2)] .
    then show ?thesis using unchanged assms(2,3) by (auto simp: running_def registered_def)
  next
    case rebuilt
    let ?id = "jb_ID (deref s r)"
    have new: "registered s' (sc_next s)"
      using rebuilt(1-3) ok syncD(1) [OF sync] by (simp add: registered_def)
    have old: "registered s' x \<and> open_job s' x \<and> jb_ID (deref s' x) = jb_ID (deref s x)"
      if "x \<in> set (sc_jobQueue s)" for x
    proof -
      have x: "registered s x" "open_job s x" using assms(2) that by (simp_all add: queued_ok_def)
      have "jb_ID (deref s x) \<noteq> ?id"
      proof
        assume "jb_ID (deref s x) = ?id"
        then have "x = r" using x(1) assms(3) by (simp add: running_def registered_def)
        then show False using that assms(3) by (simp add: running_def)
      qed
      then show ?thesis using x rebuilt(2-4) by (simp add: registered_def open_job_def)
    qed
    have ids: "map (\<lambda>x. jb_ID (deref s' x)) (sc_jobQueue s) = map (\<lambda>x. jb_ID (deref s x)) (sc_jobQueue s)"
      using old by simp
    have fr: "sc_jobQueue s' = sc_jobQueue s" "sc_queuedJobs s' = sc_queuedJobs s" "sc_config s' = sc_config s"
      using ok by simp_all
    have "queue_ok s' = queue_ok s"
      unfolding queue_ok_def queue_cap_def fr list.set_map [symmetric] ids ..
    moreover have "sc_next s \<notin> set (sc_jobQueue s)" using assms(2) by (auto simp: queued_ok_def registered_def)
    ultimately show ?thesis using rebuilt old new fr assms(2) by (simp add: queued_ok_def)
  qed
  then show "queued_ok s'" "reserved_of s' = reserved_of s"
    "registered s' (case res of Some r' \<Rightarrow> r' | None \<Rightarrow> r)"
    "(case res of Some r' \<Rightarrow> r' | None \<Rightarrow> r) \<notin> set (sc_jobQueue s')" by blast+
qed


lemma run_receive_ok:
  assumes "sync s" "queued_ok s" "run_receive ev s = (job, s')"
  shows "sync s' \<and> queued_ok s' \<and> reserved_of s' = reserved_of s \<and> (\<forall>r. job = Some r \<longrightarrow> running s' r)"
proof (cases "dequeueJob s")
  case None
  then show ?thesis using assms by (simp add: run_receive_def)
next
  case (Some p)
  obtain r s1 where p: "p = (r, s1)" by fastforce
  note d = dequeue_ok [OF assms(1,2) Some [unfolded p]]
  define s2 where "s2 = step_tick s1"
  have s2: "sync s2" "queued_ok s2" "running s2 r" "reserved_of s2 = reserved_of s"
    using d runs_queued_ok [OF runs_tick] runs_running [OF runs_tick] by (simp_all add: s2_def)
  obtain res s3 where rf: "refreshJobFromDurableState ev (jb_ID (deref s2 r)) s2 = (res, s3)" by fastforce
  note f = refresh_ok [OF s2(1-3) rf] and q = requeue_ok [OF s2(1-3)]
  define r' where "r' = (case res of Some r' \<Rightarrow> r' | None \<Rightarrow> r)"
  have go: "isExecutableDequeuedJob r' s3 \<Longrightarrow> running s3 r'"
    using f(4,5) executable_open by (simp add: running_def r'_def)
  have "(job, s') \<in> {(None, s1), (None, requeueJob r s2), (None, s3)}
      \<or> (job, s') = (Some r', s3) \<and> isExecutableDequeuedJob r' s3"
    using assms(3) unfolding run_receive_def Some p option.case prod.case dispatchAuthority_def s2_def [symmetric] Let_def rf
      r'_def [symmetric]
    by (auto split: sum.splits if_splits)
  then show ?thesis using d q f(1-3) go s2(4) by auto
qed

lemma begin_job_ok:
  assumes "sync s" "queued_ok s" "running s r" "reserved_of s = (\<lambda>_. 0)"
  shows "system_ok ev (fst (begin_job ev r s)) (snd (begin_job ev r s))"
proof -
  have reg: "registered s r" using assms(3) by (simp add: running_def)
  then have "register_job r s = (r, s)" by (simp add: register_job_def registered_def)
  moreover note st = start_job_ok [OF assms(1) reg, of ev]
  ultimately show ?thesis
    using runs_running [OF _ assms(3)] runs_queued_ok [OF _ assms(2)] assms(4)
    by (simp add: begin_job_def system_ok_def stages_ok_def list_all_iff Let_def)
qed

lemma loop_step_ok:
  assumes "system_ok ev l s"
  shows "system_ok ev (fst (loop_step ev j l s)) (snd (loop_step ev j l s))"
proof -
  have s: "sync s" "queued_ok s" using assms by (simp_all add: system_ok_def)
  show ?thesis
  proof (cases l)
    case LoopIdle
    obtain job s' where r: "run_receive ev s = (job, s')" by fastforce
    note ok = run_receive_ok [OF s r]
    have "reserved_of s' = (\<lambda>_. 0)" using ok assms LoopIdle by (simp add: system_ok_def)
    then show ?thesis
      using ok begin_job_ok LoopIdle r by (cases job) (simp_all add: system_ok_def)
  next
    case (LoopStages r "is")
    then have l: "running s r" "stages_ok s r is" "reserved_of s = (\<lambda>_. 0)"
      using assms by (simp_all add: system_ok_def)
    show ?thesis
    proof (cases "is")
      case Nil
      then show ?thesis using finish_job_ok [OF s l(1,3)] LoopStages by simp
    next
      case (Cons i js)
      obtain begun s' where b: "begin_stage ev r i s = (begun, s')" by fastforce
      have i: "i < length (jb_Stages (deref s r))" "stages_ok s r js" using l(2) Cons by (simp_all add: stages_ok_def)
      note ok = begin_stage_ok [OF s(1) l(1) i(1) l(3) b]
      note run = runs_running [OF ok(2) l(1)] runs_queued_ok [OF ok(2) s(2)] runs_stages_ok [OF ok(2)]
      show ?thesis
        using finish_job_ok [OF ok(1) run(2,1) ok(3)] ok run i LoopStages Cons b
        by (cases begun) (simp_all add: system_ok_def)
    qed
  next
    case (LoopStage r "is" sr)
    then have l: "running s r" "stages_ok s r is" "of_job r sr" "stage_ok ev sr s"
      using assms by (simp_all add: system_ok_def)
    show ?thesis
    proof (cases "stage_idle sr")
      case True
      obtain err s' where f: "finish_stage sr s = (err, s')" by fastforce
      note ok = finish_stage_ok [OF s(1) f]
      note run = runs_running [OF ok(2) l(1)] runs_queued_ok [OF ok(2) s(2)] runs_stages_ok [OF ok(2)]
      have "reserved_of s' = (\<lambda>_. 0)" using ok(3) idle_slots [OF l(4) True] by simp
      then show ?thesis
        using finish_job_ok [OF ok(1) run(2,1)] ok(1) run l(2) LoopStage True f
        by (cases err) (simp_all add: system_ok_def)
    next
      case False
      note ok = stage_step_safe [OF s(1) l(4), of j]
      show ?thesis
        using ok runs_running [OF ok(1) l(1)] runs_queued_ok [OF ok(1) s(2)] runs_stages_ok [OF ok(1)]
          of_job_step [OF l(3)] l(2) LoopStage False
        by (simp add: system_ok_def case_prod_beta)
    qed
  qed
qed

section \<open>The system\<close>

inductive system_step :: "env \<Rightarrow> loop_pc \<times> Scheduler \<Rightarrow> loop_pc \<times> Scheduler \<Rightarrow> bool" for ev where
  loop: "system_step ev (l, s) (loop_step ev j l s)"
| client: "client_step s s' \<Longrightarrow> system_step ev (l, s) (l, s')"

inductive_simps system_step_iff: "system_step ev (l, s) c"

lemma system_step_ok:
  "system_step ev c c' \<Longrightarrow> system_ok ev (fst c) (snd c) \<Longrightarrow> system_ok ev (fst c') (snd c')"
proof (induction rule: system_step.induct)
  case (loop l s j)
  then show ?case using loop_step_ok by simp
next
  case (client s s' l)
  then have "sync s" "queued_ok s" "system_ok ev l s" by (simp_all add: system_ok_def)
  then show ?case using client_system_ok [OF _ client_step_ok [OF client.hyps]] by simp
qed

lemma system_steps_ok:
  "(system_step ev)\<^sup>*\<^sup>* c c' \<Longrightarrow> system_ok ev (fst c) (snd c) \<Longrightarrow> system_ok ev (fst c') (snd c')"
  by (induction rule: rtranclp_induct) (auto intro: system_step_ok)


section \<open>The functions are runs of the machine\<close>

abbreviation system_run :: "env \<Rightarrow> loop_pc \<times> Scheduler \<Rightarrow> loop_pc \<times> Scheduler \<Rightarrow> bool" where
  "system_run ev \<equiv> (system_step ev)\<^sup>*\<^sup>*"

lemma loop_stepI: "loop_step ev j l s = c \<Longrightarrow> system_run ev (l, s) c"
  using system_step.loop [of ev l s j] by auto

lemma idle_stays: "stage_idle sr \<Longrightarrow> stage_step ev j sr s = (sr, s)"
proof (cases j)
  case (Suc i)
  assume "stage_idle sr"
  then have "goroutine_step ev nodes (sr_goroutines sr ! i) s = (sr_goroutines sr ! i, [], s)"
    if "i < length (sr_goroutines sr)" for nodes
    using that by (simp add: stage_idle_def list_all_length goroutine_step_def)
  then show ?thesis by (simp add: Suc)
qed (simp add: stage_idle_def)

lemma stage_move:
  assumes "stage_step ev j sr s = (sr', s')"
  shows "system_run ev (LoopStage r is sr, s) (LoopStage r is sr', s')"
proof (cases "stage_idle sr")
  case True
  then show ?thesis using idle_stays assms by simp
next
  case False
  then show ?thesis using assms by (intro loop_stepI [of _ j]) simp
qed

lemma drain_stage_run:
  "stage_idle (fst (drain_stage ev sr s))
   \<and> system_run ev (LoopStage r is sr, s) (LoopStage r is (fst (drain_stage ev sr s)), snd (drain_stage ev sr s))"
proof (induction ev sr s rule: drain_stage.induct)
  case (1 ev sr s)
  show ?case
  proof (cases "stage_idle sr")
    case True
    then show ?thesis by (simp add: drain_stage.simps)
  next
    case False
    obtain sr' s' where st: "stage_step ev (next_mover sr) sr s = (sr', s')" by fastforce
    have "drain_stage ev sr s = drain_stage ev sr' s'" using False st by (subst drain_stage.simps) simp
    then show ?thesis using 1 [OF False st [symmetric] refl] stage_move [OF st] by (auto intro: rtranclp_trans)
  qed
qed

lemma run_schedule_run:
  "stage_idle (fst (run_schedule ev sched sr s))
   \<and> system_run ev (LoopStage r is sr, s) (LoopStage r is (fst (run_schedule ev sched sr s)), snd (run_schedule ev sched sr s))"
proof (induction sched arbitrary: sr s)
  case Nil
  then show ?case using drain_stage_run by simp
next
  case (Cons j js)
  obtain sr' s' where st: "stage_step ev j sr s = (sr', s')" by fastforce
  then show ?case using Cons.IH [of sr' s'] stage_move [OF st] by (auto intro: rtranclp_trans)
qed

lemma executeStage_run:
  assumes "executeStage ev sched r i s = (err, s')"
  shows "system_run ev (LoopStages r (i # is), s)
    (case err of None \<Rightarrow> (LoopStages r is, s') | Some e \<Rightarrow> (LoopIdle, finish_job ev r (Some e) s'))"
proof -
  obtain begun s1 where b: "begin_stage ev r i s = (begun, s1)" by fastforce
  show ?thesis
  proof (cases begun)
    case (Inl e)
    then show ?thesis using assms b by (intro loop_stepI [of _ 0]) (auto simp: executeStage_def)
  next
    case (Inr sr)
    obtain sr' s2 where run: "run_schedule ev sched sr s1 = (sr', s2)" by fastforce
    have fin: "finish_stage sr' s2 = (err, s')" using assms b Inr run by (simp add: executeStage_def)
    have "system_run ev (LoopStages r (i # is), s) (LoopStage r is sr, s1)"
      using b Inr by (intro loop_stepI [of _ 0]) simp
    moreover have "stage_idle sr'" "system_run ev (LoopStage r is sr, s1) (LoopStage r is sr', s2)"
      using run_schedule_run [of ev sched sr s1 r "is"] run by simp_all
    moreover from this(1) have "system_run ev (LoopStage r is sr', s2)
        (case err of None \<Rightarrow> (LoopStages r is, s') | Some e \<Rightarrow> (LoopIdle, finish_job ev r (Some e) s'))"
      using fin by (intro loop_stepI [of _ 0]) (cases err, simp_all)
    ultimately show ?thesis by (meson rtranclp_trans)
  qed
qed

lemma execute_stages_run:
  assumes "execute_stages ev scheds r is s = (err, s')"
  shows "system_run ev (LoopStages r is, s) (LoopIdle, finish_job ev r err s')"
  using assms
proof (induction "is" arbitrary: s)
  case Nil
  then show ?case by (intro loop_stepI [of _ 0]) simp
next
  case (Cons i js)
  obtain e s1 where x: "executeStage ev (scheds i) r i s = (e, s1)" by fastforce
  note run = executeStage_run [OF x, of js]
  show ?case
  proof (cases e)
    case None
    then have "execute_stages ev scheds r js s1 = (err, s')" using Cons.prems x by simp
    then show ?thesis using run Cons.IH None by (auto intro: rtranclp_trans)
  next
    case (Some y)
    then show ?thesis using run Cons.prems x by simp
  qed
qed


section \<open>An example: one queued job with one task\<close>

definition example_run_env :: env where
  "example_run_env = (example_env 5)\<lparr>ev_scan_ctx := (\<lambda>_ _ _. Some (ErrNew ''deadline''))\<rparr>"

definition example_queued_log :: "TransitionRecord list" where
  "example_queued_log =
     [example_record 1 TransitionEntityJob TransitionJobSubmitted '''' '''' ''SUBMITTED'' 0,
      example_record 2 TransitionEntityTask TransitionTaskCreated ''t1'' '''' ''PENDING'' 0,
      example_record 3 TransitionEntityJob TransitionJobQueued '''' ''SUBMITTED'' ''QUEUED'' 0]"

definition example_queued_task :: Task where
  "example_queued_task = (example_new_task ''t1'')\<lparr>tk_JobID := ''j1'', tk_LifecycleState := TaskStatePending\<rparr>"

definition example_queued :: Scheduler where
  "example_queued = NewScheduler
     \<lparr>sc_heap := [(0, (NewJob 1 1 ''j1'' ''demo'')\<lparr>jb_LifecycleState := JobStateQueued,
        jb_Stages := [(example_stage ''s1'' [])\<lparr>sg_Tasks := [example_queued_task]\<rparr>]\<rparr>)],
      sc_next := 1, sc_jobs := [(''j1'', 0)], sc_jobSequences := [(''j1'', 3)],
      sc_jobQueue := [0], sc_queuedJobs := [(''j1'', ())],
      sc_transitionStore := Some (MemoryStore
        \<lparr>ms_transitions = [(''j1'', example_queued_log)], ms_jobs = [(''j1'', example_job)], ms_tasks = []\<rparr>)\<rparr>"

fun loop_steps :: "env \<Rightarrow> nat list \<Rightarrow> loop_pc \<times> Scheduler \<Rightarrow> loop_pc \<times> Scheduler" where
  "loop_steps ev [] c = c"
| "loop_steps ev (j # js) c = loop_steps ev js (loop_step ev j (fst c) (snd c))"

lemma loop_steps_run: "system_run ev c (loop_steps ev js c)"
proof (induction js arbitrary: c)
  case (Cons j js)
  have "system_run ev c (loop_step ev j (fst c) (snd c))"
    using loop_stepI [of ev j "fst c" "snd c"] by simp
  then show ?case using Cons.IH rtranclp_trans [of "system_step ev" c] by simp
qed simp

lemma example_queued_ok: "sync example_queued" "queued_ok example_queued" "reserved_of example_queued = (\<lambda>_. 0)"
proof -
  let ?log = example_queued_log and ?job = "deref example_queued 0"
  have log: "log_of example_queued j = (if j = ''j1'' then ?log else [])" for j
    by (simp add: example_queued_def log_of_def mem_ListTransitionsByJob_def mget_or_def)
  have "log_ok ''j1'' ?log" by (simp add: log_ok_def example_queued_log_def example_record_def) code_simp
  moreover have "legal_log ''j1'' ?log" by code_simp
  ultimately have "durable_ok example_queued"
    unfolding durable_ok_def log
    by (auto simp: example_queued_def mem_invar_def example_job_def wf_map_def store_covered_def legal_log_def)
  moreover have job: "jb_ID ?job = ''j1''" "jb_LifecycleState ?job = JobStateQueued" by code_simp+
  moreover have "job_synced ?log ?job"
  proof -
    have tasks: "job_tasks ?job = [example_queued_task]"
      by (simp add: example_queued_def deref_def job_tasks_def mget_or_def)
    have last: "last (job_states ?log) = JobStateQueued" "task_states ''t1'' ?log = [TaskStatePending]" by code_simp+
    have other: "task_states k ?log = []" if "k \<noteq> ''t1''" for k
      using that by (simp add: task_states_def task_records_def example_queued_log_def example_record_def)
    have "k = ''t1''" if "task_states k ?log \<noteq> []" for k using that other by blast
    then show ?thesis
      using last job unfolding job_synced_def tasks
      by (simp add: task_synced_def example_queued_task_def example_new_task_def)
  qed
  moreover have "counter example_queued ''j1'' = Some 3" "list_all (\<lambda>r. tr_SequenceID r \<le> 3) ?log" by code_simp+
  ultimately show "sync example_queued"
    by (auto simp: sync_def log seq_covered_def list_all_iff) (auto simp: example_queued_def split: if_splits)
  have "sc_jobQueue example_queued = [0]" "sc_queuedJobs example_queued = [(''j1'', ())]"
    "sc_jobs example_queued = [(''j1'', 0)]" "sc_next example_queued = 1" by (simp_all add: example_queued_def)
  moreover have "0 \<le> sc_pendingEnqueue example_queued" "1 \<le> queue_cap example_queued" by code_simp+
  ultimately show "queued_ok example_queued"
    using job by (simp add: queued_ok_def queue_ok_def registered_def open_job_def wf_map_def)
  have "sc_nodeCapacity example_queued = []" by code_simp
  then show "reserved_of example_queued = (\<lambda>_. 0)" by (simp add: reserved_of_def fun_eq_iff)
qed

text \<open>The job is received, its stage begun, a node selected, the task claimed and its slot reserved:
  the goroutine of the task is about to call the executor.\<close>

definition example_calling :: "loop_pc \<times> Scheduler" where
  "example_calling = loop_steps example_run_env [0,0,0,1,1,1,1] (LoopIdle, example_queued)"

lemma example_calling_run: "system_run example_run_env (LoopIdle, example_queued) example_calling"
  unfolding example_calling_def by (rule loop_steps_run)

lemma example_calling_eval:
  "case example_calling of (LoopStage r is sr, s) \<Rightarrow>
     (case map go_worker (sr_goroutines sr) of
        [w] \<Rightarrow> (case wk_pc w of PcCall a \<Rightarrow> tk_JobID (get_task s (wk_task w)) \<noteq> '''' \<and> holds_slot ''n1'' w | _ \<Rightarrow> False)
      | _ \<Rightarrow> False)
   | _ \<Rightarrow> False"
  by code_simp

lemma example_callingE:
  obtains r todo sr s g a where "example_calling = (LoopStage r todo sr, s)" "sr_goroutines sr = [g]"
    "g \<in> set (sr_goroutines sr)" "wk_pc (go_worker g) = PcCall a"
    "tk_JobID (get_task s (wk_task (go_worker g))) \<noteq> ''''" "holds_slot ''n1'' (go_worker g)"
  using example_calling_eval
  by (auto split: prod.splits loop_pc.splits list.splits task_pc.splits simp: map_eq_Cons_conv)

section \<open>Properties\<close>

text \<open>C4. A worker is called only for a dispatch that is on record. In every reachable state, a goroutine
  that is about to call the executor for a task of a job holds an authority that the leadership
  provider confirmed as leader, and the durable log of the job has the record of that dispatch: this
  task, this node, this attempt.\<close>

theorem executor_called_after_claim:
  assumes "sync s" "queued_ok s" "reserved_of s = (\<lambda>_. 0)"
    and "system_run ev (LoopIdle, s) (LoopStage r is sr, s')"
    and "g \<in> set (sr_goroutines sr)" "wk_pc (go_worker g) = PcCall a"
    and "tk_JobID (get_task s' (wk_task (go_worker g))) \<noteq> ''''"
  shows "(\<exists>tick la. ev_authority ev tick = Inr la \<and> la_IsLeader la
            \<and> a = \<lparr>da_LeaderID = la_LeaderID la, da_Epoch = la_Epoch la, da_Scope = la_Scope la\<rparr>)
    \<and> (\<exists>tr \<in> set (log_of s' (jb_ID (deref s' r))).
          tr_EntityType tr = TransitionEntityTask \<and> tr_Transition tr = TransitionTaskDispatched
          \<and> tr_TaskID tr = tk_ID (get_task s' (wk_task (go_worker g)))
          \<and> tr_NodeID tr = ni_ID (wk_node (go_worker g)) \<and> tr_Attempt tr = wk_attempt (go_worker g))"
proof -
  have "system_ok ev (LoopStage r is sr) s'"
    using system_steps_ok [OF assms(4)] assms(1-3) by (simp add: system_ok_def)
  then have "worker_ok ev s' (go_worker g)" "fst (wk_task (go_worker g)) = r"
    using assms(5) by (simp_all add: system_ok_def stage_ok_def of_job_def)
  then show ?thesis
    using assms(6,7) unfolding worker_ok_def claimed_def in_flight_def confirmed_def dispatch_of_def by simp
qed

theorem executor_called_after_claim_witness:
  "\<exists>r is sr s' g a tr. example_calling = (LoopStage r is sr, s')
     \<and> g \<in> set (sr_goroutines sr) \<and> wk_pc (go_worker g) = PcCall a
     \<and> tr \<in> set (log_of s' (jb_ID (deref s' r))) \<and> tr_Transition tr = TransitionTaskDispatched"
proof -
  obtain r todo sr s' g a where c: "example_calling = (LoopStage r todo sr, s')" "g \<in> set (sr_goroutines sr)"
      "wk_pc (go_worker g) = PcCall a" "tk_JobID (get_task s' (wk_task (go_worker g))) \<noteq> ''''"
    by (rule example_callingE)
  with executor_called_after_claim [OF example_queued_ok, of example_run_env r todo sr s' g a] example_calling_run
  show ?thesis by fastforce
qed

text \<open>C9. The reservations of a node are the executions under way on it: no slot is leaked and none is
  released twice, whatever the interleaving, and outside of a stage nothing is reserved.\<close>

theorem reservations_are_executions:
  assumes "sync s" "queued_ok s" "reserved_of s = (\<lambda>_. 0)"
    and "system_run ev (LoopIdle, s) (l, s')"
  shows "reserved_of s' n =
    (case l of
       LoopStage r is sr \<Rightarrow> int (length (filter (\<lambda>g. holds_slot n (go_worker g)) (sr_goroutines sr)))
     | _ \<Rightarrow> 0)"
proof -
  have "system_ok ev l s'" using system_steps_ok [OF assms(4)] assms(1-3) by (simp add: system_ok_def)
  then show ?thesis by (cases l) (simp_all add: system_ok_def stage_ok_def slots_def)
qed

theorem reservations_are_executions_witness: "reserved_of (snd example_calling) ''n1'' = 1"
proof -
  obtain r todo sr s' g where c: "example_calling = (LoopStage r todo sr, s')" "sr_goroutines sr = [g]"
      "holds_slot ''n1'' (go_worker g)"
    by (rule example_callingE)
  have "system_run example_run_env (LoopIdle, example_queued) (LoopStage r todo sr, s')"
    using example_calling_run c(1) by simp
  from reservations_are_executions [OF example_queued_ok this, of "''n1''"] show ?thesis
    unfolding c(1) using c(2,3) by simp
qed


end
