(* ===== verification/Incarnations.thy ===== *)
theory Incarnations
  imports Scheduler_System
begin

text \<open>
  The life of a scheduler across crashes. An incarnation runs as in \<open>Scheduler_System\<close>; at any point
  it may die, and the next one starts with \<^verbatim>\<open>RecoverFromTransitions\<close> on the store that is left, as
  \<^verbatim>\<open>Start\<close> of \<^verbatim>\<open>pkg/scheduler/scheduler.go\<close> does, whether the recovery succeeds or not. The invariant of
  one incarnation is established again by the recovery, so what holds in every reachable state of a
  run holds across any number of crashes.
\<close>

section \<open>What recovery leaves for the next run\<close>

definition recovery_frame :: "Scheduler \<Rightarrow> Scheduler \<Rightarrow> bool" where
  "recovery_frame s s' \<longleftrightarrow>
     (wf_map (sc_jobs s) \<longrightarrow> wf_map (sc_jobs s')) \<and> sc_pendingEnqueue s' = sc_pendingEnqueue s
     \<and> sc_nodeCapacity s' = sc_nodeCapacity s"

lemma recovery_frame_refl [simp]: "recovery_frame s s"
  by (simp add: recovery_frame_def)

lemma recovery_frame_tick [simp]: "recovery_frame (step_tick s) s' = recovery_frame s s'" "recovery_frame s (step_tick s') = recovery_frame s s'"
  by (simp_all add: recovery_frame_def)

lemma recovery_frame_trans: "recovery_frame s s' \<Longrightarrow> recovery_frame s' s'' \<Longrightarrow> recovery_frame s s''"
  by (simp add: recovery_frame_def)

lemma seed_frame [simp]: "recovery_frame s (snd (seedJobSequenceLocked jobID n trs s'')) = recovery_frame s s''"
  by (simp add: seedJobSequenceLocked_def Let_def recovery_frame_def)

lemma recover_job_frame: "recovery_frame s (snd (recover_job ev r s))"
  by (auto simp: recover_job_def alloc_job_def Let_def wf_map_mput recovery_frame_def split: option.split)
    (simp_all add: seedJobSequenceLocked_def Let_def wf_map_mput)

lemma recover_batch_frame: "recovery_frame s (snd (recover_batch ev n rs s))"
proof (induction rs arbitrary: n s)
  case (Cons r rs)
  define c where "c = (if Suc n mod recoveryContextCheckEvery = 0 then read_ctx ev s else (None, s))"
  have f: "recovery_frame s (snd c)" by (simp add: c_def read_ctx_def)
  have "recovery_frame s (snd (recover_batch ev (Suc n) rs (snd (recover_job ev r (snd c)))))"
    by (rule recovery_frame_trans [OF f recovery_frame_trans [OF recover_job_frame Cons.IH]])
  then show ?case using f by (auto simp: c_def read_ctx_def Let_def case_prod_beta split: option.split)
qed simp

lemma recover_batches_frame: "recovery_frame s (snd (recover_batches ev n k states s))"
proof (induction ev n k states s rule: recover_batches.induct)
  case (1 ev n k states s)
  let ?s1 = "snd (recover_batch ev k (take (Suc n) states) (step_tick s))"
  have f: "recovery_frame s ?s1"
    using recover_batch_frame [of "step_tick s"] by simp
  have IH: "recovery_frame s (snd (recover_batches ev n (k + length (take (Suc n) states)) (drop (Suc n) states) (step_tick ?s1)))"
    if "states \<noteq> []" "ev_ctx ev (sc_tick s) = None"
      "fst (fst (recover_batch ev k (take (Suc n) states) (step_tick s))) = None" "ev_ctx ev (sc_tick ?s1) = None"
    by (rule recovery_frame_trans [OF f])
      (use 1 [OF that(1) _ _ that(2) refl] that in \<open>auto simp: read_ctx_def prod_eq_iff\<close>)
  show ?case
    using f IH
    by (subst recover_batches.simps) (auto simp: read_ctx_def Let_def case_prod_beta split: option.split)
qed

lemma resume_frame: "recovery_frame s (snd (resumeRecoveredQueuedJobsLocked rs s))"
proof (induction rs arbitrary: s)
  case (Cons r rs)
  have "recovery_frame s (snd (enqueueJobLocked r s))"
    by (simp add: enqueueJobLocked_def Let_def recovery_frame_def)
  then show ?case
    using recovery_frame_trans [OF _ Cons.IH] Cons.IH by (simp add: Let_def case_prod_beta)
qed simp

lemma RecoverFromTransitions_frame: "recovery_frame s (snd (RecoverFromTransitions ev s))"
proof -
  have b: "recovery_frame s (snd (recover_batches ev n 0 states (step_tick s)))" for n states
    using recover_batches_frame [of "step_tick s"] by (simp del: recover_batches.simps)
  have r: "recovery_frame s (snd (resumeRecoveredQueuedJobsLocked refs (snd (recover_batches ev n 0 states (step_tick s)))))"
    for n states refs
    by (rule recovery_frame_trans [OF b resume_frame])
  show ?thesis
    by (simp add: RecoverFromTransitions_def Let_def case_prod_beta b r del: recover_batches.simps split: sum.split option.split)
qed

lemma recovered_ready:
  assumes "sync s"
  shows "system_ok ev LoopIdle (snd (RecoverFromTransitions ev (restart s)))"
proof -
  obtain err s' where r: "RecoverFromTransitions ev (restart s) = (err, s')" by fastforce
  note ok = RecoverFromTransitions_ok [OF restart_ok(1-3) [OF assms] r]
  have f: "recovery_frame (restart s) s'" using RecoverFromTransitions_frame [of "restart s" ev] r by simp
  have new: "sc_pendingEnqueue (restart s) = 0" "sc_nodeCapacity (restart s) = []"
    by (simp_all add: restart_def NewSchedulerWithConfig_def newSchedulerWithValidatedConfig_def)
  have "\<forall>r \<in> set (sc_jobQueue s'). registered s' r \<and> open_job s' r"
    using ok by (auto simp: only_recovers_def resumable_def open_job_def)
  then have "queued_ok s'" using ok f new(1) by (simp add: queued_ok_def recovery_frame_def wf_map_def)
  moreover have "reserved_of s' = (\<lambda>_. 0)" using f new(2) by (simp add: reserved_of_def recovery_frame_def fun_eq_iff)
  ultimately show ?thesis using ok r by (simp add: system_ok_def)
qed

section \<open>Dispatch records and calls\<close>

text \<open>A call of the executor: job, task, node and attempt.\<close>

type_synonym exec_call = "string \<times> string \<times> string \<times> int"

definition call_of :: "Scheduler \<Rightarrow> worker \<Rightarrow> exec_call" where
  "call_of s w =
     (jb_ID (deref s (fst (wk_task w))), tk_ID (get_task s (wk_task w)), ni_ID (wk_node w), wk_attempt w)"

definition attached :: "Scheduler \<Rightarrow> worker \<Rightarrow> bool" where
  "attached s w \<longleftrightarrow> tk_JobID (get_task s (wk_task w)) \<noteq> ''''"

definition calling :: "worker \<Rightarrow> bool" where
  "calling w = (case wk_pc w of PcCall _ \<Rightarrow> True | _ \<Rightarrow> False)"

text \<open>A goroutine that has claimed its attempt and not yet called.\<close>

definition may_call :: "worker \<Rightarrow> bool" where
  "may_call w =
     (case wk_pc w of PcReserve \<Rightarrow> True | PcStart \<Rightarrow> True | PcAuthorize \<Rightarrow> True | PcCall _ \<Rightarrow> True | _ \<Rightarrow> False)"

definition holds :: "Scheduler \<Rightarrow> exec_call \<Rightarrow> worker \<Rightarrow> bool" where
  "holds s c w \<longleftrightarrow> may_call w \<and> attached s w \<and> call_of s w = c"

definition dispatches :: "Scheduler \<Rightarrow> exec_call \<Rightarrow> nat" where
  "dispatches s c = (case c of (j, k, n, a) \<Rightarrow> length (filter (dispatch_of k n a) (log_of s j)))"

lemma dispatches_mset:
  "dispatches s (j, k, n, a) = size (filter_mset (dispatch_of k n a) (mset (log_of s j)))"
  by (simp add: dispatches_def flip: mset_filter)

lemma dispatches_mono: "grows s s' \<Longrightarrow> dispatches s c \<le> dispatches s' c"
  by (cases c) (simp add: dispatches_mset grows_def size_mset_mono multiset_filter_mono)

lemma recorded_dispatches:
  assumes "recorded s s' (wk_task w) (wk_node w) (wk_attempt w)"
  shows "dispatches s (call_of s w) < dispatches s' (call_of s w)"
proof -
  let ?P = "dispatch_of (tk_ID (get_task s (wk_task w))) (ni_ID (wk_node w)) (wk_attempt w)"
  let ?j = "jb_ID (deref s (fst (wk_task w)))"
  obtain tr where "?P tr" "add_mset tr (mset (log_of s ?j)) \<subseteq># mset (log_of s' ?j)"
    using assms unfolding recorded_def by blast
  from size_mset_mono [OF multiset_filter_mono [OF this(2), of ?P]] this(1)
  show ?thesis by (simp add: dispatches_mset call_of_def)
qed

lemma call_of_runs:
  assumes "runs s s'" "live s (wk_task w)" "wk_task w' = wk_task w" "wk_node w' = wk_node w" "wk_attempt w' = wk_attempt w"
  shows "call_of s' w' = call_of s w" "attached s' w' = attached s w"
  using runs_task [OF assms(1)] only_executes_frame(7) [OF runs_frame(1) [OF assms(1)]] assms(2-5)
  by (simp_all add: call_of_def attached_def live_def)

lemma holds_runs: "runs s s' \<Longrightarrow> live s (wk_task w) \<Longrightarrow> holds s' c w = holds s c w"
  using call_of_runs [of s s' w w] by (simp add: holds_def)

lemma next_attempt_may_call: "next_attempt ev nodes w s = (w', s') \<Longrightarrow> \<not> may_call w'"
  by (auto simp: next_attempt_def may_call_def case_prod_beta split: option.splits)

lemma may_call_simps [simp]:
  "may_call (w\<lparr>wk_pc := PcReserve\<rparr>)" "may_call (w\<lparr>wk_pc := PcStart\<rparr>)" "may_call (w\<lparr>wk_pc := PcAuthorize\<rparr>)"
  "may_call (w\<lparr>wk_pc := PcCall a\<rparr>)" "\<not> may_call (w\<lparr>wk_pc := PcFinish res\<rparr>)"
  "\<not> may_call (w\<lparr>wk_pc := PcRelease e\<rparr>)" "\<not> may_call (w\<lparr>wk_pc := PcReturn e\<rparr>)"
  by (simp_all add: may_call_def)

text \<open>A step of a goroutine either claims, with a new record of the dispatch, or keeps or gives up the
  claim it has; the call gives it up.\<close>

lemma worker_step_claim:
  assumes "sync s" "live s (wk_task w)" "worker_step ev nodes n w s = (w', s')" "may_call w'"
  shows "wk_task w' = wk_task w \<and> wk_node w' = wk_node w \<and> wk_attempt w' = wk_attempt w \<and> \<not> calling w
    \<and> (may_call w \<or> attached s w \<longrightarrow> may_call w \<or> recorded s s' (wk_task w) (wk_node w) (wk_attempt w))"
proof (cases "wk_pc w")
  case PcClaim
  obtain res s1 where c: "claim_attempt ev (wk_task w) (wk_node w) (wk_attempt w) s = (res, s1)" by fastforce
  have "res = None" "w' = w\<lparr>wk_pc := PcReserve\<rparr>" "s' = s1"
    using assms(3,4) PcClaim c
    by (auto simp: worker_step_def split: if_splits option.splits dest: next_attempt_may_call)
  then show ?thesis
    using claim_attempt_runs [OF assms(1,2) c] PcClaim by (auto simp: attached_def calling_def)
next
  case (PcRelease err)
  then show ?thesis
    using assms(3,4)
    by (auto simp: worker_step_def Let_def split: option.splits if_splits dest: next_attempt_may_call)
qed (use assms(3,4) in \<open>auto simp: worker_step_def Let_def case_prod_beta may_call_def calling_def split: sum.splits\<close>)

lemma worker_step_calls:
  assumes "sync s" "live s (wk_task w)" "worker_step ev nodes n w s = (w', s')"
  shows "of_bool (holds s' c w') + of_bool (calling w \<and> attached s w \<and> call_of s w = c) + dispatches s c
    \<le> of_bool (holds s c w) + dispatches s' c"
proof -
  have r: "runs s s'" using worker_step_runs [OF assms(1,2), of ev nodes n] assms(3) by simp
  note mono = dispatches_mono [OF runs_frame(2) [OF r], of c]
  have call: "calling w \<Longrightarrow> may_call w" by (auto simp: calling_def may_call_def split: task_pc.splits)
  show ?thesis
  proof (cases "holds s' c w'")
    case True
    then have m: "may_call w'" by (simp add: holds_def)
    note k = worker_step_claim [OF assms m]
    have "call_of s w = c" "attached s w" using True call_of_runs [OF r assms(2), of w'] k by (simp_all add: holds_def)
    then show ?thesis
      using True k mono recorded_dispatches [of s s' w] by (cases "may_call w") (auto simp: holds_def)
  next
    case False
    then show ?thesis using mono call by (auto simp: holds_def)
  qed
qed


text \<open>The claims held by the goroutines of the loop, and the call that a move of goroutine \<open>j\<close> makes.\<close>

definition stage_held :: "stage_run \<Rightarrow> Scheduler \<Rightarrow> exec_call \<Rightarrow> nat" where
  "stage_held sr s c = length (filter (\<lambda>g. holds s c (go_worker g)) (sr_goroutines sr))"

definition held :: "loop_pc \<Rightarrow> Scheduler \<Rightarrow> exec_call \<Rightarrow> nat" where
  "held l s c = (case l of LoopStage r is sr \<Rightarrow> stage_held sr s c | _ \<Rightarrow> 0)"

fun stage_calls :: "nat \<Rightarrow> stage_run \<Rightarrow> Scheduler \<Rightarrow> exec_call list" where
  "stage_calls 0 sr s = []"
| "stage_calls (Suc i) sr s =
     (if i < length (sr_goroutines sr) \<and> \<not> go_done (sr_goroutines sr ! i)
         \<and> calling (go_worker (sr_goroutines sr ! i)) \<and> attached s (go_worker (sr_goroutines sr ! i))
      then [call_of s (go_worker (sr_goroutines sr ! i))] else [])"

definition loop_calls :: "nat \<Rightarrow> loop_pc \<Rightarrow> Scheduler \<Rightarrow> exec_call list" where
  "loop_calls j l s = (case l of LoopStage r is sr \<Rightarrow> stage_calls j sr s | _ \<Rightarrow> [])"

lemma stage_held_runs:
  assumes "runs s s'" "\<And>g. g \<in> set (sr_goroutines sr) \<Longrightarrow> live s (wk_task (go_worker g))"
  shows "stage_held sr s' c = stage_held sr s c"
proof -
  have "filter (\<lambda>g. holds s' c (go_worker g)) (sr_goroutines sr) = filter (\<lambda>g. holds s c (go_worker g)) (sr_goroutines sr)"
    by (rule filter_cong [OF refl]) (rule holds_runs [OF assms])
  then show ?thesis by (simp add: stage_held_def)
qed

lemma goroutine_step_calls:
  assumes "sync s" "live s (wk_task (go_worker g))" "go_done g \<longrightarrow> returned (go_worker g)"
    and "goroutine_step ev nodes g s = (g', errs, s')"
  shows "of_bool (holds s' c (go_worker g')) + of_bool (\<not> go_done g \<and> calling (go_worker g) \<and> attached s (go_worker g)
      \<and> call_of s (go_worker g) = c) + dispatches s c
    \<le> of_bool (holds s c (go_worker g)) + dispatches s' c"
  using assms(4)
proof (cases rule: goroutine_step_cases)
  case step
  then have "worker_step ev nodes (max_attempts s) (go_worker g) s = (go_worker g', s')" by simp
  from worker_step_calls [OF assms(1,2) this, of c] show ?thesis by auto
next
  case rest
  then have "\<not> calling (go_worker g)"
    using assms(3) by (auto simp: calling_def returned_def split: task_pc.splits)
  moreover have r: "runs s s'" using rest(2) by auto
  ultimately show ?thesis
    using rest(1) holds_runs [OF r assms(2)] dispatches_mono [OF runs_frame(2) [OF r]] by simp
qed

lemma stage_step_calls:
  assumes "sync s" "stage_ok ev sr s" "stage_step ev j sr s = (sr', s')"
  shows "stage_held sr' s' c + count_list (stage_calls j sr s) c + dispatches s c \<le> stage_held sr s c + dispatches s' c"
proof -
  have live: "live s (wk_task (go_worker g))" if "g \<in> set (sr_goroutines sr)" for g
    using assms(2) that by (simp add: stage_ok_def worker_ok_def)
  have r: "runs s s'" using stage_step_safe(1) [OF assms(1,2), of j] assms(3) by simp
  note mono = dispatches_mono [OF runs_frame(2) [OF r], of c] and same = stage_held_runs [OF r live, of sr c]
  show ?thesis
  proof (cases j)
    case 0
    have new: "\<not> holds s' c (new_worker t node)" for t node by (simp add: holds_def may_call_def new_worker_def)
    have "stage_held sr' s' c = stage_held sr s' c"
      using main_step_goroutines [of ev sr s] assms(3) 0 new by (auto simp: stage_held_def split: if_splits)
    then show ?thesis using 0 mono same by simp
  next
    case (Suc i)
    show ?thesis
    proof (cases "i < length (sr_goroutines sr)")
      case True
      let ?g = "sr_goroutines sr ! i"
      obtain g errs s1 where g: "goroutine_step ev (sr_nodes sr) ?g s = (g, errs, s1)" by (metis prod_cases3)
      have sr': "sr_goroutines sr' = (sr_goroutines sr)[i := g]" "s1 = s'" using assms(3) Suc True g by auto
      have mem: "?g \<in> set (sr_goroutines sr)" using True by simp
      have "go_done ?g \<longrightarrow> returned (go_worker ?g)" using assms(2) mem by (simp add: stage_ok_def)
      note step = goroutine_step_calls [OF assms(1) live [OF mem] this g, of c, unfolded sr'(2)]
      define x y :: nat where "x = of_bool (holds s' c (go_worker g))" and "y = of_bool (holds s c (go_worker ?g))"
      have "int (stage_held sr' s' c) = int (stage_held sr s' c) + of_bool (holds s' c (go_worker g)) - of_bool (holds s' c (go_worker ?g))"
        using slots_update [OF True, of "\<lambda>g. holds s' c (go_worker g)" g] by (simp add: stage_held_def sr'(1))
      also have "holds s' c (go_worker ?g) = holds s c (go_worker ?g)" by (rule holds_runs [OF r live [OF mem]])
      finally have "int (stage_held sr' s' c) = int (stage_held sr s' c) + int x - int y"
        unfolding x_def y_def of_nat_of_bool .
      moreover have "count_list (stage_calls j sr s) c = of_bool (\<not> go_done ?g \<and> calling (go_worker ?g)
          \<and> attached s (go_worker ?g) \<and> call_of s (go_worker ?g) = c)"
        using Suc True by auto
      ultimately show ?thesis using step same unfolding x_def [symmetric] y_def [symmetric] by linarith
    next
      case False
      then show ?thesis using Suc assms(3) by simp
    qed
  qed
qed


section \<open>Logs grow\<close>

lemma finish_job_grows:
  assumes "sync s"
  shows "grows s (finish_job ev r err s)"
proof -
  have "grows s (recordJobTransition ev r transition new e (updateJobStatus ev r status s))" for transition new e status
  proof -
    let ?s = "updateJobStatus ev r status s"
    have "sync ?s" "grows s ?s" using assms updateJobStatus_ok(1) [THEN runs_frame(2)] by (simp_all add: updateJobStatus_ok(2))
    moreover obtain s1 where "only_records ?s s1" "grows ?s s1"
      "recordJobTransition ev r transition new e ?s \<in> {s1, upd_job r (\<lambda>j. j\<lparr>jb_LifecycleState := new\<rparr>) s1}"
      using recordJobTransition_effect [OF sync_durable_ok [OF \<open>sync ?s\<close>]] by blast
    ultimately show ?thesis using grows_trans by auto
  qed
  then show ?thesis by (simp add: finish_job_def split: option.split)
qed

lemma run_receive_grows:
  assumes "sync s" "queued_ok s" "run_receive ev s = (job, s')"
  shows "grows s s'"
proof (cases "dequeueJob s")
  case None
  then show ?thesis using assms by (simp add: run_receive_def)
next
  case (Some p)
  obtain r s1 where p: "p = (r, s1)" by fastforce
  note d = dequeue_ok [OF assms(1,2) Some [unfolded p]]
  have s1: "sc_transitionStore s1 = sc_transitionStore s"
    using Some p by (auto simp: dequeueJob_def markJobDequeued_def split: list.splits)
  obtain res s3 where rf: "refreshJobFromDurableState ev (jb_ID (deref s1 r)) (step_tick s1) = (res, s3)" by fastforce
  have s3: "sc_transitionStore s3 = sc_transitionStore s"
    using refreshJobFromDurableState_ok [OF _ rf] d(1) s1 by simp
  have q: "sc_transitionStore (requeueJob r (step_tick s1)) = sc_transitionStore s"
    by (simp add: requeueJob_def enqueueJobLocked_def Let_def s1)
  have "s' \<in> {s1, requeueJob r (step_tick s1), s3}"
    using assms(3) rf unfolding run_receive_def Some p option.case prod.case dispatchAuthority_def Let_def
    by (auto split: sum.splits if_splits)
  then have "sc_transitionStore s' = sc_transitionStore s" using s1 s3 q by auto
  then show ?thesis by (intro grows_same) (simp add: log_of_def fun_eq_iff)
qed


lemma loop_step_calls:
  assumes "system_ok ev l s" "loop_step ev j l s = (l', s')"
  shows "held l' s' c + count_list (loop_calls j l s) c + dispatches s c \<le> held l s c + dispatches s' c"
proof (cases "\<exists>r is sr. l = LoopStage r is sr \<and> \<not> stage_idle sr")
  case True
  then obtain r todo sr where l: "l = LoopStage r todo sr" "\<not> stage_idle sr" by blast
  obtain sr1 s1 where step: "stage_step ev j sr s = (sr1, s1)" by fastforce
  have "stage_ok ev sr s" "sync s" using assms(1) l(1) by (simp_all add: system_ok_def)
  from stage_step_calls [OF this(2,1) step, of c] show ?thesis
    using assms(2) l step by (auto simp: held_def loop_calls_def)
next
  case False
  have s: "sync s" "queued_ok s" using assms(1) by (simp_all add: system_ok_def)
  have "grows s s' \<and> held l' s' c = 0 \<and> loop_calls j l s = []"
  proof (cases l)
    case LoopIdle
    obtain job s1 where r: "run_receive ev s = (job, s1)" by fastforce
    note g = run_receive_grows [OF s r] and ok = run_receive_ok [OF s r]
    have "grows s1 (start_job ev r s1) \<and> register_job r s1 = (r, s1)" if "job = Some r" for r
      using that ok start_job_ok [of s1 r ev] runs_frame(2)
      by (auto simp: running_def register_job_def registered_def)
    then show ?thesis
      using assms(2) LoopIdle r g grows_trans
      by (cases job) (auto simp: held_def loop_calls_def begin_job_def Let_def)
  next
    case (LoopStages r todo)
    show ?thesis
    proof (cases todo)
      case Nil
      then show ?thesis
        using assms(2) LoopStages finish_job_grows [OF s(1)] by (auto simp: held_def loop_calls_def)
    next
      case (Cons i js)
      obtain begun s1 where b: "begin_stage ev r i s = (begun, s1)" by fastforce
      have l: "running s r" "i < length (jb_Stages (deref s r))" "reserved_of s = (\<lambda>_. 0)"
        using assms(1) LoopStages Cons by (simp_all add: system_ok_def stages_ok_def)
      note ok = begin_stage_ok(1,2) [OF s(1) l b]
      have "sr_goroutines sr = []" if "begun = Inr sr" for sr
        using b that by (auto simp: begin_stage_def Let_def case_prod_beta split: if_splits)
      then show ?thesis
        using assms(2) LoopStages Cons b runs_frame(2) [OF ok(2)] grows_trans [OF _ finish_job_grows [OF ok(1)]]
        by (cases begun) (auto simp: held_def loop_calls_def stage_held_def)
    qed
  next
    case (LoopStage r todo sr)
    then have idle: "stage_idle sr" using False by simp
    obtain err s1 where f: "finish_stage sr s = (err, s1)" by fastforce
    note ok = finish_stage_ok(1,2) [OF s(1) f]
    have "stage_calls j sr s = []" using idle by (cases j) (simp_all add: stage_idle_def list_all_length)
    then show ?thesis
      using assms(2) LoopStage idle f runs_frame(2) [OF ok(2)] grows_trans [OF _ finish_job_grows [OF ok(1)]]
      by (cases err) (auto simp: held_def loop_calls_def)
  qed
  then show ?thesis using dispatches_mono [of s s' c] by simp
qed

lemma client_held:
  assumes "system_ok ev l s" "client_ok s s'"
  shows "held l s' c = held l s c" "dispatches s c \<le> dispatches s' c"
proof -
  have b: "beside s s'" and s: "sync s" using assms by (simp_all add: client_ok_def system_ok_def)
  then show "dispatches s c \<le> dispatches s' c" using dispatches_mono by (simp add: beside_def)
  show "held l s' c = held l s c"
  proof (cases l)
    case (LoopStage r todo sr)
    then have r: "running s r" "of_job r sr" using assms(1) by (simp_all add: system_ok_def)
    have "deref s' r = deref s r" using besideD(2) [OF b] r(1) by (simp add: running_def)
    then have "holds s' c (go_worker g) = holds s c (go_worker g)" if "g \<in> set (sr_goroutines sr)" for g
      using that r(2) by (cases "wk_task (go_worker g)")
        (auto simp: of_job_def holds_def attached_def call_of_def get_task.simps)
    then have "filter (\<lambda>g. holds s' c (go_worker g)) (sr_goroutines sr) = filter (\<lambda>g. holds s c (go_worker g)) (sr_goroutines sr)"
      by (intro filter_cong) simp_all
    then show ?thesis by (simp add: LoopStage held_def stage_held_def)
  qed (simp_all add: held_def)
qed


section \<open>Incarnations\<close>

text \<open>A configuration, the environment of the current incarnation, and the calls made so far by all
  incarnations. The first scheduler is in step with its journal and executes nothing, as a new
  one on an empty store.\<close>

inductive life :: "env \<Rightarrow> exec_call list \<Rightarrow> loop_pc \<times> Scheduler \<Rightarrow> bool" where
  first: "sync s \<Longrightarrow> queued_ok s \<Longrightarrow> reserved_of s = (\<lambda>_. 0) \<Longrightarrow> life ev [] (LoopIdle, s)"
| loop: "life ev calls (l, s) \<Longrightarrow> life ev (calls @ loop_calls j l s) (loop_step ev j l s)"
| client: "life ev calls (l, s) \<Longrightarrow> client_step s s' \<Longrightarrow> life ev calls (l, s')"
| crash: "life ev calls (l, s) \<Longrightarrow> life ev' calls (LoopIdle, snd (RecoverFromTransitions ev' (restart s)))"

lemma life_invariant:
  "life ev calls c \<Longrightarrow>
   system_ok ev (fst c) (snd c) \<and> (\<forall>k. count_list calls k + held (fst c) (snd c) k \<le> dispatches (snd c) k)"
proof (induction rule: life.induct)
  case (first s ev)
  then show ?case by (simp add: system_ok_def held_def)
next
  case (loop ev calls l s j)
  obtain l' s' where step: "loop_step ev j l s = (l', s')" by fastforce
  have ok: "system_ok ev l s" using loop.IH by simp
  have "count_list (calls @ loop_calls j l s) k + held l' s' k \<le> dispatches s' k" for k
    using loop_step_calls [OF ok step, of k] loop.IH [THEN conjunct2, rule_format, of k] by simp
  then show ?case using loop_step_ok [OF ok, of j] step by simp
next
  case (client ev calls l s s')
  have ok: "system_ok ev l s" using client.IH by simp
  then have c: "client_ok s s'" using client_step_ok [OF client.hyps(2)] by (simp add: system_ok_def)
  have "count_list calls k + held l s' k \<le> dispatches s' k" for k
    using client_held [OF ok c, of k] client.IH [THEN conjunct2, rule_format, of k] by simp
  then show ?case using client_system_ok [OF ok c] by simp
next
  case (crash ev calls l s ev')
  let ?s = "snd (RecoverFromTransitions ev' (restart s))"
  have sync: "sync s" using crash.IH by (simp add: system_ok_def)
  have "sc_transitionStore ?s = sc_transitionStore s"
    using RecoverFromTransitions_ok [OF restart_ok(1-3) [OF sync] prod.collapse [symmetric]]
    by (simp add: only_recovers_def)
  then have "dispatches ?s k = dispatches s k" for k by (simp add: dispatches_def log_of_def)
  moreover have "count_list calls k \<le> dispatches s k" for k
    using crash.IH [THEN conjunct2, rule_format, of k] by simp
  ultimately show ?case using recovered_ready [OF sync] by (simp add: held_def)
qed



lemma new_scheduler_life: "life ev [] (LoopIdle, NewSchedulerWithConfig config)"
proof (rule life.first)
  have "sc_nodeCapacity (NewSchedulerWithConfig config) = []" "sc_jobs (NewSchedulerWithConfig config) = []"
    "sc_jobQueue (NewSchedulerWithConfig config) = []"
    by (simp_all add: NewSchedulerWithConfig_def newSchedulerWithValidatedConfig_def)
  then show "sync (NewSchedulerWithConfig config)" "queued_ok (NewSchedulerWithConfig config)"
    "reserved_of (NewSchedulerWithConfig config) = (\<lambda>_. 0)"
    using new_scheduler_ok [of config] by (simp_all add: queued_ok_def reserved_of_def fun_eq_iff wf_map_def)
qed

section \<open>An example: a crash after the call\<close>

fun life_steps :: "env \<Rightarrow> nat list \<Rightarrow> exec_call list \<Rightarrow> loop_pc \<Rightarrow> Scheduler \<Rightarrow> exec_call list \<times> loop_pc \<times> Scheduler" where
  "life_steps ev [] calls l s = (calls, l, s)"
| "life_steps ev (j # js) calls l s =
     (let (l', s') = loop_step ev j l s in life_steps ev js (calls @ loop_calls j l s) l' s')"

lemma life_steps_life:
  "life ev calls (l, s) \<Longrightarrow> life ev (fst (life_steps ev js calls l s)) (snd (life_steps ev js calls l s))"
proof (induction js arbitrary: calls l s)
  case (Cons j js)
  obtain l1 s1 where step: "loop_step ev j l s = (l1, s1)" by fastforce
  then have "life ev (calls @ loop_calls j l s) (l1, s1)" using life.loop [OF Cons.prems, of j] by simp
  then show ?case using Cons.IH step by simp
qed simp

text \<open>The scheduler dies after it has called the executor, before the answer is recorded.\<close>

definition example_first_life :: "exec_call list \<times> loop_pc \<times> Scheduler" where
  "example_first_life = life_steps example_run_env [0,0,0,1,1,1,1,1] [] LoopIdle example_queued"

definition example_second_life :: Scheduler where
  "example_second_life = snd (RecoverFromTransitions example_run_env (restart (snd (snd example_first_life))))"

lemma example_life: "life example_run_env (fst example_first_life) (LoopIdle, example_second_life)"
proof -
  have "life example_run_env (fst example_first_life) (snd example_first_life)"
    unfolding example_first_life_def by (rule life_steps_life [OF life.first [OF example_queued_ok]])
  then show ?thesis
    using life.crash [of example_run_env "fst example_first_life" "fst (snd example_first_life)"]
    by (simp add: example_second_life_def)
qed

lemma example_life_calls: "fst example_first_life = [(''j1'', ''t1'', ''n1'', 1)]"
  by code_simp

end
