(* ===== verification/Stage_Outcome.thy ===== *)
theory Stage_Outcome
  imports Scheduler_System
begin

text \<open>
  What the result of \<^verbatim>\<open>executeStage\<close> and \<^verbatim>\<open>executeJob\<close> (\<^verbatim>\<open>pkg/scheduler/scheduler.go\<close>) says about the
  tasks. For every interleaving of the goroutines, a stage that returns no error under a context
  that is never cancelled has run each of its tasks: the task is completed and its output is an
  answer of the executor. The same then holds of all tasks of a job that ends as completed. Two
  examples show where the code falls short: a cancelled stage can hide the failure of a task, and
  resuming a job after human input leaves a history that cannot be replayed.
\<close>

declare upd_task.simps [simp del] get_task.simps [simp del] task_ok.simps [simp del]

section \<open>The work of a task\<close>

text \<open>The part of a task that its execution is about: status, output, and what the executor is given.\<close>

definition work_of :: "Scheduler \<Rightarrow> task_ref \<Rightarrow> JobStatus \<times> AgentOutput option \<times> string \<times> AgentInput option" where
  "work_of s t = (let k = get_task s t in (tk_Status k, tk_Output k, tk_AgentName k, tk_Input k))"

lemma work_of_deref: "deref s' = deref s \<Longrightarrow> work_of s' = work_of s"
  by (rule ext) (auto simp: work_of_def get_task.simps)

lemma get_upd_task:
  "get_task (upd_task t f s) t' = (if t' = t \<and> task_ok s t then f (get_task s t) else get_task s t')"
proof -
  obtain r i k r' i' k' where t: "t = (r, i, k)" "t' = (r', i', k')" by (metis prod_cases3)
  show ?thesis
    by (auto simp: t get_task.simps upd_task.simps task_ok.simps upd_stage_def upd_nth_def nth_list_update)
qed

lemma work_of_upd_task:
  "work_of (upd_task t f s) t' =
     (if t' = t \<and> task_ok s t
      then (let k = f (get_task s t) in (tk_Status k, tk_Output k, tk_AgentName k, tk_Input k))
      else work_of s t')"
  by (simp add: work_of_def get_upd_task)

lemma work_of_upd_other: "t' \<noteq> t \<Longrightarrow> work_of (upd_task t f s) t' = work_of s t'"
  by (simp add: work_of_upd_task)

lemma work_of_lifecycle [simp]:
  "work_of (upd_task t (\<lambda>k. k\<lparr>tk_LifecycleState := new\<rparr>) s) = work_of s"
  "work_of (upd_task t (\<lambda>k. k\<lparr>tk_Attempts := a\<rparr>) s) = work_of s"
  by (auto simp: fun_eq_iff work_of_upd_task) (simp_all add: work_of_def Let_def)

lemma work_of_upd_job:
  "(\<And>j. jb_Stages (f j) = jb_Stages j) \<Longrightarrow> work_of (upd_job r f s) = work_of s"
  by (rule ext) (auto simp: work_of_def get_task.simps)

lemma work_of_upd_stage:
  assumes "\<And>g. sg_Tasks (f g) = sg_Tasks g"
  shows "work_of (upd_stage r i f s) = work_of s"
proof
  fix t :: task_ref
  obtain r' i' k' where t: "t = (r', i', k')" by (metis prod_cases3)
  show "work_of (upd_stage r i f s) t = work_of s t"
    using assms by (auto simp: t work_of_def get_task.simps upd_stage_def upd_nth_def nth_list_update)
qed

lemma work_of_records [simp]:
  "work_of (step_tick s) = work_of s"
  "work_of (snd (nextSequenceIDWithContext ev jobID s)) = work_of s"
  "work_of (snd (persistTransitionWrite ev fn s)) = work_of s"
  using only_records_frame(2) [OF nextSequence_only [OF prod.collapse [symmetric]]]
    only_records_frame(2) [OF persist_only [OF prod.collapse [symmetric]]]
  by (auto intro!: work_of_deref)

lemma work_of_recordJob [simp]: "work_of (recordJobTransition ev r transition new err s) = work_of s"
  by (simp add: recordJobTransition_def Let_def time_Now_def case_prod_beta work_of_upd_job
      split: sum.split option.split)

lemma work_of_recordTask [simp]:
  "work_of (recordTaskTransition ev t transition new nodeID attempt err s) = work_of s"
  by (simp add: recordTaskTransition_def Let_def time_Now_def case_prod_beta
      split: sum.split option.split)

lemma work_of_first_dispatch [simp]: "work_of (recordJobRunningOnFirstDispatch ev jobID s) = work_of s"
  by (simp add: recordJobRunningOnFirstDispatch_def split: option.split JobLifecycleState.split)

lemma work_of_claim [simp]: "work_of (snd (claim_attempt ev t node attempt s)) = work_of s"
  by (simp add: claim_attempt_def claimTaskDispatchTransition_def Let_def time_Now_def case_prod_beta
      split: sum.split option.split)

lemma work_of_selection:
  assumes "only_selection s s'"
  shows "work_of s' = work_of s"
  by (rule work_of_deref) (simp add: fun_eq_iff only_selection_frame(15) [OF assms])

lemma work_of_capacity [simp]:
  "work_of (reserveNodeSlot ev n s) = work_of s" "work_of (releaseNodeSlot ev n s) = work_of s"
  "work_of (markDispatchCooldown ev n s) = work_of s"
  "work_of (snd (selectNodeForTask ev task nodes s)) = work_of s"
  by (rule work_of_selection, rule only_capacity_selection reserve_release_frame capacity_ops_frame
      selectNodeForTask_frame, (rule reserve_release_frame capacity_ops_frame)?)+

lemma work_of_pieces [simp]:
  "work_of (snd (authorize_task ev s)) = work_of s"
  "work_of (snd (call_executor ev t node a s)) = work_of s"
  "work_of (snd (next_attempt ev nodes w s)) = work_of s"
  "work_of (snd (main_step ev sr s)) = work_of s"
  "work_of (updateJobStatus ev r status s) = work_of s"
  by (simp_all add: authorize_task_def dispatchAuthority_def call_executor_def next_attempt_def main_step_def
      read_ctx_def GetHealthyNodes_def updateJobStatus_def time_Now_def Let_def case_prod_beta work_of_upd_job
      split: sum.split option.split list.split stage_pc.split deferral_event.split)

lemma work_of_task_pieces:
  assumes "t' \<noteq> t"
  shows "work_of (start_task ev t node s) t' = work_of s t'"
    "work_of (snd (finish_task ev t node res s)) t' = work_of s t'"
  using assms
  by (simp_all add: start_task_def finish_task_def Let_def work_of_upd_other split: sum.split)

text \<open>A goroutine works on its own task only.\<close>

lemma work_of_worker_step:
  "t \<noteq> wk_task w \<Longrightarrow> work_of (snd (worker_step ev nodes n w s)) t = work_of s t"
  by (simp add: worker_step_def Let_def case_prod_beta work_of_task_pieces
      split: task_pc.split option.split sum.split)

lemma work_of_goroutine_step:
  "t \<noteq> wk_task (go_worker g) \<Longrightarrow> work_of (snd (snd (goroutine_step ev nodes g s))) t = work_of s t"
  by (simp add: goroutine_step_def Let_def case_prod_beta work_of_worker_step
      split: task_pc.split option.split)

section \<open>Completed tasks\<close>

text \<open>The executor gave this output for this task, called with an authority confirmed by the leadership
  provider.\<close>

definition executed :: "env \<Rightarrow> string \<Rightarrow> AgentInput option \<Rightarrow> AgentOutput option \<Rightarrow> bool" where
  "executed ev agent input out \<longleftrightarrow>
     (\<exists>tick a nodeID. confirmed ev a \<and> ev_exec ev tick a nodeID agent input = Inr out)"

definition task_completed :: "env \<Rightarrow> Scheduler \<Rightarrow> task_ref \<Rightarrow> bool" where
  "task_completed ev s t \<longleftrightarrow>
     (case work_of s t of (status, out, agent, input) \<Rightarrow> status = JobCompleted \<and> executed ev agent input out)"

definition progress_ok :: "env \<Rightarrow> Scheduler \<Rightarrow> worker \<Rightarrow> bool" where
  "progress_ok ev s w \<longleftrightarrow>
     (case wk_pc w of
        PcCall a \<Rightarrow> confirmed ev a
      | PcFinish (Inr out) \<Rightarrow> (case work_of s (wk_task w) of (_, _, agent, input) \<Rightarrow> executed ev agent input out)
      | PcRelease None \<Rightarrow> task_completed ev s (wk_task w)
      | PcReturn None \<Rightarrow> task_completed ev s (wk_task w)
      | _ \<Rightarrow> True)"

lemma task_completed_work: "work_of s' t = work_of s t \<Longrightarrow> task_completed ev s' t = task_completed ev s t"
  by (simp add: task_completed_def)

lemma progress_ok_work: "work_of s' (wk_task w) = work_of s (wk_task w) \<Longrightarrow> progress_ok ev s' w = progress_ok ev s w"
  by (simp add: progress_ok_def task_completed_def split: task_pc.split sum.split option.split)

lemma finish_task_completes:
  assumes "task_ok s t" "case work_of s t of (_, _, agent, input) \<Rightarrow> executed ev agent input out"
  shows "task_completed ev (snd (finish_task ev t node (Inr out) s)) t"
  using assms by (simp add: finish_task_def Let_def task_completed_def work_of_upd_task) (simp add: work_of_def Let_def)

lemma finish_task_error: "fst (finish_task ev t node (Inl e) s) \<noteq> None"
  by (simp add: finish_task_def Let_def)

lemma next_attempt_progress:
  "progress_ok ev s' (fst (next_attempt ev nodes w s))"
  "wk_attempt (fst (next_attempt ev nodes w s)) \<le> wk_attempt w + 1"
  by (simp_all add: next_attempt_def case_prod_beta progress_ok_def split: option.split)

lemma progress_ok_simps [simp]:
  "progress_ok ev s (w\<lparr>wk_pc := PcReserve\<rparr>)" "progress_ok ev s (w\<lparr>wk_pc := PcStart\<rparr>)"
  "progress_ok ev s (w\<lparr>wk_pc := PcAuthorize\<rparr>)" "progress_ok ev s (w\<lparr>wk_pc := PcCall a\<rparr>) = confirmed ev a"
  "progress_ok ev s (w\<lparr>wk_pc := PcRelease err\<rparr>) = (err = None \<longrightarrow> task_completed ev s (wk_task w))"
  "progress_ok ev s (w\<lparr>wk_pc := PcReturn err\<rparr>) = (err = None \<longrightarrow> task_completed ev s (wk_task w))"
  by (simp_all add: progress_ok_def split: option.split)

lemma worker_step_progress:
  assumes "progress_ok ev s w" "task_ok s (wk_task w)" "wk_attempt w \<le> n" "\<not> returned w"
    and step: "worker_step ev nodes n w s = (w', s')"
  shows "progress_ok ev s' w' \<and> wk_attempt w' \<le> n"
proof -
  have retry: "progress_ok ev s' w' \<and> wk_attempt w' \<le> n"
    if "wk_attempt w \<noteq> n" "next_attempt ev nodes w s1 = (w', s')" for s1
    using next_attempt_progress(1) [of ev s' nodes w s1] next_attempt_progress(2) [of ev nodes w s1] that assms(3)
    by simp
  show ?thesis
  proof (cases "wk_pc w")
    case (PcCall a)
    then have "confirmed ev a" using assms(1) by (simp add: progress_ok_def)
    then show ?thesis
      using step PcCall assms(3)
      by (auto simp: worker_step_def Let_def progress_ok_def call_executor_def executed_def work_of_def split: sum.split) blast
  next
    case (PcFinish res)
    obtain err where f: "finish_task ev (wk_task w) (wk_node w) res s = (err, s')" and w': "w' = w\<lparr>wk_pc := PcRelease err\<rparr>"
      using step PcFinish by (auto simp: worker_step_def split: prod.splits)
    have "task_completed ev s' (wk_task w)" if "err = None"
    proof (cases res)
      case (Inr out)
      then have "case work_of s (wk_task w) of (_, _, agent, input) \<Rightarrow> executed ev agent input out"
        using assms(1) PcFinish by (simp add: progress_ok_def)
      from finish_task_completes [OF assms(2) this, of "wk_node w"] show ?thesis using f Inr by simp
    next
      case (Inl e)
      then show ?thesis using finish_task_error [of ev "wk_task w" "wk_node w" e s] f that by simp
    qed
    then show ?thesis using w' assms(3) by simp
  next
    case (PcRelease err)
    have "task_completed ev (releaseNodeSlot ev (ni_ID (wk_node w)) s) (wk_task w)" if "err = None"
      using assms(1) PcRelease that by (simp add: progress_ok_def task_completed_def)
    then show ?thesis
      using step PcRelease assms(3) retry
      by (auto simp: worker_step_def Let_def split: option.splits if_splits)
  qed (use step assms(3,4) retry authorize_confirmed [of ev s] in
      \<open>auto simp: worker_step_def returned_def split: option.splits sum.splits if_splits prod.splits\<close>)
qed

section \<open>A stage\<close>

text \<open>The goroutines and the tasks not yet started are the tasks of the stage; a goroutine that is over
  completed its task or left an error in the channel.\<close>

definition outcome_ok :: "env \<Rightarrow> stage_run \<Rightarrow> Scheduler \<Rightarrow> bool" where
  "outcome_ok ev sr s \<longleftrightarrow>
     map (wk_task \<circ> go_worker) (sr_goroutines sr) @ sr_todo sr = stage_task_refs (fst (sr_ref sr)) (snd (sr_ref sr)) s
     \<and> snd (sr_ref sr) < length (jb_Stages (deref s (fst (sr_ref sr))))
     \<and> (sr_pc sr = StWait \<longrightarrow> sr_todo sr = [] \<or> sr_selectionErr sr \<noteq> None)
     \<and> (\<forall>g \<in> set (sr_goroutines sr).
          progress_ok ev s (go_worker g) \<and> wk_attempt (go_worker g) \<le> max_attempts s
          \<and> (go_done g \<longrightarrow> wk_pc (go_worker g) = PcReturn None \<or> sr_errChan sr \<noteq> []))"

lemma stage_task_refs_executes:
  assumes "only_executes s s'" "i < length (jb_Stages (deref s r))"
  shows "stage_task_refs r i s' = stage_task_refs r i s"
proof -
  have "map (\<lambda>g. map tk_ID (sg_Tasks g)) (jb_Stages (deref s' r)) = map (\<lambda>g. map tk_ID (sg_Tasks g)) (jb_Stages (deref s r))"
    using only_executes_frame(10) [OF assms(1)] by (simp add: job_shape_def)
  then have "map (\<lambda>g. map tk_ID (sg_Tasks g)) (jb_Stages (deref s' r)) ! i
      = map (\<lambda>g. map tk_ID (sg_Tasks g)) (jb_Stages (deref s r)) ! i" by simp
  then have "map tk_ID (sg_Tasks (jb_Stages (deref s' r) ! i)) = map tk_ID (sg_Tasks (jb_Stages (deref s r) ! i))"
    using assms only_executes_frame(8) [OF assms(1), of r] by simp
  from map_eq_imp_length_eq [OF this] show ?thesis by (simp add: stage_task_refs_def)
qed

lemma max_attempts_pos: "1 \<le> max_attempts s"
  by (simp add: max_attempts_def)

lemma new_worker_progress: "progress_ok ev s (new_worker t node)" "wk_attempt (new_worker t node) \<le> max_attempts s"
  "wk_task (new_worker t node) = t"
  using max_attempts_pos by (simp_all add: progress_ok_def new_worker_def)

lemma main_step_cases:
  assumes "sr_pc sr \<noteq> StWait" "main_step ev sr s = (sr', s')"
  obtains (over) "sr_todo sr = []" "sr' = sr\<lparr>sr_pc := StWait\<rparr>"
    | (stop) e where "sr' = stop_selecting e sr"
    | (start) node where "sr_todo sr \<noteq> []" "sr' = spawn (hd (sr_todo sr)) node sr"
    | (defer_on) events aff where "sr' = sr\<lparr>sr_pc := StDefer events aff\<rparr>"
proof -
  have "sr_todo sr = [] \<and> sr' = sr\<lparr>sr_pc := StWait\<rparr> \<or> (\<exists>e. sr' = stop_selecting e sr)
      \<or> sr_todo sr \<noteq> [] \<and> (\<exists>node. sr' = spawn (hd (sr_todo sr)) node sr)
      \<or> (\<exists>events aff. sr' = sr\<lparr>sr_pc := StDefer events aff\<rparr>)"
    using assms unfolding main_step_def Let_def case_prod_beta
    by (auto split: list.splits stage_pc.splits option.splits deferral_event.splits if_splits)
  then show thesis using that by blast
qed

lemma main_step_outcome:
  assumes "outcome_ok ev sr s" "sr_pc sr \<noteq> StWait" "main_step ev sr s = (sr', s')"
  shows "outcome_ok ev sr' s"
  using assms(2,3)
proof (cases rule: main_step_cases)
  case (start node)
  have "map (wk_task \<circ> go_worker) (sr_goroutines sr') @ sr_todo sr'
      = map (wk_task \<circ> go_worker) (sr_goroutines sr) @ sr_todo sr"
    using start by (simp add: spawn_def new_worker_progress(3))
  then show ?thesis
    using assms(1) start(2) new_worker_progress(1,2) by (auto simp: outcome_ok_def spawn_def)
qed (use assms(1) in \<open>simp_all add: outcome_ok_def stop_selecting_def\<close>)

lemma outcome_ok_executes:
  assumes "only_executes s s'" "outcome_ok ev sr s" "\<forall>g \<in> set (sr_goroutines sr). progress_ok ev s' (go_worker g)"
  shows "outcome_ok ev sr s'"
  using assms stage_task_refs_executes [OF assms(1)] max_attempts_executes [OF assms(1)]
    only_executes_frame(8) [OF assms(1)]
  by (auto simp: outcome_ok_def)

lemma goroutine_step_outcome:
  assumes "progress_ok ev s (go_worker g)" "wk_attempt (go_worker g) \<le> max_attempts s" "task_ok s (wk_task (go_worker g))"
    and "\<And>tick. ev_ctx ev tick = None" and "\<not> go_done g"
    and step: "goroutine_step ev nodes g s = (g', errs, s')"
  shows "progress_ok ev s' (go_worker g') \<and> wk_attempt (go_worker g') \<le> max_attempts s
    \<and> (go_done g' \<longrightarrow> wk_pc (go_worker g') = PcReturn None \<or> errs \<noteq> [])"
proof (cases "wk_pc (go_worker g)")
  case (PcReturn err)
  then show ?thesis
    using step assms(1,2,4,5) by (cases err) (auto simp: goroutine_step_def progress_ok_def task_completed_def)
qed (use step assms(5) worker_step_progress [OF assms(1,3,2)] in
    \<open>auto simp: goroutine_step_def returned_def split: prod.splits\<close>)


lemma outcome_task_ok:
  assumes "outcome_ok ev sr s" "g \<in> set (sr_goroutines sr)"
  shows "task_ok s (wk_task (go_worker g))"
proof -
  have "wk_task (go_worker g) \<in> set (map (wk_task \<circ> go_worker) (sr_goroutines sr) @ sr_todo sr)"
    using assms(2) by simp
  then show ?thesis
    using assms(1) unfolding outcome_ok_def by (auto simp: stage_task_refs_def task_ok.simps)
qed

lemma outcome_distinct:
  assumes "outcome_ok ev sr s" "i < length (sr_goroutines sr)" "j < length (sr_goroutines sr)" "i \<noteq> j"
  shows "wk_task (go_worker (sr_goroutines sr ! i)) \<noteq> wk_task (go_worker (sr_goroutines sr ! j))"
proof -
  have "distinct (stage_task_refs r k s)" for r k by (simp add: stage_task_refs_def distinct_map inj_on_def)
  then have "distinct (map (wk_task \<circ> go_worker) (sr_goroutines sr) @ sr_todo sr)"
    using assms(1) by (simp only: outcome_ok_def)
  then have "distinct (map (wk_task \<circ> go_worker) (sr_goroutines sr))" by simp
  from nth_eq_iff_index_eq [OF this, of i j] assms(2-4) show ?thesis by simp
qed

lemma other_progress:
  assumes "outcome_ok ev sr s" "i < length (sr_goroutines sr)" "k < length (sr_goroutines sr)" "k \<noteq> i"
    and "goroutine_step ev nodes (sr_goroutines sr ! i) s = (g, errs, s')"
  shows "progress_ok ev s' (go_worker (sr_goroutines sr ! k))"
proof -
  have "work_of s' (wk_task (go_worker (sr_goroutines sr ! k))) = work_of s (wk_task (go_worker (sr_goroutines sr ! k)))"
    using work_of_goroutine_step [OF outcome_distinct [OF assms(1,3,2,4)], of ev nodes s] assms(5) by simp
  from progress_ok_work [OF this] show ?thesis using assms(1,3) by (simp add: outcome_ok_def)
qed

lemma goroutine_move_outcome:
  assumes "outcome_ok ev sr s" "\<And>tick. ev_ctx ev tick = None"
    and i: "i < length (sr_goroutines sr)" "\<not> go_done (sr_goroutines sr ! i)"
    and g: "goroutine_step ev (sr_nodes sr) (sr_goroutines sr ! i) s = (g, errs, s')"
  shows "outcome_ok ev (sr\<lparr>sr_goroutines := (sr_goroutines sr)[i := g], sr_errChan := sr_errChan sr @ errs\<rparr>) s'"
proof -
  let ?g = "sr_goroutines sr ! i"
  have mem: "?g \<in> set (sr_goroutines sr)" using i by simp
  have ok: "progress_ok ev s (go_worker ?g)" "wk_attempt (go_worker ?g) \<le> max_attempts s"
    using assms(1) mem by (simp_all add: outcome_ok_def)
  note new = goroutine_step_outcome [OF ok outcome_task_ok [OF assms(1) mem] assms(2) i(2) g]
  have ex: "only_executes s s'" using goroutine_step_frame [of s ev "sr_nodes sr" ?g] g by simp
  have refs: "map (wk_task \<circ> go_worker) ((sr_goroutines sr)[i := g]) = map (wk_task \<circ> go_worker) (sr_goroutines sr)"
    using i goroutine_step_task [of ev "sr_nodes sr" ?g s] g by (simp add: map_update list_update_same_conv)
  have gs: "progress_ok ev s' (go_worker x) \<and> wk_attempt (go_worker x) \<le> max_attempts s
      \<and> (go_done x \<longrightarrow> wk_pc (go_worker x) = PcReturn None \<or> sr_errChan sr @ errs \<noteq> [])"
    if x: "x \<in> set ((sr_goroutines sr)[i := g])" for x
  proof -
    obtain k where k: "k < length (sr_goroutines sr)" "x = (sr_goroutines sr)[i := g] ! k"
      using x by (auto simp: in_set_conv_nth)
    show ?thesis
    proof (cases "k = i")
      case True
      then show ?thesis using k new i by auto
    next
      case False
      then show ?thesis
        using k other_progress [OF assms(1) i(1) k(1) False g] assms(1) by (auto simp: outcome_ok_def)
    qed
  qed
  show ?thesis
    using assms(1) gs refs stage_task_refs_executes [OF ex] only_executes_frame(8) [OF ex] max_attempts_executes [OF ex]
    unfolding outcome_ok_def by simp
qed

lemma stage_step_outcome:
  assumes "outcome_ok ev sr s" "\<And>tick. ev_ctx ev tick = None" "stage_step ev j sr s = (sr', s')"
  shows "outcome_ok ev sr' s'"
proof (cases "can_move j sr")
  case move: True
  show ?thesis
  proof (cases j)
    case 0
    then have m: "sr_pc sr \<noteq> StWait" "main_step ev sr s = (sr', s')" using assms(3) move by simp_all
    have ex: "only_executes s s'" and work: "work_of s' = work_of s"
      using main_step_frame [of s ev sr] work_of_pieces(4) [of ev sr s] m by simp_all
    have ok: "outcome_ok ev sr' s" by (rule main_step_outcome [OF assms(1) m])
    have "progress_ok ev s' w = progress_ok ev s w" for w by (rule progress_ok_work) (simp add: work)
    then show ?thesis using ok by (intro outcome_ok_executes [OF ex ok]) (simp add: outcome_ok_def)
  next
    case (Suc i)
    obtain g errs s1 where g: "goroutine_step ev (sr_nodes sr) (sr_goroutines sr ! i) s = (g, errs, s1)"
      by (metis prod_cases3)
    then show ?thesis using goroutine_move_outcome [OF assms(1,2) _ _ g] assms(3) move by (simp add: Suc)
  qed
next
  case False
  then have "(sr', s') = (sr, s)" using assms(3) by (cases j) (auto simp: goroutine_step_def split: if_splits)
  then show ?thesis using assms(1) by simp
qed

lemma drain_stage_invariant:
  assumes "\<And>j sr s. P sr s \<Longrightarrow> P (fst (stage_step ev j sr s)) (snd (stage_step ev j sr s))"
  shows "P sr s \<Longrightarrow> P (fst (drain_stage ev sr s)) (snd (drain_stage ev sr s)) \<and> stage_idle (fst (drain_stage ev sr s))"
  using assms
proof (induction ev sr s rule: drain_stage.induct)
  case (1 ev sr s)
  show ?case
  proof (cases "stage_idle sr")
    case True
    then show ?thesis using "1.prems"(1) by (simp add: drain_stage.simps)
  next
    case False
    obtain sr1 s1 where s1: "stage_step ev (next_mover sr) sr s = (sr1, s1)" by fastforce
    then have "P sr1 s1" using "1.prems"(2) [OF "1.prems"(1), of "next_mover sr"] by simp
    from "1.IH" [OF False s1 [symmetric] refl this "1.prems"(2)] show ?thesis
      using False by (simp add: drain_stage.simps [of ev sr s] s1)
  qed
qed

lemma run_schedule_invariant:
  assumes "\<And>j sr s. P sr s \<Longrightarrow> P (fst (stage_step ev j sr s)) (snd (stage_step ev j sr s))"
  shows "P sr s \<Longrightarrow>
    P (fst (run_schedule ev sched sr s)) (snd (run_schedule ev sched sr s)) \<and> stage_idle (fst (run_schedule ev sched sr s))"
proof (induction sched arbitrary: sr s)
  case Nil
  then show ?case using drain_stage_invariant [of P, OF assms] by simp
next
  case (Cons j js)
  then show ?case using assms [of sr s j] by (simp add: case_prod_beta)
qed

section \<open>Stages and jobs\<close>

text \<open>The run of a stage changes the work of its own tasks only.\<close>

definition stage_frame :: "job_ref \<Rightarrow> nat \<Rightarrow> Scheduler \<Rightarrow> Scheduler \<Rightarrow> bool" where
  "stage_frame r i s s' \<longleftrightarrow>
     (\<forall>r. job_shape (deref s' r) = job_shape (deref s r))
     \<and> (\<forall>t. (fst t, fst (snd t)) \<noteq> (r, i) \<longrightarrow> work_of s' t = work_of s t)"

lemma stage_frame_refl [simp]: "stage_frame r i s s"
  by (simp add: stage_frame_def)

lemma stage_frame_trans: "stage_frame r i s s' \<Longrightarrow> stage_frame r i s' s'' \<Longrightarrow> stage_frame r i s s''"
  by (simp add: stage_frame_def)

lemma stage_frame_status: "stage_frame r i s (upd_stage r' i' (\<lambda>g. g\<lparr>sg_Status := st\<rparr>) s)"
proof -
  have "job_shape (deref (upd_stage r' i' (\<lambda>g. g\<lparr>sg_Status := st\<rparr>) s) x) = job_shape (deref s x)" for x
    by (auto simp: job_shape_def upd_stage_def upd_nth_def map_update list_update_same_conv)
  then show ?thesis by (simp add: stage_frame_def work_of_upd_stage)
qed

lemma shape_tasks:
  assumes "job_shape (deref s' r) = job_shape (deref s r)"
  shows "length (jb_Stages (deref s' r)) = length (jb_Stages (deref s r))"
    "i < length (jb_Stages (deref s r)) \<Longrightarrow>
     length (sg_Tasks (jb_Stages (deref s' r) ! i)) = length (sg_Tasks (jb_Stages (deref s r) ! i))"
proof -
  let ?ids = "\<lambda>s. map (\<lambda>g. map tk_ID (sg_Tasks g)) (jb_Stages (deref s r))"
  have ids: "?ids s' = ?ids s" using assms by (simp add: job_shape_def)
  then show len: "length (jb_Stages (deref s' r)) = length (jb_Stages (deref s r))" by (rule map_eq_imp_length_eq)
  assume "i < length (jb_Stages (deref s r))"
  then have "map tk_ID (sg_Tasks (jb_Stages (deref s' r) ! i)) = map tk_ID (sg_Tasks (jb_Stages (deref s r) ! i))"
    using arg_cong [OF ids, of "\<lambda>l. l ! i"] len by simp
  then show "length (sg_Tasks (jb_Stages (deref s' r) ! i)) = length (sg_Tasks (jb_Stages (deref s r) ! i))"
    by (rule map_eq_imp_length_eq)
qed

lemma stage_step_stage_frame:
  assumes "outcome_ok ev sr s" "sr_ref sr = (r, i)"
  shows "stage_frame r i s (snd (stage_step ev j sr s))" "sr_ref (fst (stage_step ev j sr s)) = (r, i)"
proof -
  have own: "(fst t, fst (snd t)) = (r, i)" if "g \<in> set (sr_goroutines sr)" "t = wk_task (go_worker g)" for g t
  proof -
    have "t \<in> set (map (wk_task \<circ> go_worker) (sr_goroutines sr) @ sr_todo sr)" using that by simp
    then show ?thesis using assms unfolding outcome_ok_def by (auto simp: stage_task_refs_def)
  qed
  have "work_of (snd (stage_step ev j sr s)) t = work_of s t" if "(fst t, fst (snd t)) \<noteq> (r, i)" for t
  proof (cases j)
    case (Suc k)
    then show ?thesis
      using that own [OF nth_mem refl, of k] work_of_goroutine_step [of t "sr_goroutines sr ! k" ev "sr_nodes sr" s]
      by (auto simp: case_prod_beta Let_def)
  qed simp
  then show "stage_frame r i s (snd (stage_step ev j sr s))"
    using only_executes_frame(10) [OF stage_step_frame [of s ev j sr]] by (simp add: stage_frame_def)
  have "sr_ref (fst (main_step ev sr s)) = sr_ref sr" if "sr_pc sr \<noteq> StWait"
    by (rule main_step_cases [OF that prod.collapse [symmetric], of ev s]) (simp_all add: stop_selecting_def spawn_def)
  then show "sr_ref (fst (stage_step ev j sr s)) = (r, i)"
    using assms(2) by (cases j) (auto simp: case_prod_beta Let_def)
qed

lemma idle_stage_completed:
  assumes "outcome_ok ev sr s" "sr_ref sr = (r, i)" "stage_idle sr" "sr_selectionErr sr = None" "sr_errChan sr = []"
    and "k < length (sg_Tasks (jb_Stages (deref s r) ! i))"
  shows "task_completed ev s (r, i, k)"
proof -
  have "(r, i, k) \<in> set (stage_task_refs r i s)" using assms(6) by (simp add: stage_task_refs_def)
  then have "(r, i, k) \<in> set (map (wk_task \<circ> go_worker) (sr_goroutines sr))"
    using assms(1-4) unfolding outcome_ok_def stage_idle_def by (metis append_Nil2 fst_conv snd_conv)
  then obtain g where g: "g \<in> set (sr_goroutines sr)" "wk_task (go_worker g) = (r, i, k)" by auto
  then have "wk_pc (go_worker g) = PcReturn None" "progress_ok ev s (go_worker g)"
    using assms(1,3,5) by (auto simp: outcome_ok_def stage_idle_def list_all_iff)
  then show ?thesis using g(2) by (simp add: progress_ok_def)
qed

lemma executeStage_completes:
  assumes "i < length (jb_Stages (deref s r))" "\<And>tick. ev_ctx ev tick = None"
    and "executeStage ev sched r i s = (err, s')"
  shows "stage_frame r i s s'"
    "err = None \<Longrightarrow> k < length (sg_Tasks (jb_Stages (deref s r) ! i)) \<Longrightarrow> task_completed ev s' (r, i, k)"
proof -
  obtain begun s1 where b: "begin_stage ev r i s = (begun, s1)" by fastforce
  have s1: "s1 = step_tick (upd_stage r i (\<lambda>g. g\<lparr>sg_Status := JobRunning\<rparr>) s)"
    using b by (auto simp: begin_stage_def GetHealthyNodes_def Let_def split: if_splits)
  have f1: "stage_frame r i s s1"
    using stage_frame_status [of r i s r i JobRunning] unfolding s1 stage_frame_def by simp
  note shape = shape_tasks [OF f1 [unfolded stage_frame_def, THEN conjunct1, rule_format]]
  have "stage_frame r i s s' \<and> (err = None \<and> k < length (sg_Tasks (jb_Stages (deref s r) ! i)) \<longrightarrow>
      task_completed ev s' (r, i, k))"
  proof (cases begun)
    case (Inl e)
    then show ?thesis using assms(3) b f1 by (auto simp: executeStage_def)
  next
    case (Inr sr)
    let ?P = "\<lambda>sr' s'. outcome_ok ev sr' s' \<and> sr_ref sr' = (r, i) \<and> stage_frame r i s s'"
    have "?P sr s1"
      using b Inr assms(1) f1 shape
      by (auto simp: begin_stage_def GetHealthyNodes_def Let_def outcome_ok_def split: if_splits)
    moreover have "?P (fst (stage_step ev j sr' s')) (snd (stage_step ev j sr' s'))" if "?P sr' s'" for j sr' s'
      using that stage_step_outcome [OF _ assms(2) prod.collapse [symmetric]] stage_step_stage_frame
        stage_frame_trans by blast
    ultimately obtain sr2 s2 where run: "run_schedule ev sched sr s1 = (sr2, s2)" "?P sr2 s2" "stage_idle sr2"
      using run_schedule_invariant [of ?P ev sr s1 sched] by (metis prod.collapse)
    have fin: "finish_stage sr2 s2 = (err, s')" using assms(3) b Inr run(1) by (simp add: executeStage_def)
    then obtain st where s': "s' = upd_stage r i (\<lambda>g. g\<lparr>sg_Status := st\<rparr>) s2"
      using run(2) by (auto simp: finish_stage_def stage_failed_def split: option.splits list.splits)
    have f2: "stage_frame r i s s'" using run(2) stage_frame_trans stage_frame_status unfolding s' by blast
    have "task_completed ev s' (r, i, k)" if "err = None" "k < length (sg_Tasks (jb_Stages (deref s r) ! i))"
    proof -
      have "sr_selectionErr sr2 = None" "sr_errChan sr2 = []"
        using fin that(1) run(2) by (auto simp: finish_stage_def stage_failed_def split: option.splits list.splits)
      moreover have "k < length (sg_Tasks (jb_Stages (deref s2 r) ! i))"
        using that(2) shape_tasks(2) [of s2 r s i] run(2) assms(1) by (simp add: stage_frame_def)
      ultimately have "task_completed ev s2 (r, i, k)" using idle_stage_completed run(2,3) by blast
      then show ?thesis by (subst task_completed_work [of _ _ s2]) (simp_all add: s' work_of_upd_stage)
    qed
    then show ?thesis using f2 by blast
  qed
  then show "stage_frame r i s s'"
    "err = None \<Longrightarrow> k < length (sg_Tasks (jb_Stages (deref s r) ! i)) \<Longrightarrow> task_completed ev s' (r, i, k)" by blast+
qed


definition stages_frame :: "job_ref \<Rightarrow> nat set \<Rightarrow> Scheduler \<Rightarrow> Scheduler \<Rightarrow> bool" where
  "stages_frame r I s s' \<longleftrightarrow>
     (\<forall>r. job_shape (deref s' r) = job_shape (deref s r))
     \<and> (\<forall>i k. i \<notin> I \<longrightarrow> work_of s' (r, i, k) = work_of s (r, i, k))"

lemma execute_stages_completes:
  assumes "\<And>tick. ev_ctx ev tick = None"
  shows "execute_stages ev scheds r is s = (err, s') \<Longrightarrow> distinct is \<Longrightarrow>
    \<forall>i \<in> set is. i < length (jb_Stages (deref s r)) \<Longrightarrow>
    stages_frame r (set is) s s' \<and>
    (err = None \<longrightarrow> (\<forall>i \<in> set is. \<forall>k < length (sg_Tasks (jb_Stages (deref s r) ! i)). task_completed ev s' (r, i, k)))"
proof (induction "is" arbitrary: s)
  case Nil
  then show ?case by (simp add: stages_frame_def)
next
  case (Cons i js)
  obtain e s1 where e: "executeStage ev (scheds i) r i s = (e, s1)" by fastforce
  have i: "i < length (jb_Stages (deref s r))" using Cons.prems(3) by simp
  have f: "stage_frame r i s s1" using executeStage_completes(1) [OF i assms e] .
  note shape = shape_tasks [OF f [unfolded stage_frame_def, THEN conjunct1, rule_format]]
  show ?case
  proof (cases e)
    case (Some x)
    then have "err = e" "s' = s1" using Cons.prems(1) e by simp_all
    then show ?thesis using f Some by (simp add: stages_frame_def stage_frame_def)
  next
    case None
    have ran: "task_completed ev s1 (r, i, k)" if "k < length (sg_Tasks (jb_Stages (deref s r) ! i))" for k
      using executeStage_completes(2) [OF i assms e None that] .
    have rest: "execute_stages ev scheds r js s1 = (err, s')" using Cons.prems(1) e None by simp
    have IH: "stages_frame r (set js) s1 s'"
      "err = None \<Longrightarrow> \<forall>i \<in> set js. \<forall>k < length (sg_Tasks (jb_Stages (deref s1 r) ! i)). task_completed ev s' (r, i, k)"
      using Cons.IH [OF rest] Cons.prems(2,3) shape(1) by auto
    have "work_of s' (r, i, k) = work_of s1 (r, i, k)" for k
      using IH(1) Cons.prems(2) by (simp add: stages_frame_def)
    then have "task_completed ev s' (r, i, k) = task_completed ev s1 (r, i, k)" for k
      by (rule task_completed_work)
    then show ?thesis
      using IH f ran Cons.prems(3) shape(2) by (auto simp: stages_frame_def stage_frame_def)
  qed
qed

lemma recordJob_status: "jb_Status (deref (recordJobTransition ev r transition new err s) x) = jb_Status (deref s x)"
  using only_records_frame(2) [OF nextSequence_only [OF prod.collapse [symmetric]]]
    only_records_frame(2) [OF persist_only [OF prod.collapse [symmetric]]]
  by (auto simp: recordJobTransition_def Let_def time_Now_def case_prod_beta split: sum.split option.split)

lemma finish_job_status:
  "jb_Status (deref (finish_job ev r err s) r) = JobCompleted \<longleftrightarrow> err = None"
  by (auto simp: finish_job_def recordJob_status updateJobStatus_def time_Now_def split: option.split)

lemma start_job_shape [simp]: "job_shape (deref (start_job ev r s) x) = job_shape (deref s x)"
proof -
  have written: "job_shape (deref (recordJobTransition ev r transition new err s) x) = job_shape (deref s x)"
    for transition new err s
    using recordJobTransition_frame [of s ev r transition new err] by (simp add: only_journal_def)
  have "job_shape (deref (updateJobStatus ev r status s) x) = job_shape (deref s x)" for status
    by (simp add: updateJobStatus_def time_Now_def job_shape_def)
  then show ?thesis by (simp add: start_job_def Let_def written)
qed

lemma work_of_job_pieces [simp]:
  "work_of (start_job ev r s) = work_of s" "work_of (finish_job ev r err s) = work_of s"
  by (simp_all add: start_job_def finish_job_def Let_def split: option.split)


section \<open>Properties\<close>

text \<open>C5. A job that ends as completed has run all of its tasks. For every interleaving of the task
  goroutines of each stage, when the context is not cancelled and \<^verbatim>\<open>executeJob\<close> leaves the job with
  status completed, every task of every stage is completed and holds an output that the executor
  returned for the agent and the input of that task, called with an authority that the leadership
  provider had confirmed.\<close>

theorem completed_job_ran_all_tasks:
  assumes "\<forall>tick. ev_ctx ev tick = None"
    and "mget (sc_jobs s) (jb_ID (deref s r)) = Some r"
    and "jb_Status (deref (executeJob ev scheds r s) r) = JobCompleted"
    and "i < length (jb_Stages (deref s r))" "k < length (sg_Tasks (jb_Stages (deref s r) ! i))"
  shows "let task = get_task (executeJob ev scheds r s) (r, i, k) in
    tk_Status task = JobCompleted
    \<and> (\<exists>tick a nodeID. confirmed ev a \<and> ev_exec ev tick a nodeID (tk_AgentName task) (tk_Input task) = Inr (tk_Output task))"
proof -
  define s1 where "s1 = start_job ev r s"
  have shape: "job_shape (deref s1 x) = job_shape (deref s x)" for x by (simp add: s1_def)
  obtain err s2 where e: "execute_stages ev scheds r [0..<length (jb_Stages (deref s1 r))] s1 = (err, s2)" by fastforce
  have job: "executeJob ev scheds r s = finish_job ev r err s2"
    using assms(2) e by (simp add: executeJob_def register_job_def s1_def [symmetric])
  then have "err = None" using assms(3) finish_job_status by metis
  then have "task_completed ev s2 (r, i, k)"
    using execute_stages_completes [OF _ e] assms(1,4,5) shape_tasks(1) [OF shape, of r] shape_tasks(2) [OF shape, of i r] by auto
  then have "task_completed ev (executeJob ev scheds r s) (r, i, k)"
    using task_completed_work [of "finish_job ev r err s2" _ s2] by (simp add: job)
  then show ?thesis by (simp add: task_completed_def executed_def work_of_def Let_def)
qed

theorem completed_job_ran_all_tasks_witness:
  "let task = get_task (executeJob example_run_env (\<lambda>_. [1, 0, 1]) 0 example_queued) (0, 0, 0) in
    tk_Status task = JobCompleted
    \<and> (\<exists>tick a nodeID. confirmed example_run_env a
         \<and> ev_exec example_run_env tick a nodeID (tk_AgentName task) (tk_Input task) = Inr (tk_Output task))"
proof (rule completed_job_ran_all_tasks)
  show "\<forall>tick. ev_ctx example_run_env tick = None" by (simp add: example_run_env_def example_env_def)
  show "jb_Status (deref (executeJob example_run_env (\<lambda>_. [1, 0, 1]) 0 example_queued) 0) = JobCompleted" by code_simp
qed code_simp+


definition example_cancelled_env :: env where
  "example_cancelled_env = example_run_env
     \<lparr>ev_ctx := (\<lambda>tick. if tick < 18 then None else Some (ErrNew ''context canceled'')),
      ev_choice := (\<lambda>_. True), ev_exec := (\<lambda>_ _ _ _ _. Inl (ErrNew ''context canceled''))\<rparr>"



definition example_paused_env :: env where
  "example_paused_env = example_run_env\<lparr>ev_exec := (\<lambda>_ _ _ _ _. Inl (ErrNew ''human interaction pending''))\<rparr>"


end
