(* ===== verification/Reconcile.thy ===== *)
theory Reconcile
  imports Scheduler_System
begin

text \<open>
  The durable requeue loop of \<^verbatim>\<open>pkg/scheduler/scheduler.go\<close>: one pass of
  \<^verbatim>\<open>reconcileDurableQueuedJobsOnce\<close> over the unfinished jobs of the store, in leader or follower mode,
  with the replay quarantine, and one tick of \<^verbatim>\<open>durableQueuedRequeueLoop\<close>.
\<close>

datatype ReconcileMode = ReconcileModeLeader | ReconcileModeFollower

definition reconcileModeLabel :: "ReconcileMode \<Rightarrow> string" where
  "reconcileModeLabel mode = (if mode = ReconcileModeLeader then ''leader'' else ''follower'')"

definition malformedReplayQuarantineTTL :: time where
  "malformedReplayQuarantineTTL = 30 * 1000000000"

definition staleInFlightReconcileTimeout :: time where
  "staleInFlightReconcileTimeout = 60 * 1000000000"

section \<open>Replayed tasks\<close>

definition allReplayedTasksPending :: "(string, DurableTaskRecord) gomap \<Rightarrow> bool" where
  "allReplayedTasksPending tasks \<longleftrightarrow>
     tasks = [] \<or>
     list_all (\<lambda>(_, task). dt_CurrentState task = TaskStateUnset \<or> dt_CurrentState task = TaskStatePending) tasks"

definition hasStaleInFlightReplayedTask :: "(string, DurableTaskRecord) gomap \<Rightarrow> time \<Rightarrow> time \<Rightarrow> bool" where
  "hasStaleInFlightReplayedTask tasks now timeout \<longleftrightarrow>
     0 < timeout \<and>
     list_ex (\<lambda>(_, task).
        (dt_CurrentState task = TaskStateDispatched \<or> dt_CurrentState task = TaskStateRunning)
        \<and> (dt_UpdatedAt task = 0 \<or> dt_UpdatedAt task < now - timeout)) tasks"

text \<open>The loop returns at the first task that is not over; the order of the map does not matter.\<close>

definition replayedTerminalJobState :: "(string, DurableTaskRecord) gomap \<Rightarrow> JobLifecycleState option" where
  "replayedTerminalJobState tasks =
     (if tasks = [] then None
      else if list_ex (\<lambda>(_, task). dt_CurrentState task \<noteq> TaskStateSucceeded
                                  \<and> dt_CurrentState task \<noteq> TaskStateFailed) tasks then None
      else if list_ex (\<lambda>(_, task). dt_CurrentState task = TaskStateFailed) tasks then Some JobStateFailed
      else Some JobStateSucceeded)"

section \<open>The replay quarantine\<close>

definition setReplayQuarantine :: "string \<Rightarrow> time \<Rightarrow> Scheduler \<Rightarrow> Scheduler" where
  "setReplayQuarantine jobID until s = s\<lparr>sc_replayQuarantine := mput jobID until (sc_replayQuarantine s)\<rparr>"

definition replayQuarantineUntil :: "string \<Rightarrow> Scheduler \<Rightarrow> time option" where
  "replayQuarantineUntil jobID s = mget (sc_replayQuarantine s) jobID"

definition clearReplayQuarantine :: "string \<Rightarrow> Scheduler \<Rightarrow> Scheduler" where
  "clearReplayQuarantine jobID s = s\<lparr>sc_replayQuarantine := mdel jobID (sc_replayQuarantine s)\<rparr>"

definition recordReconcileSuccess :: "time \<Rightarrow> Scheduler \<Rightarrow> Scheduler" where
  "recordReconcileSuccess at s = s\<lparr>sc_lastReconcileTime := at\<rparr>"

section \<open>Enqueueing and failing\<close>

definition tryEnqueueExistingQueuedJob :: "string \<Rightarrow> Scheduler \<Rightarrow> bool \<times> Scheduler" where
  "tryEnqueueExistingQueuedJob jobID s =
     (case mget (sc_jobs s) jobID of
        None \<Rightarrow> (False, s)
      | Some r \<Rightarrow>
          if jb_LifecycleState (deref s r) \<noteq> JobStateQueued then (False, s)
          else if \<not> isSafeForQueuedResume (deref s r) then (False, s)
          else if 0 < recoveredQueuedMissingExecutionFieldCount (deref s r) (cf_EnableStickiness (sc_config s))
          then (False, s)
          else if mget (sc_queuedJobs s) (jb_ID (deref s r)) \<noteq> None then (True, s)
          else enqueueJobLocked r s)"

text \<open>The job object \<^verbatim>\<open>failDurableQueuedJobForReconcile\<close> registers when there is none.\<close>

definition failed_stub :: "DurableJobRecord \<Rightarrow> Job" where
  "failed_stub d =
     \<lparr>jb_ID = dj_JobID d, jb_Name = dj_Name d, jb_Stages = [], jb_Edges = [],
      jb_Status = runtimeJobStatusFromLifecycle (dj_CurrentState d), jb_LifecycleState = dj_CurrentState d,
      jb_CreatedAt = dj_CreatedAt d, jb_UpdatedAt = dj_UpdatedAt d, jb_Metadata = [(''recovered'', VBool True)]\<rparr>"

definition job_or_stub :: "DurableJobRecord \<Rightarrow> Scheduler \<Rightarrow> job_ref \<times> Scheduler" where
  "job_or_stub d s =
     (case mget (sc_jobs s) (dj_JobID d) of
        Some r \<Rightarrow> (r, s)
      | None \<Rightarrow>
          (let (r, s) = alloc_job (failed_stub d) s
           in (r, s\<lparr>sc_jobs := mput (dj_JobID d) r (sc_jobs s)\<rparr>)))"

text \<open>The forced quarantine writes the job row, not the log.\<close>

definition force_quarantine :: "env \<Rightarrow> DurableJobRecord \<Rightarrow> job_ref \<Rightarrow> Scheduler \<Rightarrow> Scheduler" where
  "force_quarantine ev d r s =
     (let (now, s) = time_Now ev s;
          s = upd_job r (\<lambda>j. j\<lparr>jb_LifecycleState := JobStateFailed, jb_UpdatedAt := now\<rparr>) s;
          row = \<lparr>dj_JobID = dj_JobID d, dj_Name = dj_Name d, dj_CurrentState = JobStateFailed,
                 dj_LastSequenceID = dj_LastSequenceID d, dj_CreatedAt = dj_CreatedAt d, dj_UpdatedAt = now\<rparr>
      in case sc_transitionStore s of
           None \<Rightarrow> s
         | Some st \<Rightarrow>
             (case tx_UpsertJob (ev_faults ev (sc_tick s)) row st of
                Inl e \<Rightarrow> step_tick s
              | Inr st' \<Rightarrow> (step_tick s)\<lparr>sc_transitionStore := Some st'\<rparr>))"

definition failDurableQueuedJobForReconcile :: "env \<Rightarrow> DurableJobRecord \<Rightarrow> string \<Rightarrow> Scheduler \<Rightarrow> Scheduler" where
  "failDurableQueuedJobForReconcile ev d reason s =
     (if dj_JobID d = '''' then s
      else
        (let (authority, s) = dispatchAuthority ev s in
         case authority of
           Inl e \<Rightarrow> s
         | Inr a \<Rightarrow>
             if \<not> la_IsLeader a then s
             else
               (let (r, s) = job_or_stub d s in
                if IsTerminalJobState (jb_LifecycleState (deref s r)) then s
                else
                  (let s = updateJobStatus ev r JobFailed s in
                   if CanTransitionJobState (jb_LifecycleState (deref s r)) JobStateFailed
                   then recordJobTransition ev r TransitionJobFailed JobStateFailed reason s
                   else force_quarantine ev d r s))))"

section \<open>One job\<close>

text \<open>The visibility part, under the lock: register a missing job, or take over state and time of a log
  that is ahead.\<close>

definition warm_replay :: "env \<Rightarrow> ReplayedJobState \<Rightarrow> Scheduler \<Rightarrow> job_ref \<times> Scheduler" where
  "warm_replay ev r s =
     (let j = rs_Job r; jobID = dj_JobID j in
      case mget (sc_jobs s) jobID of
        None \<Rightarrow>
          (let job = buildRecoveredRuntimeJob ev (ev_rank ev (sc_tick s)) r;
               (ref, s) = alloc_job job (step_tick s);
               s = s\<lparr>sc_jobs := mput (jb_ID job) ref (sc_jobs s)\<rparr>
           in (ref, snd (seedJobSequenceLocked (jb_ID job) (dj_LastSequenceID j) (rs_Transitions r) s)))
      | Some ref \<Rightarrow>
          if mget_or 0 (sc_jobSequences s) jobID < dj_LastSequenceID j
          then (ref, snd (seedJobSequenceLocked (jb_ID (deref s ref)) (dj_LastSequenceID j) (rs_Transitions r)
                  (upd_job ref (\<lambda>x. x\<lparr>jb_LifecycleState := dj_CurrentState j, jb_UpdatedAt := dj_UpdatedAt j\<rparr>) s)))
          else (ref, s))"

text \<open>The leader's part: end a job whose tasks are over, or queue one that was never dispatched.\<close>

definition resume_or_finish ::
    "env \<Rightarrow> DurableJobRecord \<Rightarrow> ReplayedJobState \<Rightarrow> job_ref \<Rightarrow> Scheduler \<Rightarrow> Scheduler" where
  "resume_or_finish ev d r ref s =
     (case (if jb_LifecycleState (deref s ref) = JobStateRunning
            then replayedTerminalJobState (rs_Tasks r) else None) of
        Some terminal \<Rightarrow>
          if terminal = JobStateSucceeded
          then recordJobTransition ev ref TransitionJobSucceeded JobStateSucceeded
                 ''reconcile synthesized terminal success after leader failover'' (updateJobStatus ev ref JobCompleted s)
          else if terminal = JobStateFailed
          then recordJobTransition ev ref TransitionJobFailed JobStateFailed
                 ''reconcile synthesized terminal failure after leader failover'' (updateJobStatus ev ref JobFailed s)
          else s
      | None \<Rightarrow>
          (let s = (if jb_LifecycleState (deref s ref) = JobStateSubmitted
                    then recordJobTransition ev ref TransitionJobQueued JobStateQueued '''' s else s);
               missing = recoveredQueuedMissingExecutionFieldCount (deref s ref) (cf_EnableStickiness (sc_config s))
           in if jb_LifecycleState (deref s ref) \<noteq> JobStateQueued then s
              else if \<not> isSafeForQueuedResume (deref s ref) then s
              else if 0 < missing
              then failDurableQueuedJobForReconcile ev d
                     (''reconcile skipped auto-resume: recovered queued job missing execution fields (''
                      @ decimal missing @ '')'') s
              else snd (enqueueJobLocked ref s)))"

definition reconcile_replayed ::
    "env \<Rightarrow> ReconcileMode \<Rightarrow> DurableJobRecord \<Rightarrow> ReplayedJobState \<Rightarrow> Scheduler \<Rightarrow> Scheduler" where
  "reconcile_replayed ev mode d r s =
     (if mode = ReconcileModeLeader \<and> dj_CurrentState (rs_Job r) = JobStateRunning
         \<and> allReplayedTasksPending (rs_Tasks r)
      then failDurableQueuedJobForReconcile ev d
             ''reconcile detected orphan running state without dispatched/running tasks after leadership loss'' s
      else
        (let running = (mode = ReconcileModeLeader \<and> dj_CurrentState (rs_Job r) = JobStateRunning);
             (stale, s) = (if running
                           then (let (now, s) = time_Now ev s
                                 in (hasStaleInFlightReplayedTask (rs_Tasks r) now staleInFlightReconcileTimeout, s))
                           else (False, s))
         in if stale
            then failDurableQueuedJobForReconcile ev d
                   ''reconcile detected stale in-flight task after leadership loss'' s
            else
              (let (ref, s) = warm_replay ev r s
               in if mode \<noteq> ReconcileModeLeader then s else resume_or_finish ev d r ref s)))"

text \<open>A job in quarantine is skipped; an expired quarantine is lifted.\<close>

definition check_quarantine :: "env \<Rightarrow> string \<Rightarrow> Scheduler \<Rightarrow> bool \<times> Scheduler" where
  "check_quarantine ev jobID s =
     (case replayQuarantineUntil jobID s of
        None \<Rightarrow> (False, s)
      | Some until \<Rightarrow>
          (let (now, s) = time_Now ev s
           in if now < until then (True, s) else (False, clearReplayQuarantine jobID s)))"

definition reconcile_job :: "env \<Rightarrow> ReconcileMode \<Rightarrow> DurableJobRecord \<Rightarrow> Scheduler \<Rightarrow> Scheduler" where
  "reconcile_job ev mode d s =
     (let (skip, s) = check_quarantine ev (dj_JobID d) s in
      if skip then s
      else
        (let (enqueued, s) = (if mode = ReconcileModeLeader then tryEnqueueExistingQueuedJob (dj_JobID d) s
                              else (False, s))
         in if enqueued then s
            else
              (let (res, s) = replay_now ev (dj_JobID d) s in
               case res of
                 Inl e \<Rightarrow>
                   if mode = ReconcileModeLeader
                   then (let (now, s) = time_Now ev s;
                             s = setReplayQuarantine (dj_JobID d) (now + malformedReplayQuarantineTTL) s
                         in failDurableQueuedJobForReconcile ev d (''reconcile replay failed: '' @ error_text e) s)
                   else s
               | Inr r \<Rightarrow>
                   reconcile_replayed ev mode d (replay_merge d r) (clearReplayQuarantine (dj_JobID d) s))))"

section \<open>One pass\<close>

fun reconcile_jobs ::
    "env \<Rightarrow> ReconcileMode \<Rightarrow> DurableJobRecord list \<Rightarrow> Scheduler \<Rightarrow> go_error option \<times> Scheduler" where
  "reconcile_jobs ev mode [] s = (None, s)"
| "reconcile_jobs ev mode (d # ds) s =
     (let (err, s) = read_ctx ev s in
      case err of
        Some e \<Rightarrow> (Some e, s)
      | None \<Rightarrow> reconcile_jobs ev mode ds (reconcile_job ev mode d s))"

definition reconcileDurableQueuedJobsOnce ::
    "env \<Rightarrow> ReconcileMode \<Rightarrow> Scheduler \<Rightarrow> go_error option \<times> Scheduler" where
  "reconcileDurableQueuedJobsOnce ev mode s =
     (case sc_transitionStore s of
        None \<Rightarrow> (None, s)
      | Some st \<Rightarrow>
          (case store_ListUnfinishedJobs (ev_faults ev (sc_tick s)) st of
             Inl e \<Rightarrow> (Some e, step_tick s)
           | Inr jobs \<Rightarrow>
               (let jobs = sort_key (\<lambda>j. (dj_CreatedAt j, dj_JobID j)) jobs;
                    (err, s) = reconcile_jobs ev mode jobs (step_tick s)
                in case err of
                     Some e \<Rightarrow> (Some e, s)
                   | None \<Rightarrow> (let (now, s) = time_Now ev s in (None, recordReconcileSuccess now s)))))"

text \<open>One tick of the loop: leadership decides the mode, and the configuration may disable it.\<close>

definition requeue_tick :: "env \<Rightarrow> Scheduler \<Rightarrow> Scheduler" where
  "requeue_tick ev s =
     (let (authority, s) = dispatchAuthority ev s in
      case authority of
        Inl e \<Rightarrow> s
      | Inr a \<Rightarrow>
          (let mode = (if la_IsLeader a then ReconcileModeLeader else ReconcileModeFollower) in
           if (mode = ReconcileModeLeader \<and> \<not> cf_EnableLeaderDurableRequeueLoop (sc_config s))
              \<or> (mode = ReconcileModeFollower \<and> \<not> cf_EnableFollowerDurableRequeueLoop (sc_config s))
           then s
           else snd (reconcileDurableQueuedJobsOnce ev mode s)))"

section \<open>Frames\<close>

text \<open>What the work on one job leaves alone: the queue, the registrations there are, the logs written
  so far and the objects of all other jobs.\<close>

definition around :: "string \<Rightarrow> Scheduler \<Rightarrow> Scheduler \<Rightarrow> bool" where
  "around jobID s s' \<longleftrightarrow>
     sc_config s' = sc_config s \<and> sc_jobQueue s' = sc_jobQueue s \<and> sc_queuedJobs s' = sc_queuedJobs s
     \<and> sc_next s \<le> sc_next s' \<and> grows s s'
     \<and> (\<forall>r < sc_next s. job_shape (deref s' r) = job_shape (deref s r)
          \<and> (jb_ID (deref s r) \<noteq> jobID \<longrightarrow> deref s' r = deref s r))
     \<and> (\<forall>j r. mget (sc_jobs s) j = Some r \<longrightarrow> mget (sc_jobs s') j = Some r)"

lemma around_refl [simp, intro!]: "around jobID s s"
  by (simp add: around_def)

lemma job_shape_ID: "job_shape j = job_shape j' \<Longrightarrow> jb_ID j = jb_ID j'"
  by (simp add: job_shape_def)

lemma around_trans [trans]:
  assumes "around jobID s s'" "around jobID s' s''"
  shows "around jobID s s''"
proof -
  have old: "r < sc_next s' \<and> job_shape (deref s'' r) = job_shape (deref s r)
      \<and> (jb_ID (deref s r) \<noteq> jobID \<longrightarrow> deref s'' r = deref s r)" if r: "r < sc_next s" for r
  proof -
    have 1: "job_shape (deref s' r) = job_shape (deref s r)" "jb_ID (deref s r) \<noteq> jobID \<longrightarrow> deref s' r = deref s r"
      "r < sc_next s'"
      using assms(1) r by (simp_all add: around_def)
    have 2: "job_shape (deref s'' r) = job_shape (deref s' r)" "jb_ID (deref s' r) \<noteq> jobID \<longrightarrow> deref s'' r = deref s' r"
      using assms(2) 1(3) by (simp_all add: around_def)
    from 1 2 job_shape_ID [OF 1(1)] show ?thesis by (simp only:) metis
  qed
  have "grows s s''" "sc_next s \<le> sc_next s''"
    using assms grows_trans [of s s' s''] by (simp_all add: around_def)
  with assms old show ?thesis unfolding around_def by (simp only:) metis
qed

lemma aroundD:
  assumes "around jobID s s'"
  shows "sc_config s' = sc_config s" "sc_jobQueue s' = sc_jobQueue s" "grows s s'" "sc_next s \<le> sc_next s'"
    "mget (sc_jobs s) j = Some r \<Longrightarrow> mget (sc_jobs s') j = Some r" "sc_queuedJobs s' = sc_queuedJobs s"
  using assms by (simp_all add: around_def)

lemma around_object:
  assumes "around jobID s s'" "r < sc_next s"
  shows "jb_ID (deref s' r) = jb_ID (deref s r)" "jb_ID (deref s r) \<noteq> jobID \<Longrightarrow> deref s' r = deref s r"
    "r < sc_next s'"
proof -
  have "job_shape (deref s' r) = job_shape (deref s r)" using assms by (simp add: around_def)
  then show "jb_ID (deref s' r) = jb_ID (deref s r)" by (rule job_shape_ID)
  show "jb_ID (deref s r) \<noteq> jobID \<Longrightarrow> deref s' r = deref s r" "r < sc_next s'"
    using assms by (simp_all add: around_def)
qed

lemma around_queue:
  assumes "around jobID s s'" "queue_live s"
  shows "queue_live s'" "queue_ok s' = queue_ok s"
proof -
  have same: "jb_ID (deref s' r) = jb_ID (deref s r)" if "r \<in> set (sc_jobQueue s)" for r
    by (rule around_object(1) [OF assms(1)]) (use assms(2) that in \<open>simp add: queue_live_def\<close>)
  then have "map (\<lambda>r. jb_ID (deref s' r)) (sc_jobQueue s) = map (\<lambda>r. jb_ID (deref s r)) (sc_jobQueue s)"
    "(\<lambda>r. jb_ID (deref s' r)) ` set (sc_jobQueue s) = (\<lambda>r. jb_ID (deref s r)) ` set (sc_jobQueue s)"
    by (auto intro: image_cong)
  then show "queue_ok s' = queue_ok s"
    unfolding queue_ok_def queue_cap_def aroundD(1,2,6) [OF assms(1)] by (simp only:)
  show "queue_live s'"
    using assms(2) around_object(3) [OF assms(1)] aroundD(2) [OF assms(1)] by (simp add: queue_live_def)
qed

text \<open>The fields the loop keeps for itself.\<close>

lemma own_fields [simp]:
  "deref (s\<lparr>sc_replayQuarantine := m\<rparr>) = deref s" "deref (s\<lparr>sc_lastReconcileTime := t\<rparr>) = deref s"
  "log_of (s\<lparr>sc_replayQuarantine := m\<rparr>) = log_of s" "log_of (s\<lparr>sc_lastReconcileTime := t\<rparr>) = log_of s"
  by (simp_all add: deref_def log_of_def fun_eq_iff)

lemma own_fields_durable [simp]:
  "durable_ok (s\<lparr>sc_replayQuarantine := m\<rparr>) = durable_ok s"
  "durable_ok (s\<lparr>sc_lastReconcileTime := t\<rparr>) = durable_ok s"
  "seq_covered (s\<lparr>sc_replayQuarantine := m\<rparr>) j = seq_covered s j"
  "seq_covered (s\<lparr>sc_lastReconcileTime := t\<rparr>) j = seq_covered s j"
  by (simp_all add: durable_ok_def seq_covered_def counter_def split: option.splits)

lemma own_fields_sync [simp]:
  "sync (s\<lparr>sc_replayQuarantine := m\<rparr>) = sync s" "sync (s\<lparr>sc_lastReconcileTime := t\<rparr>) = sync s"
  by (simp_all add: sync_def)

lemma quarantine_around [simp, intro!]:
  "around jobID s (setReplayQuarantine j until s)" "around jobID s (clearReplayQuarantine j s)"
  by (simp_all add: around_def setReplayQuarantine_def clearReplayQuarantine_def grows_def)

lemma quarantine_sync [simp]:
  "sync (setReplayQuarantine j until s) = sync s" "sync (clearReplayQuarantine j s) = sync s"
  by (simp_all add: setReplayQuarantine_def clearReplayQuarantine_def)

lemma around_tick [simp, intro!]: "around jobID s (step_tick s)"
  by (simp add: around_def grows_def)

lemma only_records_around: "only_records s s' \<Longrightarrow> grows s s' \<Longrightarrow> around jobID s s'"
  using only_records_frame [of s s'] by (cases s; cases s') (simp add: around_def only_records_def)

lemma only_registers_around:
  assumes "only_registers s s'"
  shows "around jobID s s'"
proof -
  note f = only_registers_frame [OF assms]
  have "grows s s'" using f(1) by (simp add: grows_def log_of_def)
  then show ?thesis unfolding around_def using f by simp
qed

lemma upd_job_around:
  assumes "jb_ID (deref s r) = jobID" "job_shape (f (deref s r)) = job_shape (deref s r)"
  shows "around jobID s (upd_job r f s)"
  using assms by (auto simp: around_def grows_def)

lemma updateJobStatus_around:
  assumes "jb_ID (deref s r) = jobID"
  shows "around jobID s (updateJobStatus ev r status s)"
  unfolding updateJobStatus_def time_Now_def Let_def prod.case
  by (rule around_trans [OF around_tick upd_job_around]) (use assms in \<open>simp_all add: job_shape_def\<close>)

lemma recordJobTransition_around:
  assumes "sync s" "jb_ID (deref s r) = jobID"
  shows "around jobID s (recordJobTransition ev r transition new err s)"
proof -
  obtain s1 where s1: "only_records s s1" "grows s s1" and
    eq: "recordJobTransition ev r transition new err s
      \<in> {s1, upd_job r (\<lambda>j. j\<lparr>jb_LifecycleState := new\<rparr>) s1}"
    using recordJobTransition_effect [OF sync_durable_ok [OF assms(1)]] by blast
  have 1: "around jobID s s1" by (rule only_records_around [OF s1])
  have "deref s1 = deref s" using only_records_frame(2) [OF s1(1)] by (simp add: fun_eq_iff)
  then have "around jobID s1 (upd_job r (\<lambda>j. j\<lparr>jb_LifecycleState := new\<rparr>) s1)"
    using assms(2) by (intro upd_job_around) (simp_all add: job_shape_def)
  then show ?thesis using eq 1 around_trans [OF 1] by auto
qed


section \<open>Warm replay\<close>

text \<open>What a merged replay of the current log says.\<close>

definition replay_of :: "Scheduler \<Rightarrow> string \<Rightarrow> ReplayedJobState \<Rightarrow> bool" where
  "replay_of s jobID r \<longleftrightarrow>
     (\<exists>ts. replayed jobID ts (log_of s jobID) r) \<and> tasks_wf jobID (rs_Tasks r)
     \<and> rs_Transitions r = log_of s jobID"

lemma replay_now_of:
  assumes "sync s" "replay_now ev (dj_JobID d) s = (Inr r, s')"
  shows "replay_of s' (dj_JobID d) (replay_merge d r)" "s' = step_tick s"
proof -
  obtain st where st: "sc_transitionStore s = Some st" using assms(1) by (auto simp: sync_def durable_ok_def)
  note n = replay_now_rebuilt [OF st assms(2)]
  have "replayed (dj_JobID d) (store_tasks_of st (dj_JobID d)) (log_of s (dj_JobID d)) (replay_merge d r)"
    using n(1) by (simp add: replayed_def replay_merge_def Let_def)
  moreover have "rs_Tasks (replay_merge d r) = rs_Tasks r" "rs_Transitions (replay_merge d r) = rs_Transitions r"
    by (simp_all add: replay_merge_def Let_def)
  ultimately show "replay_of s' (dj_JobID d) (replay_merge d r)" "s' = step_tick s"
    using n by (auto simp: replay_of_def)
qed

lemma replay_of_cong: "log_of s' = log_of s \<Longrightarrow> replay_of s' = replay_of s"
  by (simp add: replay_of_def fun_eq_iff)

lemma replay_of_state:
  assumes "sync s" "replay_of s jobID r" "mget (sc_jobs s) jobID = Some x"
    and "dj_CurrentState (rs_Job r) \<noteq> JobStateUnset"
  shows "jb_LifecycleState (deref s x) = dj_CurrentState (rs_Job r)"
proof -
  have "dj_CurrentState (rs_Job r) = last_or JobStateUnset (job_states (log_of s jobID))"
    using assms(2) by (auto simp: replay_of_def replayed_def)
  then show ?thesis
    using syncD(2) [OF assms(1,3)] assms(4) by (auto simp: job_synced_def last_or_def split: if_splits)
qed

lemma warm_replay_ok:
  assumes "sync s" "replay_of s jobID r" "warm_replay ev r s = (ref, s')"
  shows "sync s'" "around jobID s s'" "mget (sc_jobs s') jobID = Some ref"
    "sc_transitionStore s' = sc_transitionStore s"
proof -
  let ?j = "rs_Job r"
  have id: "dj_JobID ?j = jobID" using assms(2) by (auto simp: replay_of_def replayed_def)
  have "sync s' \<and> around jobID s s' \<and> mget (sc_jobs s') jobID = Some ref
      \<and> sc_transitionStore s' = sc_transitionStore s"
  proof (cases "mget (sc_jobs s) jobID")
    case None
    let ?b = "buildRecoveredRuntimeJob ev (ev_rank ev (sc_tick s)) r"
    have eq: "install_hydrated jobID r ?b (step_tick s) = (ref, s')"
      using assms(3) None id by (simp add: warm_replay_def install_hydrated_def Let_def)
    obtain ts where "replayed jobID ts (log_of (step_tick s) jobID) r" "tasks_wf jobID (rs_Tasks r)"
      "rs_Transitions r = log_of (step_tick s) jobID"
      using assms(2) by (auto simp: replay_of_def)
    note ok = install_hydrated_ok [OF _ this eq]
    have "only_registers (step_tick s) s'" by (rule installed_registers(1) [OF _ eq]) (simp add: None)
    then have "around jobID s s'" by (rule around_trans [OF around_tick only_registers_around])
    then show ?thesis using ok assms(1) by simp
  next
    case (Some x)
    show ?thesis
    proof (cases "mget_or 0 (sc_jobSequences s) jobID < dj_LastSequenceID ?j")
      case True
      let ?f = "\<lambda>x. x\<lparr>jb_LifecycleState := dj_CurrentState ?j, jb_UpdatedAt := dj_UpdatedAt ?j\<rparr>"
      let ?s = "upd_job x ?f s"
      note k = syncD [OF assms(1) Some]
      define y where "y = fst (seedJobSequenceLocked jobID (dj_LastSequenceID ?j) (rs_Transitions r) ?s)"
      have sd: "seedJobSequenceLocked jobID (dj_LastSequenceID ?j) (rs_Transitions r) ?s = (y, s')"
        and ref: "ref = x"
        using assms(3) Some True id k(1) by (auto simp: warm_replay_def Let_def y_def)
      have "dj_CurrentState ?j = last_or JobStateUnset (job_states (log_of s jobID))"
        using assms(2) by (auto simp: replay_of_def replayed_def)
      then have "job_synced (log_of s jobID) (?f (deref s x))"
        using k(1,2) by (auto simp: job_synced_def job_tasks_def last_or_def)
      then have "sync ?s"
        using k(1) by (intro sync_update [OF assms(1) Some]) (simp_all add: sync_durable_ok [OF assms(1)])
      moreover have "around jobID s ?s" by (rule upd_job_around) (simp_all add: k(1) job_shape_def)
      moreover note reg = seed_only_registers(1) [OF sd]
      ultimately show ?thesis
        using sync_seed [OF _ sd] Some ref around_trans [OF _ only_registers_around [OF reg]]
          only_registers_frame(1,7) [OF reg] by simp
    qed (use assms Some id in \<open>simp add: warm_replay_def\<close>)
  qed
  then show "sync s'" "around jobID s s'" "mget (sc_jobs s') jobID = Some ref"
    "sc_transitionStore s' = sc_transitionStore s" by blast+
qed


section \<open>The leader's writes\<close>

lemma failDurable_ok:
  assumes "sync s" "mget (sc_jobs s) (dj_JobID d) = Some r"
    and "IsTerminalJobState (jb_LifecycleState (deref s r))
         \<or> CanTransitionJobState (jb_LifecycleState (deref s r)) JobStateFailed"
  shows "sync (failDurableQueuedJobForReconcile ev d reason s)"
    "around (dj_JobID d) s (failDurableQueuedJobForReconcile ev d reason s)"
proof -
  let ?j = "dj_JobID d" and ?s' = "failDurableQueuedJobForReconcile ev d reason s"
  define s1 where "s1 = updateJobStatus ev r JobFailed (step_tick s)"
  define s2 where "s2 = recordJobTransition ev r TransitionJobFailed JobStateFailed reason s1"
  note id = syncD(1) [OF assms(1,2)]
  have s1: "deref s1 r = (deref s r)\<lparr>jb_Status := JobFailed, jb_UpdatedAt := ev_now ev (sc_tick (step_tick s))\<rparr>"
    "mget (sc_jobs s1) ?j = Some r"
    using assms(2) by (simp_all add: s1_def updateJobStatus_def time_Now_def)
  have sync1: "sync s1" using assms(1) by (simp add: s1_def updateJobStatus_ok)
  have a1: "around ?j s s1"
    unfolding s1_def by (rule around_trans [OF around_tick updateJobStatus_around]) (simp add: id)
  have a2: "around ?j s s2"
    unfolding s2_def by (rule around_trans [OF a1 recordJobTransition_around [OF sync1]]) (simp add: s1 id)
  have "sync s2" unfolding s2_def by (rule recordJobTransition_sync [OF sync1 s1(2)]) simp
  moreover have "?s' \<in> {s, step_tick s, s2}"
    using assms(2,3) s1(1)
    by (auto simp: failDurableQueuedJobForReconcile_def dispatchAuthority_def job_or_stub_def Let_def
        s1_def [symmetric] s2_def [symmetric] split: sum.split)
  ultimately show "sync ?s'" "around ?j s ?s'" using a2 assms(1) by auto
qed

definition ready :: "Scheduler \<Rightarrow> job_ref \<Rightarrow> bool" where
  "ready s r \<longleftrightarrow>
     registered s r \<and> resumable s r
     \<and> recoveredQueuedMissingExecutionFieldCount (deref s r) (cf_EnableStickiness (sc_config s)) = 0"

text \<open>One pass over the jobs \<open>J\<close>: their objects may change, and some of them, ready to run, are put at
  the back of the queue.\<close>

definition reconciles :: "string set \<Rightarrow> Scheduler \<Rightarrow> Scheduler \<Rightarrow> bool" where
  "reconciles J s s' \<longleftrightarrow>
     sc_config s' = sc_config s \<and> sc_next s \<le> sc_next s' \<and> grows s s'
     \<and> (\<forall>r < sc_next s. jb_ID (deref s' r) = jb_ID (deref s r)
          \<and> (jb_ID (deref s r) \<notin> J \<longrightarrow> deref s' r = deref s r))
     \<and> (\<forall>j r. mget (sc_jobs s) j = Some r \<longrightarrow> mget (sc_jobs s') j = Some r)
     \<and> (\<exists>added. sc_jobQueue s' = sc_jobQueue s @ added
          \<and> (\<forall>r \<in> set added. jb_ID (deref s' r) \<in> J \<and> ready s' r))"

lemma around_reconciles: "around jobID s s' \<Longrightarrow> reconciles {jobID} s s'"
  unfolding reconciles_def using aroundD [of jobID s s'] around_object [of jobID s s'] by simp

lemma reconciles_refl [simp, intro!]: "reconciles J s s"
  by (simp add: reconciles_def)

lemma reconciles_object:
  assumes "reconciles J s s'" "r < sc_next s"
  shows "jb_ID (deref s' r) = jb_ID (deref s r)" "jb_ID (deref s r) \<notin> J \<Longrightarrow> deref s' r = deref s r"
    "r < sc_next s'"
  using assms by (simp_all add: reconciles_def)

lemma reconciles_ready:
  assumes "reconciles J s s'" "ready s r" "jb_ID (deref s r) \<notin> J"
  shows "ready s' r" "deref s' r = deref s r"
proof -
  have r: "r < sc_next s" "mget (sc_jobs s) (jb_ID (deref s r)) = Some r"
    using assms(2) by (simp_all add: ready_def registered_def)
  note o = reconciles_object [OF assms(1) r(1)]
  show d: "deref s' r = deref s r" using o(2) assms(3) .
  have "mget (sc_jobs s') (jb_ID (deref s r)) = Some r" "sc_config s' = sc_config s"
    using assms(1) r(2) by (simp_all add: reconciles_def)
  then show "ready s' r" using assms(2) o(3) by (simp add: ready_def registered_def resumable_def d)
qed

lemma reconciles_trans:
  assumes "reconciles J s s'" "reconciles K s' s''" "J \<inter> K = {}"
  shows "reconciles (J \<union> K) s s''"
proof -
  obtain xs where xs: "sc_jobQueue s' = sc_jobQueue s @ xs" "\<forall>r \<in> set xs. jb_ID (deref s' r) \<in> J \<and> ready s' r"
    using assms(1) by (auto simp: reconciles_def)
  obtain ys where ys: "sc_jobQueue s'' = sc_jobQueue s' @ ys" "\<forall>r \<in> set ys. jb_ID (deref s'' r) \<in> K \<and> ready s'' r"
    using assms(2) by (auto simp: reconciles_def)
  have "jb_ID (deref s'' r) \<in> J \<and> ready s'' r" if "r \<in> set xs" for r
  proof -
    have k: "jb_ID (deref s' r) \<in> J" "ready s' r" using xs(2) that by blast+
    then have "jb_ID (deref s' r) \<notin> K" using assms(3) by blast
    from reconciles_ready [OF assms(2) k(2) this] k(1) show ?thesis by simp
  qed
  with xs(1) ys have q: "\<exists>added. sc_jobQueue s'' = sc_jobQueue s @ added
      \<and> (\<forall>r \<in> set added. jb_ID (deref s'' r) \<in> J \<union> K \<and> ready s'' r)"
    by (intro exI [of _ "xs @ ys"]) auto
  have "jb_ID (deref s'' r) = jb_ID (deref s r) \<and> (jb_ID (deref s r) \<notin> J \<union> K \<longrightarrow> deref s'' r = deref s r)"
    if "r < sc_next s" for r
    using reconciles_object [OF assms(1) that] reconciles_object [OF assms(2)] by simp
  moreover have "grows s s''" "sc_next s \<le> sc_next s''" "sc_config s'' = sc_config s"
    using assms(1,2) grows_trans [of s s' s''] by (simp_all add: reconciles_def)
  moreover have "\<forall>j r. mget (sc_jobs s) j = Some r \<longrightarrow> mget (sc_jobs s'') j = Some r"
    using assms(1,2) by (simp add: reconciles_def)
  ultimately show ?thesis unfolding reconciles_def using q by blast
qed


definition queue_sound :: "Scheduler \<Rightarrow> bool" where
  "queue_sound s \<longleftrightarrow> queue_ok s \<and> queue_live s"

definition leads :: "string set \<Rightarrow> Scheduler \<Rightarrow> Scheduler \<Rightarrow> bool" where
  "leads J s s' \<longleftrightarrow> sync s' \<and> queue_sound s' \<and> reconciles J s s'"

lemma around_queue_sound: "around jobID s s' \<Longrightarrow> queue_sound s \<Longrightarrow> queue_sound s'"
  using around_queue [of jobID s s'] by (simp add: queue_sound_def)

lemma around_leads: "around jobID s s' \<Longrightarrow> sync s' \<Longrightarrow> queue_sound s \<Longrightarrow> leads {jobID} s s'"
  using around_queue_sound around_reconciles by (simp add: leads_def)

lemma enqueue_leads:
  assumes "around jobID s s1" "sync s1" "queue_sound s" "ready s1 r" "jb_ID (deref s1 r) = jobID"
    and e: "enqueueJobLocked r s1 = (ok, s')"
  shows "leads {jobID} s s'"
proof -
  note q = enqueue_only_queue [OF e]
  note f = only_queue_frame [OF q]
  have qs: "queue_sound s1" using around_queue_sound [OF assms(1,3)] .
  have queue: "sc_jobQueue s' = sc_jobQueue s1 \<or> sc_jobQueue s' = sc_jobQueue s1 @ [r]"
    using e by (cases rule: enqueueJobLocked_cases) auto
  have rdy: "ready s' r" using assms(4) by (simp add: ready_def registered_def resumable_def f)
  then have "queue_sound s'"
    using qs queue enqueueJobLocked_ok [OF _ e] f(5)
    by (auto simp: queue_sound_def queue_live_def ready_def registered_def)
  moreover have "grows s1 s'" using f(3) by (simp add: grows_def log_of_def)
  then have "reconciles {jobID} s s'"
    unfolding reconciles_def
    using queue rdy assms(5) aroundD [OF assms(1)] around_object [OF assms(1)] grows_trans [of s s1 s']
    by (auto simp: f)
  ultimately show ?thesis using assms(2) only_queue_sync [OF q] by (simp add: leads_def)
qed

lemma tryEnqueue_leads:
  assumes "sync s" "queue_sound s" "tryEnqueueExistingQueuedJob jobID s = (ok, s')"
  shows "leads {jobID} s s'" "\<not> ok \<Longrightarrow> s' = s"
proof -
  have skip: "leads {jobID} s s" by (rule around_leads) (use assms in auto)
  have "leads {jobID} s s' \<and> (\<not> ok \<longrightarrow> s' = s)"
  proof (cases "s' = s")
    case False
    then obtain r where r: "mget (sc_jobs s) jobID = Some r"
      and e: "enqueueJobLocked r s = (ok, s')" and rdy: "resumable s r"
        "recoveredQueuedMissingExecutionFieldCount (deref s r) (cf_EnableStickiness (sc_config s)) = 0"
      using assms(3) by (auto simp: tryEnqueueExistingQueuedJob_def resumable_def
          split: option.splits if_splits)
    have id: "jb_ID (deref s r) = jobID" "r < sc_next s" using syncD [OF assms(1) r] by blast+
    then have "leads {jobID} s s'"
      by (intro enqueue_leads [OF _ assms(1,2) _ _ e]) (use r rdy in \<open>simp_all add: ready_def registered_def\<close>)
    moreover from e False have "ok" by (cases rule: enqueueJobLocked_cases) auto
    ultimately show ?thesis by simp
  qed (use skip in simp)
  then show "leads {jobID} s s'" "\<not> ok \<Longrightarrow> s' = s" by blast+
qed

lemma finish_ok:
  assumes "sync s" "mget (sc_jobs s) jobID = Some r" "known_job_state new"
  shows "sync (recordJobTransition ev r transition new err (updateJobStatus ev r status s))"
    "around jobID s (recordJobTransition ev r transition new err (updateJobStatus ev r status s))"
proof -
  let ?s = "updateJobStatus ev r status s"
  note id = syncD(1) [OF assms(1,2)]
  have s: "sync ?s" using assms(1) by (simp add: updateJobStatus_ok)
  have r: "mget (sc_jobs ?s) jobID = Some r" "jb_ID (deref ?s r) = jobID"
    using assms(2) id by (simp_all add: updateJobStatus_def time_Now_def)
  show "sync (recordJobTransition ev r transition new err ?s)"
    by (rule recordJobTransition_sync [OF s r(1) assms(3)])
  show "around jobID s (recordJobTransition ev r transition new err ?s)"
    by (rule around_trans [OF updateJobStatus_around [OF id] recordJobTransition_around [OF s r(2)]])
qed

lemma resume_or_finish_leads:
  assumes "around (dj_JobID d) s s1" "queue_sound s" "sync s1" "mget (sc_jobs s1) (dj_JobID d) = Some ref"
  shows "leads {dj_JobID d} s (resume_or_finish ev d r ref s1)"
proof -
  let ?j = "dj_JobID d"
  have keep: "leads {?j} s s'" if "sync s'" "around ?j s1 s'" for s'
    by (rule around_leads [OF around_trans [OF assms(1) that(2)] that(1) assms(2)])
  note id = syncD(1) [OF assms(3,4)]
  define s2 where "s2 = (if jb_LifecycleState (deref s1 ref) = JobStateSubmitted
    then recordJobTransition ev ref TransitionJobQueued JobStateQueued '''' s1 else s1)"
  define n where "n = recoveredQueuedMissingExecutionFieldCount (deref s2 ref) (cf_EnableStickiness (sc_config s2))"
  have sync2: "sync s2" using recordJobTransition_sync [OF assms(3,4)] assms(3) by (simp add: s2_def)
  have a2: "around ?j s1 s2" using recordJobTransition_around [OF assms(3) id] by (simp add: s2_def)
  have r2: "mget (sc_jobs s2) ?j = Some ref" by (rule aroundD(5) [OF a2 assms(4)])
  note k2 = syncD [OF sync2 r2]
  have fail: "leads {?j} s (failDurableQueuedJobForReconcile ev d reason s2)"
    if "jb_LifecycleState (deref s2 ref) = JobStateQueued" for reason
  proof -
    have "CanTransitionJobState (jb_LifecycleState (deref s2 ref)) JobStateFailed"
      unfolding that by code_simp
    then show ?thesis
      using failDurable_ok [OF sync2 r2] by (intro keep around_trans [OF a2]) blast+
  qed
  have enq: "leads {?j} s (snd (enqueueJobLocked ref s2))"
    if "jb_LifecycleState (deref s2 ref) = JobStateQueued" "isSafeForQueuedResume (deref s2 ref)" "n = 0"
    by (rule enqueue_leads [OF around_trans [OF assms(1) a2] sync2 assms(2) _ k2(1) prod.collapse [symmetric]])
      (use that k2 r2 in \<open>simp add: ready_def registered_def resumable_def n_def\<close>)
  show ?thesis
    unfolding resume_or_finish_def Let_def s2_def [symmetric] n_def [symmetric]
    using finish_ok [OF assms(3,4)] fail enq keep [OF sync2 a2] keep [OF assms(3) around_refl]
    by (auto intro!: keep split: option.split)
qed


lemma reconcile_replayed_leads:
  assumes "sync s" "queue_sound s" "around (dj_JobID d) s s1" "sync s1" "replay_of s1 (dj_JobID d) r"
    and "mget (sc_jobs s) (dj_JobID d) = Some x"
  shows "leads {dj_JobID d} s (reconcile_replayed ev ReconcileModeLeader d r s1)"
proof -
  let ?j = "dj_JobID d" and ?running = "dj_CurrentState (rs_Job r) = JobStateRunning"
  define s2 where "s2 = (if ?running then step_tick s1 else s1)"
  have a2: "around ?j s s2" using around_trans [OF assms(3) around_tick] assms(3) by (simp add: s2_def)
  have sync2: "sync s2" and rep2: "replay_of s2 ?j r"
    using assms(4,5) replay_of_cong [of "step_tick s1" s1] by (auto simp: s2_def fun_eq_iff)
  have fail: "leads {?j} s (failDurableQueuedJobForReconcile ev d reason t)"
    if t: "around ?j s t" "sync t" "replay_of t ?j r" and run: ?running for t reason
  proof -
    have x: "mget (sc_jobs t) ?j = Some x" by (rule aroundD(5) [OF t(1) assms(6)])
    have st: "jb_LifecycleState (deref t x) = JobStateRunning" using replay_of_state [OF t(2,3) x] run by simp
    have "CanTransitionJobState (jb_LifecycleState (deref t x)) JobStateFailed" unfolding st by code_simp
    then show ?thesis
      using failDurable_ok [OF t(2) x] around_trans [OF t(1)] by (blast intro: around_leads [OF _ _ assms(2)])
  qed
  obtain ref s3 where w: "warm_replay ev r s2 = (ref, s3)" by fastforce
  note ok = warm_replay_ok [OF sync2 rep2 w]
  have rest: "leads {?j} s (resume_or_finish ev d r ref s3)"
    by (rule resume_or_finish_leads [OF around_trans [OF a2 ok(2)] assms(2) ok(1,3)])
  show ?thesis
  proof (cases ?running)
    case True
    have s2: "s2 = step_tick s1" using True by (simp add: s2_def)
    show ?thesis
      using fail [OF assms(3-5) True] fail [OF a2 sync2 rep2 True] rest w
      by (simp add: reconcile_replayed_def True time_Now_def Let_def s2)
  next
    case False
    then show ?thesis using rest w by (simp add: reconcile_replayed_def Let_def s2_def)
  qed
qed

lemma reconcile_replayed_follower:
  assumes "sync s" "replay_of s (dj_JobID d) r"
  shows "sync (reconcile_replayed ev ReconcileModeFollower d r s)"
    "around (dj_JobID d) s (reconcile_replayed ev ReconcileModeFollower d r s)"
    "mget (sc_jobs (reconcile_replayed ev ReconcileModeFollower d r s)) (dj_JobID d) \<noteq> None"
    "sc_transitionStore (reconcile_replayed ev ReconcileModeFollower d r s) = sc_transitionStore s"
proof -
  obtain ref s' where w: "warm_replay ev r s = (ref, s')" by fastforce
  then have "reconcile_replayed ev ReconcileModeFollower d r s = s'" by (simp add: reconcile_replayed_def Let_def)
  then show "sync (reconcile_replayed ev ReconcileModeFollower d r s)"
    "around (dj_JobID d) s (reconcile_replayed ev ReconcileModeFollower d r s)"
    "mget (sc_jobs (reconcile_replayed ev ReconcileModeFollower d r s)) (dj_JobID d) \<noteq> None"
    "sc_transitionStore (reconcile_replayed ev ReconcileModeFollower d r s) = sc_transitionStore s"
    using warm_replay_ok [OF assms w] by simp_all
qed

section \<open>One job\<close>

lemma check_quarantine_ok:
  assumes "check_quarantine ev j s = (skip, s')"
  shows "around jobID s s'" "sync s' = sync s" "sc_transitionStore s' = sc_transitionStore s"
    "replayQuarantineUntil j s = None \<Longrightarrow> \<not> skip"
proof -
  have "s' \<in> {s, step_tick s, clearReplayQuarantine j (step_tick s)}"
    using assms by (auto simp: check_quarantine_def time_Now_def Let_def split: option.splits if_splits)
  then show "around jobID s s'" "sync s' = sync s" "sc_transitionStore s' = sc_transitionStore s"
    using around_trans [OF around_tick quarantine_around(2)] by (auto simp: clearReplayQuarantine_def)
  show "replayQuarantineUntil j s = None \<Longrightarrow> \<not> skip" using assms by (simp add: check_quarantine_def)
qed

definition reads_ok :: "env \<Rightarrow> bool" where
  "reads_ok ev \<longleftrightarrow> ev_scan_ctx ev = (\<lambda>_ _ _. None) \<and> ev_scan_faults ev = (\<lambda>_ _. no_faults)"

lemma replay_now_reads:
  assumes "sync s" "reads_ok ev" "jobID \<noteq> ''''"
  shows "\<exists>r. replay_now ev jobID s = (Inr r, step_tick s)"
proof -
  obtain st where st: "sc_transitionStore s = Some st" using assms(1) by (auto simp: sync_def durable_ok_def)
  have "legal_log jobID (store_log st jobID)"
    using sync_durable_ok [OF assms(1)] by (auto simp: durable_ok_def log_of_def st)
  then obtain r where "replay_data (\<lambda>_. None) st jobID = Inr r"
    using replay_data_complete [of jobID st "\<lambda>_. None"] by blast
  then show ?thesis
    using assms(2,3) st ReplayJobState_no_faults [of jobID "\<lambda>_. None" st] by (simp add: replay_now_def reads_ok_def)
qed


lemma around_then_leads:
  assumes "around jobID s s1" "leads {jobID} s1 s'"
  shows "leads {jobID} s s'"
proof -
  have r: "reconciles {jobID} s1 s'" using assms(2) by (simp add: leads_def)
  have "jb_ID (deref s' r) = jb_ID (deref s r) \<and> (jb_ID (deref s r) \<notin> {jobID} \<longrightarrow> deref s' r = deref s r)"
    if "r < sc_next s" for r
    using around_object [OF assms(1) that] reconciles_object [OF r] by simp
  moreover have "grows s s'" "sc_next s \<le> sc_next s'" "sc_config s' = sc_config s"
    "\<forall>j r. mget (sc_jobs s) j = Some r \<longrightarrow> mget (sc_jobs s') j = Some r"
    "\<exists>added. sc_jobQueue s' = sc_jobQueue s @ added
       \<and> (\<forall>r \<in> set added. jb_ID (deref s' r) \<in> {jobID} \<and> ready s' r)"
    using aroundD [OF assms(1)] r grows_trans [of s s1 s'] by (simp_all add: reconciles_def)
  ultimately have "reconciles {jobID} s s'" unfolding reconciles_def by blast
  then show ?thesis using assms(2) by (simp add: leads_def)
qed

lemma reconcile_job_leads:
  assumes "sync s" "queue_sound s" "reads_ok ev" "mget (sc_jobs s) (dj_JobID d) \<noteq> None"
  shows "leads {dj_JobID d} s (reconcile_job ev ReconcileModeLeader d s)"
proof -
  let ?j = "dj_JobID d"
  obtain skip s1 where c: "check_quarantine ev ?j s = (skip, s1)" by fastforce
  note c1 = check_quarantine_ok [OF c]
  have sync1: "sync s1" using c1(2) assms(1) by simp
  have qs1: "queue_sound s1" by (rule around_queue_sound [OF c1(1) assms(2)])
  obtain x where x: "mget (sc_jobs s1) ?j = Some x" using assms(4) aroundD(5) [OF c1(1)] by blast
  obtain enq s2 where e: "tryEnqueueExistingQueuedJob ?j s1 = (enq, s2)" by fastforce
  note t = tryEnqueue_leads [OF sync1 qs1 e]
  have replay: "leads {?j} s1 (reconcile_replayed ev ReconcileModeLeader d (replay_merge d r)
        (clearReplayQuarantine ?j (step_tick s1)))"
    if "replay_now ev ?j s1 = (Inr r, step_tick s1)" for r
  proof (rule reconcile_replayed_leads [OF sync1 qs1 around_trans [OF around_tick quarantine_around(2)] _ _ x])
    show "sync (clearReplayQuarantine ?j (step_tick s1))" using sync1 by simp
    have "log_of (clearReplayQuarantine ?j (step_tick s1)) = log_of (step_tick s1)"
      by (simp add: clearReplayQuarantine_def)
    then show "replay_of (clearReplayQuarantine ?j (step_tick s1)) ?j (replay_merge d r)"
      using replay_now_of(1) [OF sync1 that] replay_of_cong by metis
  qed
  have blank: "leads {?j} s1 (failDurableQueuedJobForReconcile ev d reason
      (setReplayQuarantine ?j until (step_tick (step_tick s1))))" if "?j = ''''" for reason until
    using that sync1 around_trans [OF around_trans [OF around_tick around_tick] quarantine_around(1)]
    by (intro around_leads [OF _ _ qs1]) (simp_all add: failDurableQueuedJobForReconcile_def)
  have "leads {?j} s1 (reconcile_job ev ReconcileModeLeader d s)" if "\<not> skip"
  proof (cases enq)
    case False
    then have s2: "s2 = s1" using t(2) by simp
    show ?thesis
    proof (cases "\<exists>r. replay_now ev ?j s1 = (Inr r, step_tick s1)")
      case True
      then obtain r where r: "replay_now ev ?j s1 = (Inr r, step_tick s1)" by blast
      show ?thesis using replay [OF r] that False by (simp add: reconcile_job_def c e s2 r)
    next
      case no: False
      then have j: "?j = ''''" using replay_now_reads [OF sync1 assms(3)] by blast
      obtain err where "replay_now ev ?j s1 = (Inl err, step_tick s1)"
        using no by (auto simp: replay_now_def) (metis sumE)
      then show ?thesis
        using blank [OF j] that False by (simp add: reconcile_job_def c e s2 time_Now_def Let_def)
    qed
  qed (use that t(1) in \<open>simp add: reconcile_job_def c e\<close>)
  moreover have "leads {?j} s1 s1" by (rule around_leads [OF around_refl sync1 qs1])
  then have "leads {?j} s1 (reconcile_job ev ReconcileModeLeader d s)" if skip
    using that by (simp add: reconcile_job_def c)
  ultimately show ?thesis using around_then_leads [OF c1(1)] by blast
qed

lemma reconcile_job_follower:
  assumes "sync s"
  shows "sync (reconcile_job ev ReconcileModeFollower d s)"
    "around (dj_JobID d) s (reconcile_job ev ReconcileModeFollower d s)"
    "sc_transitionStore (reconcile_job ev ReconcileModeFollower d s) = sc_transitionStore s"
    "reads_ok ev \<Longrightarrow> dj_JobID d \<noteq> '''' \<Longrightarrow> replayQuarantineUntil (dj_JobID d) s = None \<Longrightarrow>
       mget (sc_jobs (reconcile_job ev ReconcileModeFollower d s)) (dj_JobID d) \<noteq> None"
proof -
  let ?j = "dj_JobID d" and ?s' = "reconcile_job ev ReconcileModeFollower d s"
  obtain skip s1 where c: "check_quarantine ev ?j s = (skip, s1)" by fastforce
  note c1 = check_quarantine_ok [OF c]
  have sync1: "sync s1" using c1(2) assms by simp
  obtain res s2 where q: "replay_now ev ?j s1 = (res, s2)" by fastforce
  have s2: "s2 = step_tick s1" using q by (auto simp: replay_now_def)
  have "sync ?s' \<and> around ?j s ?s' \<and> sc_transitionStore ?s' = sc_transitionStore s
      \<and> (reads_ok ev \<longrightarrow> ?j \<noteq> '''' \<longrightarrow> replayQuarantineUntil ?j s = None \<longrightarrow> mget (sc_jobs ?s') ?j \<noteq> None)"
  proof (cases "\<not> skip \<and> (\<exists>r. res = Inr r)")
    case True
    then obtain r where r: "res = Inr r" by blast
    let ?t = "clearReplayQuarantine ?j s2"
    have t: "sync ?t" "around ?j s ?t" "sc_transitionStore ?t = sc_transitionStore s"
      using sync1 around_trans [OF c1(1) around_trans [OF around_tick quarantine_around(2)]] c1(3)
      by (simp_all add: s2) (simp add: clearReplayQuarantine_def)
    have "log_of ?t = log_of s2" by (simp add: clearReplayQuarantine_def)
    then have "replay_of ?t ?j (replay_merge d r)"
      using replay_now_of(1) [OF sync1 q [unfolded r]] replay_of_cong by metis
    note f = reconcile_replayed_follower [OF t(1) this]
    have "?s' = reconcile_replayed ev ReconcileModeFollower d (replay_merge d r) ?t"
      using True r q c by (simp add: reconcile_job_def)
    then show ?thesis using f t(3) around_trans [OF t(2) f(2)] by simp
  next
    case False
    then have "?s' = (if skip then s1 else s2)"
      using q c by (cases res) (auto simp: reconcile_job_def)
    moreover have "reads_ok ev \<Longrightarrow> ?j \<noteq> '''' \<Longrightarrow> replayQuarantineUntil ?j s \<noteq> None"
      using replay_now_reads [OF sync1, of ev ?j] q False c1(4) by auto
    ultimately show ?thesis
      using c1 assms around_trans [OF c1(1) around_tick] by (auto simp: s2)
  qed
  then show "sync ?s'" "around ?j s ?s'" "sc_transitionStore ?s' = sc_transitionStore s"
    "reads_ok ev \<Longrightarrow> ?j \<noteq> '''' \<Longrightarrow> replayQuarantineUntil ?j s = None \<Longrightarrow> mget (sc_jobs ?s') ?j \<noteq> None"
    by blast+
qed


section \<open>One pass\<close>

lemma keyed_rows_distinct:
  assumes "wf_map m" "\<And>k v. mget m k = Some v \<Longrightarrow> f v = k"
  shows "distinct (map f (filter P (map snd m)))"
proof -
  have "map f (map snd m) = map fst m"
    using assms by (auto simp: wf_map_mget_iff)
  then have "distinct (map f (map snd m))" using assms(1) unfolding wf_map_def by (simp only:)
  then show ?thesis by (rule distinct_map_filter)
qed

lemma distinct_map_sort_key: "distinct (map f (sort_key k xs)) = distinct (map f xs)"
proof -
  have "mset (map f (sort_key k xs)) = mset (map f xs)" by simp
  then show ?thesis by (rule mset_eq_imp_distinct_iff)
qed

lemma unfinished_distinct:
  assumes "store_invar st" "store_ListUnfinishedJobs F st = Inr jobs"
  shows "distinct (map dj_JobID jobs)"
proof (cases st)
  case (MemoryStore m)
  then show ?thesis
    using assms keyed_rows_distinct [of "ms_jobs m" dj_JobID]
    by (auto simp: mem_ListUnfinishedJobs_def mem_invar_def distinct_map_sort_key)
next
  case (PostgresStore p)
  then show ?thesis
    using assms keyed_rows_distinct [of "pg_jobs p" dj_JobID]
    by (auto simp: pg_ListUnfinishedJobs_def pg_query_Inr pg_invar_def distinct_map_sort_key)
qed

lemma reconcile_jobs_leads:
  assumes "sync s" "queue_sound s" "reads_ok ev" "distinct (map dj_JobID ds)"
    and "\<forall>d \<in> set ds. mget (sc_jobs s) (dj_JobID d) \<noteq> None"
  shows "leads (dj_JobID ` set ds) s (snd (reconcile_jobs ev ReconcileModeLeader ds s))"
  using assms
proof (induction ds arbitrary: s)
  case Nil
  then show ?case by (simp add: leads_def)
next
  case (Cons d ds)
  let ?j = "dj_JobID d" and ?s = "reconcile_job ev ReconcileModeLeader d (step_tick s)"
  have t: "sync (step_tick s)" "queue_sound (step_tick s)"
    using Cons.prems(1,2) around_queue_sound [OF around_tick] by simp_all
  have one: "leads {?j} s ?s"
    by (rule around_then_leads [OF around_tick reconcile_job_leads [OF t Cons.prems(3)]]) (use Cons.prems(5) in simp)
  then have ok: "sync ?s" "queue_sound ?s" and rec: "reconciles {?j} s ?s" by (simp_all add: leads_def)
  have "\<forall>d \<in> set ds. mget (sc_jobs ?s) (dj_JobID d) \<noteq> None"
    using Cons.prems(5) rec by (fastforce simp: reconciles_def)
  with Cons.prems ok have rest: "leads (dj_JobID ` set ds) ?s (snd (reconcile_jobs ev ReconcileModeLeader ds ?s))"
    by (intro Cons.IH) simp_all
  have "leads ({?j} \<union> dj_JobID ` set ds) s (snd (reconcile_jobs ev ReconcileModeLeader ds ?s))"
    using reconciles_trans [OF rec] rest Cons.prems(4) by (simp add: leads_def)
  moreover have "reconciles (dj_JobID ` set (d # ds)) s (step_tick s)"
    by (simp add: reconciles_def grows_def)
  then have "leads (dj_JobID ` set (d # ds)) s (step_tick s)" using t by (simp add: leads_def)
  ultimately show ?case by (simp add: read_ctx_def split: option.split)
qed

text \<open>What a follower may do: register jobs and take over the state the log gives them.\<close>

definition follows :: "Scheduler \<Rightarrow> Scheduler \<Rightarrow> bool" where
  "follows s s' \<longleftrightarrow>
     sync s' \<and> sc_transitionStore s' = sc_transitionStore s \<and> sc_jobQueue s' = sc_jobQueue s
     \<and> sc_queuedJobs s' = sc_queuedJobs s
     \<and> (\<forall>j r. mget (sc_jobs s) j = Some r \<longrightarrow> mget (sc_jobs s') j = Some r)"

lemma follows_trans: "follows s s' \<Longrightarrow> follows s' s'' \<Longrightarrow> follows s s''"
  by (simp add: follows_def)

lemma around_follows:
  "around jobID s s' \<Longrightarrow> sync s' \<Longrightarrow> sc_transitionStore s' = sc_transitionStore s \<Longrightarrow> follows s s'"
  using aroundD [of jobID s s'] by (simp add: follows_def)

lemma reconcile_job_follows: "sync s \<Longrightarrow> follows s (reconcile_job ev ReconcileModeFollower d s)"
  by (rule around_follows [OF reconcile_job_follower(2,1,3)])

lemma reconcile_jobs_follows:
  assumes "sync s"
  shows "follows s (snd (reconcile_jobs ev ReconcileModeFollower ds s))"
  using assms
proof (induction ds arbitrary: s)
  case (Cons d ds)
  let ?s = "reconcile_job ev ReconcileModeFollower d (step_tick s)"
  have t: "follows s (step_tick s)" by (rule around_follows [OF around_tick]) (simp_all add: Cons.prems)
  have one: "follows s ?s" by (rule follows_trans [OF t reconcile_job_follows]) (simp add: Cons.prems)
  then have "sync ?s" by (simp add: follows_def)
  then have "follows s (snd (reconcile_jobs ev ReconcileModeFollower ds ?s))"
    by (rule follows_trans [OF one Cons.IH])
  then show ?case using t by (simp add: read_ctx_def split: option.split)
qed (simp add: follows_def)


text \<open>A follower lifts quarantines and sets none.\<close>

definition lifts :: "Scheduler \<Rightarrow> Scheduler \<Rightarrow> bool" where
  "lifts s s' \<longleftrightarrow> (\<forall>j. replayQuarantineUntil j s = None \<longrightarrow> replayQuarantineUntil j s' = None)"

lemma lifts_trans: "lifts s s' \<Longrightarrow> lifts s' s'' \<Longrightarrow> lifts s s''"
  by (simp add: lifts_def)

lemma same_lifts: "sc_replayQuarantine s' = sc_replayQuarantine s \<Longrightarrow> lifts s s'"
  by (simp add: lifts_def replayQuarantineUntil_def)

lemma clear_lifts: "lifts s (clearReplayQuarantine j s)"
  by (simp add: lifts_def replayQuarantineUntil_def clearReplayQuarantine_def)

lemma seed_quarantine [simp]:
  "sc_replayQuarantine (snd (seedJobSequenceLocked jobID n trs s)) = sc_replayQuarantine s"
  by (simp add: seedJobSequenceLocked_def Let_def)

lemma warm_replay_lifts: "lifts s (snd (warm_replay ev r s))"
  by (rule same_lifts) (simp add: warm_replay_def Let_def alloc_job_def split: option.split)

lemma reconcile_job_lifts: "lifts s (reconcile_job ev ReconcileModeFollower d s)"
proof -
  let ?j = "dj_JobID d"
  obtain skip s1 where c: "check_quarantine ev ?j s = (skip, s1)" by fastforce
  have "lifts s s1"
    using c clear_lifts [of "step_tick s" ?j] same_lifts [of "step_tick s" s] lifts_trans [of s "step_tick s"]
    by (auto simp: check_quarantine_def time_Now_def Let_def lifts_def split: option.splits if_splits)
  moreover have tick: "lifts s1 (step_tick s1)" by (rule same_lifts) simp
  moreover have "lifts (step_tick s1) (reconcile_replayed ev ReconcileModeFollower d r
      (clearReplayQuarantine ?j (step_tick s1)))" for r
    using lifts_trans [OF clear_lifts warm_replay_lifts]
    by (simp add: reconcile_replayed_def Let_def case_prod_beta)
  ultimately show ?thesis
    using lifts_trans [of s s1] lifts_trans [of s1 "step_tick s1"]
    by (auto simp: reconcile_job_def c replay_now_def Let_def split: sum.split)
qed

lemma reconcile_jobs_visible:
  assumes "sync s" "reads_ok ev" "reconcile_jobs ev ReconcileModeFollower ds s = (None, s')"
    and "d \<in> set ds" "dj_JobID d \<noteq> ''''" "replayQuarantineUntil (dj_JobID d) s = None"
  shows "mget (sc_jobs s') (dj_JobID d) \<noteq> None"
  using assms
proof (induction ds arbitrary: s)
  case (Cons e ds)
  let ?s = "reconcile_job ev ReconcileModeFollower e (step_tick s)"
  have t: "sync (step_tick s)" "replayQuarantineUntil (dj_JobID d) (step_tick s) = None"
    using Cons.prems(1,6) by (simp_all add: replayQuarantineUntil_def)
  have rest: "reconcile_jobs ev ReconcileModeFollower ds ?s = (None, s')"
    using Cons.prems(3) by (auto simp: read_ctx_def split: option.splits)
  have ok: "sync ?s" by (rule reconcile_job_follower(1) [OF t(1)])
  show ?case
  proof (cases "e = d")
    case True
    then have "mget (sc_jobs ?s) (dj_JobID d) \<noteq> None"
      using reconcile_job_follower(4) [OF t(1) Cons.prems(2,5)] t(2) by simp
    then show ?thesis
      using reconcile_jobs_follows [OF ok, of ev ds] rest by (auto simp: follows_def)
  next
    case False
    have "replayQuarantineUntil (dj_JobID d) ?s = None"
      using reconcile_job_lifts [of "step_tick s" ev e] t(2) by (simp add: lifts_def)
    with False Cons.prems show ?thesis by (intro Cons.IH [OF ok _ rest]) auto
  qed
qed simp

lemma reconcile_once_follows:
  assumes "sync s"
  shows "follows s (snd (reconcileDurableQueuedJobsOnce ev ReconcileModeFollower s))"
proof -
  have own: "follows t (recordReconcileSuccess n (step_tick t))" if "sync t" for t n
    using that by (simp add: follows_def recordReconcileSuccess_def)
  have t: "follows s (step_tick s)" using assms by (simp add: follows_def)
  then have all: "follows s (snd (reconcile_jobs ev ReconcileModeFollower ds (step_tick s)))" for ds
    by (rule follows_trans [OF _ reconcile_jobs_follows]) (simp add: assms)
  then have "follows s (recordReconcileSuccess n (step_tick (snd (reconcile_jobs ev ReconcileModeFollower ds
      (step_tick s)))))" for ds n
    using own follows_trans by (meson follows_def)
  moreover have "follows s s" using assms by (simp add: follows_def)
  ultimately show ?thesis
    using t all by (simp add: reconcileDurableQueuedJobsOnce_def time_Now_def Let_def case_prod_beta
        split: option.split sum.split)
qed

lemma reconcile_once_leads:
  assumes "sync s" "queue_sound s" "reads_ok ev" "all_registered s"
  shows "\<exists>J. leads J s (snd (reconcileDurableQueuedJobsOnce ev ReconcileModeLeader s))"
proof -
  obtain st where st: "sc_transitionStore s = Some st" "store_invar st"
    using assms(1) by (auto simp: sync_def durable_ok_def)
  have own: "leads J s (recordReconcileSuccess n (step_tick t))" if "leads J s t" for J t n
  proof -
    have "queue_sound (recordReconcileSuccess n (step_tick t)) = queue_sound t"
      by (simp add: queue_sound_def queue_ok_def queue_live_def queue_cap_def recordReconcileSuccess_def)
    moreover have "ready (recordReconcileSuccess n (step_tick t)) = ready t"
      by (simp add: ready_def registered_def resumable_def recordReconcileSuccess_def fun_eq_iff)
    ultimately show ?thesis
      using that by (simp add: leads_def reconciles_def grows_def recordReconcileSuccess_def)
  qed
  have t: "sync (step_tick s)" "queue_sound (step_tick s)"
    using assms(1,2) around_queue_sound [OF around_tick] by simp_all
  have tick: "leads J s (step_tick s)" for J using t by (simp add: leads_def reconciles_def grows_def)
  show ?thesis
  proof (cases "store_ListUnfinishedJobs (ev_faults ev (sc_tick s)) st")
    case (Inl e)
    then show ?thesis using tick by (simp add: reconcileDurableQueuedJobsOnce_def st)
  next
    case (Inr jobs)
    define ds where "ds = sort_key (\<lambda>j. (dj_CreatedAt j, dj_JobID j)) jobs"
    let ?J = "dj_JobID ` set ds"
    have "distinct (map dj_JobID ds)"
      using unfinished_distinct [OF st(2) Inr] by (simp add: ds_def distinct_map_sort_key)
    moreover have "\<forall>d \<in> set ds. mget (sc_jobs (step_tick s)) (dj_JobID d) \<noteq> None"
      using assms(4) unfinished_no_faults [OF Inr] by (simp add: all_registered_def st(1) list_all_iff ds_def)
    ultimately have "leads ?J (step_tick s) (snd (reconcile_jobs ev ReconcileModeLeader ds (step_tick s)))"
      by (intro reconcile_jobs_leads [OF t assms(3)])
    then have "leads ?J s (snd (reconcile_jobs ev ReconcileModeLeader ds (step_tick s)))"
      by (simp add: leads_def reconciles_def grows_def)
    with own show ?thesis
      by (intro exI [of _ ?J]) (simp add: reconcileDurableQueuedJobsOnce_def st(1) Inr ds_def [symmetric]
          time_Now_def Let_def case_prod_beta split: option.split)
  qed
qed


section \<open>Properties\<close>

text \<open>The example: a queued job whose task has its agent, an input, and \<open>key\<close> for a partition key.\<close>

definition example_waiting :: "string \<Rightarrow> Scheduler" where
  "example_waiting key = upd_job 0
     (\<lambda>j. j\<lparr>jb_Stages := map (\<lambda>g. g\<lparr>sg_Tasks := map (\<lambda>t. t\<lparr>tk_Input := Some
        \<lparr>ai_TaskID = '''', ai_Instruction = ''go'', ai_Context = [], ai_Tools = [], ai_Model = '''',
         ai_MaxRetries = 0, ai_Timeout = 0\<rparr>, tk_PartitionKey := key\<rparr>) (sg_Tasks g)\<rparr>) (jb_Stages j)\<rparr>) example_queued"

text \<open>The same job, known to the scheduler but not in its queue.\<close>

definition example_unqueued :: Scheduler where
  "example_unqueued = (example_waiting ''p'')\<lparr>sc_jobQueue := [], sc_queuedJobs := []\<rparr>"

lemma example_waiting_sync: "sync (example_waiting key)"
  unfolding example_waiting_def
  by (subst sync_unseen)
    (simp_all add: job_view_def job_tasks_def map_concat comp_def task_view_def [abs_def] example_queued_ok)

lemma example_unqueued_ok:
  "sync example_unqueued" "queue_ok example_unqueued" "queue_live example_unqueued" "all_registered example_unqueued"
  "reads_ok (example_env 5)"
proof -
  have "only_queue (example_waiting ''p'') example_unqueued" by (simp add: only_queue_def example_unqueued_def)
  then show "sync example_unqueued" using only_queue_sync example_waiting_sync by blast
  have "sc_jobQueue example_unqueued = []" "sc_queuedJobs example_unqueued = []"
    by (simp_all add: example_unqueued_def)
  then show "queue_ok example_unqueued" "queue_live example_unqueued"
    by (simp_all add: queue_ok_def queue_live_def)
  show "all_registered example_unqueued" by code_simp
  show "reads_ok (example_env 5)" by (simp add: reads_ok_def example_env_def)
qed

text \<open>C0. A reconcile pass of the leader keeps the journal. When the store can be read and its unfinished
  jobs are registered, which recovery and the passes of a follower see to, then whatever the
  pass finds, and whatever faults its writes and the leadership provider have: every log stays a legal
  history and only grows, every registered job stays registered and in the state of its log, the queue stays
  bounded and without duplicates and keeps its order, and the jobs added at its end are registered,
  queued, without a dispatched task and complete enough to run.\<close>

theorem leader_reconcile_keeps_journal:
  assumes "sync s" "queue_ok s" "queue_live s" "reads_ok ev" "all_registered s"
    and "reconcileDurableQueuedJobsOnce ev ReconcileModeLeader s = (err, s')"
  shows "sync s' \<and> queue_ok s' \<and> queue_live s' \<and> grows s s'
    \<and> (\<forall>j r. mget (sc_jobs s) j = Some r \<longrightarrow> mget (sc_jobs s') j = Some r)
    \<and> (\<exists>added. sc_jobQueue s' = sc_jobQueue s @ added
         \<and> (\<forall>r \<in> set added. registered s' r \<and> resumable s' r
              \<and> recoveredQueuedMissingExecutionFieldCount (deref s' r) (cf_EnableStickiness (sc_config s')) = 0))"
proof -
  have "queue_sound s" using assms(2,3) by (simp add: queue_sound_def)
  from reconcile_once_leads [OF assms(1) this assms(4,5)] obtain J where "leads J s s'" using assms(6) by auto
  then show ?thesis by (auto simp: leads_def queue_sound_def reconciles_def ready_def)
qed

theorem leader_reconcile_keeps_journal_witness:
  "sync (snd (reconcileDurableQueuedJobsOnce (example_env 5) ReconcileModeLeader example_unqueued))
   \<and> sc_jobQueue (snd (reconcileDurableQueuedJobsOnce (example_env 5) ReconcileModeLeader example_unqueued)) = [0]"
proof -
  have "sc_jobQueue (snd (reconcileDurableQueuedJobsOnce (example_env 5) ReconcileModeLeader example_unqueued)) = [0]"
    by code_simp
  then show ?thesis
    using leader_reconcile_keeps_journal [OF example_unqueued_ok(1-3,5,4) prod.collapse [symmetric]] by blast
qed

text \<open>C0. A follower only watches. Under any faults its reconcile pass writes nothing to the store, leaves
  the queue and the registrations alone and keeps memory in agreement with the logs; and a pass that
  succeeds with a readable store has made every unfinished job visible, except those in quarantine.\<close>

theorem follower_reconcile_watches:
  assumes "sync s" "reconcileDurableQueuedJobsOnce ev ReconcileModeFollower s = (err, s')"
  shows "sync s' \<and> sc_transitionStore s' = sc_transitionStore s \<and> sc_jobQueue s' = sc_jobQueue s
    \<and> sc_queuedJobs s' = sc_queuedJobs s
    \<and> (\<forall>j r. mget (sc_jobs s) j = Some r \<longrightarrow> mget (sc_jobs s') j = Some r)
    \<and> (err = None \<longrightarrow> reads_ok ev \<longrightarrow> sc_transitionStore s = Some st \<longrightarrow>
         store_ListUnfinishedJobs no_faults st = Inr jobs \<longrightarrow> d \<in> set jobs \<longrightarrow> dj_JobID d \<noteq> '''' \<longrightarrow>
         mget (sc_replayQuarantine s) (dj_JobID d) = None \<longrightarrow> mget (sc_jobs s') (dj_JobID d) \<noteq> None)"
proof -
  have f: "follows s s'" using reconcile_once_follows [OF assms(1), of ev] assms(2) by simp
  have "mget (sc_jobs s') (dj_JobID d) \<noteq> None"
    if h: "err = None" "reads_ok ev" "sc_transitionStore s = Some st" "store_ListUnfinishedJobs no_faults st = Inr jobs"
      "d \<in> set jobs" "dj_JobID d \<noteq> ''''" "mget (sc_replayQuarantine s) (dj_JobID d) = None"
  proof -
    obtain ds where ds: "store_ListUnfinishedJobs (ev_faults ev (sc_tick s)) st = Inr ds"
      using assms(2) h(1,3) by (auto simp: reconcileDurableQueuedJobsOnce_def split: sum.splits)
    then have "ds = jobs" using unfinished_no_faults h(4) by fastforce
    with assms(2) h(1,3) ds obtain s1 where
      run: "reconcile_jobs ev ReconcileModeFollower (sort_key (\<lambda>j. (dj_CreatedAt j, dj_JobID j)) jobs) (step_tick s)
        = (None, s1)" and s': "sc_jobs s' = sc_jobs s1"
      by (auto simp: reconcileDurableQueuedJobsOnce_def time_Now_def recordReconcileSuccess_def Let_def
          split: option.splits prod.splits)
    have "mget (sc_jobs s1) (dj_JobID d) \<noteq> None"
      by (rule reconcile_jobs_visible [OF _ h(2) run])
        (use assms(1) h(5-7) in \<open>simp_all add: replayQuarantineUntil_def\<close>)
    then show ?thesis by (simp add: s')
  qed
  then show ?thesis using f by (simp add: follows_def)
qed

text \<open>A follower that knows no job yet.\<close>

definition example_follower :: Scheduler where
  "example_follower = example_unqueued\<lparr>sc_jobs := []\<rparr>"

theorem follower_reconcile_watches_witness:
  "sync (snd (reconcileDurableQueuedJobsOnce (example_env 5) ReconcileModeFollower example_follower))
   \<and> mget (sc_jobs (snd (reconcileDurableQueuedJobsOnce (example_env 5) ReconcileModeFollower example_follower))) ''j1'' \<noteq> None"
proof -
  let ?st = "the (sc_transitionStore example_follower)"
  have "durable_ok example_follower"
    using sync_durable_ok [OF example_unqueued_ok(1)] durable_cong [of example_follower example_unqueued]
    by (simp add: example_follower_def)
  then have "sync example_follower" by (simp add: sync_def example_follower_def)
  moreover have "sc_transitionStore example_follower = Some ?st" "store_ListUnfinishedJobs no_faults ?st = Inr [example_job]"
    "dj_JobID example_job = ''j1''" "sc_replayQuarantine example_follower = []"
    "fst (reconcileDurableQueuedJobsOnce (example_env 5) ReconcileModeFollower example_follower) = None"
    by code_simp+
  ultimately show ?thesis
    using follower_reconcile_watches [of example_follower "example_env 5" None _ ?st "[example_job]" example_job]
      example_unqueued_ok(5) by (metis list.set_intros(1) map_of.simps(1) prod.collapse list.distinct(1))
qed

text \<open>C0. The leader's reconcile pass fails jobs that wait in its own queue. A job that was admitted,
  whose task has agent and input and no partition key, and which is queued and registered with a legal
  history, is recorded as failed by the next pass, with no fault of store, clock or leadership:
  stickiness is enabled by default and makes the optional partition key a required field.\<close>

theorem leader_reconcile_fails_waiting_job:
  "sc_jobQueue (example_waiting '''') = [0]
   \<and> job_states (log_of (example_waiting '''') ''j1'') = [JobStateSubmitted, JobStateQueued]
   \<and> list_all (\<lambda>t. tk_Input t \<noteq> None \<and> tk_AgentID t \<noteq> '''' \<and> tk_AgentName t \<noteq> '''') (job_tasks (deref (example_waiting '''') 0))
   \<and> job_states (log_of (snd (reconcileDurableQueuedJobsOnce (example_env 5) ReconcileModeLeader (example_waiting ''''))) ''j1'')
      = [JobStateSubmitted, JobStateQueued, JobStateFailed]"
  by code_simp

text \<open>C0. The leader's reconcile pass fails jobs that its own main loop is running. A goroutine is about to
  call the executor for a task, or waits for its answer; the scheduler has been leader throughout. A
  pass more than a minute after the dispatch records the job as failed, as if leadership had been lost,
  while the call goes on.\<close>

theorem leader_reconcile_fails_running_job:
  "(case example_calling of
      (LoopStage r is sr, s) \<Rightarrow>
        list_ex (\<lambda>g. case wk_pc (go_worker g) of PcCall _ \<Rightarrow> True | _ \<Rightarrow> False) (sr_goroutines sr)
        \<and> job_states (log_of s ''j1'') = [JobStateSubmitted, JobStateQueued, JobStateRunning]
        \<and> job_states (log_of (snd (reconcileDurableQueuedJobsOnce (example_env (5 + staleInFlightReconcileTimeout + 1))
              ReconcileModeLeader s)) ''j1'')
           = [JobStateSubmitted, JobStateQueued, JobStateRunning, JobStateFailed]
    | _ \<Rightarrow> False)"
  by code_simp

section \<open>Forced quarantine\<close>

text \<open>A job of which only the submission is on record, found by a new leader.\<close>

definition example_submitted :: Scheduler where
  "example_submitted = NewScheduler
     \<lparr>sc_transitionStore := Some (MemoryStore
        \<lparr>ms_transitions = [(''j1'', take 1 example_queued_log)],
         ms_jobs = [(''j1'', example_job\<lparr>dj_CurrentState := JobStateSubmitted, dj_LastSequenceID := 1\<rparr>)], ms_tasks = []\<rparr>)\<rparr>"

text \<open>A single failed read makes the leader mark the job as failed in memory and in its row. The log is
  legal and still says \<^verbatim>\<open>SUBMITTED\<close>, and no later recovery sees the job, since its row is terminal.\<close>

lemma forced_quarantine_leaves_log:
  "(let s = snd (reconcileDurableQueuedJobsOnce example_run_env ReconcileModeLeader example_submitted) in
     legal_log ''j1'' (log_of s ''j1'') \<and> job_states (log_of s ''j1'') = [JobStateSubmitted]
     \<and> map_option (\<lambda>r. jb_LifecycleState (deref s r)) (mget (sc_jobs s) ''j1'') = Some JobStateFailed
     \<and> map_option (store_ListUnfinishedJobs no_faults) (sc_transitionStore s) = Some (Inr []))"
  by code_simp

end
