(* ===== verification/Spec2Isabelle.thy ===== *)
theory Spec2Isabelle
  imports Incarnations Stage_Outcome Reconcile
begin

text \<open>
  A verification of the control plane scheduler of dagens, \<^verbatim>\<open>pkg/scheduler\<close>, with the part of
  \<^verbatim>\<open>pkg/remote/dispatch_authority.go\<close> by which a worker checks who sent it a task.

  \<^bold>\<open>The program.\<close> Clients submit jobs; a job is a list of stages, a stage a list of tasks. The scheduler
  keeps the jobs in memory, sends accepted ones through a bounded queue to its main loop, and runs the
  stages of a job one after the other and the tasks of a stage in parallel on worker nodes. Every
  change of the lifecycle of a job or task is written to a transition store, in memory or PostgreSQL;
  after a restart, and when another scheduler takes over, jobs are rebuilt by replaying that log. A
  leadership provider (static or etcd) says which scheduler may dispatch, and workers refuse the
  authority of a deposed leader. Nodes are chosen by reported and reserved capacity, with an affinity
  map that pins partition keys to nodes.

  \<^bold>\<open>How the model is built.\<close> The scheduler is a record (\<open>Scheduler\<close>, theory \<open>Sched_State\<close>) with the fields
  of the Go struct; jobs live in a heap, since the code shares \<^verbatim>\<open>*Job\<close> pointers between the map, the queue and
  the goroutines and replaces them on refresh. Go maps are association lists, times and durations are
  integers of nanoseconds, sequence numbers are natural numbers, Go \<^verbatim>\<open>int\<close> values are \<open>int\<close>: the
  values are bounded by the configuration, far below the width of the machine type. Errors are values
  of \<open>go_error\<close> (theory \<open>Dagens_Prelude\<close>), with wrapping, \<^verbatim>\<open>errors.Is\<close> and \<^verbatim>\<open>errors.As\<close>. All that comes from outside is
  a field of \<open>env\<close>, read at a tick that every read advances: clock, leadership, healthy nodes,
  executor, store faults, context errors, the choice of a \<^verbatim>\<open>select\<close>, the order of a \<^verbatim>\<open>range\<close> over a map, the
  JSON codec. The theorems hold for every environment unless they say otherwise.

  \<^bold>\<open>The theories.\<close>
  \<^item> \<open>Dagens_Prelude\<close>: strings, numbers and maps of Go, errors, shared lemmas.
  \<^item> \<open>Lifecycle\<close> (\<^verbatim>\<open>state_machine.go\<close>): states, transition tables, \<open>Validate\<close>. Exact characterisation of the
    valid records.
  \<^item> \<open>Store_Contract\<close>, \<open>Memory_Store\<close>, \<open>Postgres_Store\<close>, \<open>Store_Interface\<close> (\<^verbatim>\<open>transition_store_memory.go\<close>,
    \<^verbatim>\<open>transition_store_postgres.go\<close>, and the interfaces of \<^verbatim>\<open>state_machine.go\<close>): a locale for the contract of a store, both
    stores as its interpretations, and the sum of the two that the scheduler uses. Claims
    are exclusive, appends commute, allocated sequence numbers are fresh.
  \<^item> \<open>Replay\<close> (\<^verbatim>\<open>replay.go\<close>): replay succeeds exactly on legal histories and returns their last states.
  \<^item> \<open>Sched_Config\<close> (\<^verbatim>\<open>config.go\<close>), \<open>Leadership\<close> (\<^verbatim>\<open>leadership.go\<close>, \<^verbatim>\<open>leadership_etcd.go\<close>,
    \<^verbatim>\<open>dispatch_authority.go\<close>), \<open>Affinity\<close> (\<^verbatim>\<open>affinity.go\<close>).
  \<^item> \<open>Sched_State\<close> (\<^verbatim>\<open>types.go\<close>, the struct and constructors of \<^verbatim>\<open>scheduler.go\<close>), \<open>Sched_Record\<close> (the recorders
    \<^verbatim>\<open>recordJobTransition\<close>, \<^verbatim>\<open>recordTaskTransition\<close>, \<^verbatim>\<open>claimTaskDispatchTransition\<close>), \<open>Journal\<close> (the invariant \<open>sync\<close>: every log is
    legal and every registered job and task is in the state of its last record; each recorder keeps
    it).
  \<^item> \<open>Job_Queue\<close> (the channel with its set of identifiers), \<open>Capacity\<close> (reports, reservations, node
    selection), \<open>Recovery\<close> (\<^verbatim>\<open>recovery.go\<close>), \<open>Admission\<close> (submission in two locked sections, lookup, refresh,
    retention, \<^verbatim>\<open>Start\<close>, \<^verbatim>\<open>Stop\<close>, \<^verbatim>\<open>Readiness\<close>).
  \<^item> \<open>Task_Execution\<close> (\<^verbatim>\<open>executeTask\<close>, \<^verbatim>\<open>executeTaskWithRetry\<close>), \<open>Stage_Execution\<close> (\<^verbatim>\<open>executeStage\<close>, \<^verbatim>\<open>executeJob\<close>, \<^verbatim>\<open>run\<close>,
    \<^verbatim>\<open>ResumeAwaitingHumanJob\<close>): each once as functions that read like the code and once as a machine whose steps
    are the sections between which other goroutines may run.
  \<^item> \<open>Run_Safety\<close>, \<open>Clients\<close>, \<open>Scheduler_System\<close>: what the steps keep, and the system in which the main loop, the
    goroutines of its stage and the clients take steps in any order. The functions are runs of the
    machine.
  \<^item> \<open>Incarnations\<close>: the system with crashes and recovery, and the trace of executor calls.
  \<^item> \<open>Stage_Outcome\<close>: what the result of a stage or job says about its tasks.

  \<^bold>\<open>Main results.\<close> In every reachable state, across crashes, the logs are legal histories and memory
  agrees with them; an executor call has its own dispatch record, written before the call and under
  a confirmed authority; reservations are the executions under way; a completed job has run all its
  tasks; every stage ends; recovery gives every job the progress it had; the queue is a bounded
  first-in first-out queue that admission never overfills.

  \<^bold>\<open>Bounds.\<close> No definition runs on fuel. The retry loop, the batches of recovery, the drain of a stage and
  the worker run are functions with termination proofs. A capacity deferral is given by the finite
  list of its events, since its timer bounds it; an exhausted list counts as the timeout. A schedule is
  a finite list of goroutine numbers, after which the remaining work is drained in a fixed order; the
  machine itself allows every order.

  \<^bold>\<open>Assumptions.\<close> A step between two locks is atomic; the data races of the code (for instance the
  counters \<^verbatim>\<open>jobSequences\<close>, guarded by two different mutexes) are not modelled. One scheduler writes a
  store at a time: the invariant \<open>sync\<close> relates the memory of one scheduler to the log. A client submits a job
  whose identifier has no history; the code does not check the store for one.

  \<^bold>\<open>Not modelled.\<close> Metrics, logging, tracing and operational alerts do not change the state. The wiring of
  goroutines, contexts and tickers is I/O; what the goroutines do is modelled.
  \<^verbatim>\<open>ResumeAwaitingHumanJob\<close> is modelled but not a step of the system, since it breaks the
  journal invariant (\<open>resume_breaks_history\<close>). The other packages of the repository are clients of external
  services (models, tools, retrieval, registries), transport, in-process agents and graphs, examples and
  command line tools; for the scheduler they are the executor, the registry and the callers, which are
  parameters here.
\<close>



text \<open>C2. Dispatches are written ahead. Over any number of incarnations, the executor has been called for
  a task of a job, on a node and with an attempt number, at most as often as the durable log of the job
  has records of that dispatch: no call goes unrecorded, and after a crash no dispatch is repeated
  without a record of its own.\<close>

theorem calls_written_ahead:
  assumes "life ev calls (l, s)"
  shows "count_list calls (jobID, taskID, nodeID, attempt)
    \<le> length (filter (\<lambda>tr. tr_EntityType tr = TransitionEntityTask \<and> tr_Transition tr = TransitionTaskDispatched
         \<and> tr_TaskID tr = taskID \<and> tr_NodeID tr = nodeID \<and> tr_Attempt tr = attempt) (log_of s jobID))"
  using life_invariant [OF assms, THEN conjunct2, rule_format, of "(jobID, taskID, nodeID, attempt)"]
  by (simp add: dispatches_def dispatch_of_def [abs_def])

theorem calls_written_ahead_witness:
  "\<exists>tr \<in> set (log_of example_second_life ''j1''). tr_Transition tr = TransitionTaskDispatched
     \<and> tr_TaskID tr = ''t1'' \<and> tr_NodeID tr = ''n1'' \<and> tr_Attempt tr = 1"
proof -
  let ?P = "\<lambda>tr. tr_EntityType tr = TransitionEntityTask \<and> tr_Transition tr = TransitionTaskDispatched
    \<and> tr_TaskID tr = ''t1'' \<and> tr_NodeID tr = ''n1'' \<and> tr_Attempt tr = 1"
  have "1 \<le> length (filter ?P (log_of example_second_life ''j1''))"
    using calls_written_ahead [OF example_life, of "''j1''" "''t1''" "''n1''" 1] by (simp add: example_life_calls)
  then have "filter ?P (log_of example_second_life ''j1'') \<noteq> []" by auto
  then show ?thesis by (auto simp: filter_empty_conv)
qed

end
